(* ===== verification/Go_Prelude.thy ===== *)
theory Go_Prelude
  imports Main "HOL-Library.Sublist"
begin

text \<open>
  Shared vocabulary of the development: the result of a Go call, the pieces of Go's standard
  library the modelled code uses (\<open>strings\<close>, \<open>strconv\<close>), association lists for Go maps whose
  iteration order matters, and the generic lemmas and simp collections the components share.

  A Go string is a \<^typ>\<open>string\<close>, that is a list of bytes.  The functions below that Go defines
  by rune (\<open>TrimSpace\<close>, \<open>ToLower\<close>) are exact on ASCII text.
\<close>

section \<open>Results of Go calls\<close>

text \<open>
  A Go function with a trailing \<open>error\<close> returns \<open>Ok\<close> or \<open>Err\<close> with the text of the error; a run
  time panic (an index out of range, a nil dereference) is a value of its own.
\<close>

datatype 'a go = Ok 'a | Err string | Panic

fun go_bind :: "'a go \<Rightarrow> ('a \<Rightarrow> 'b go) \<Rightarrow> 'b go" where
  "go_bind (Ok x) f = f x"
| "go_bind (Err e) f = Err e"
| "go_bind Panic f = Panic"

fun go_ok :: "'a go \<Rightarrow> bool" where
  "go_ok (Ok _) = True"
| "go_ok (Err _) = False"
| "go_ok Panic = False"

text \<open>Trying a call and falling back on another when it returns an error.\<close>

fun go_else :: "'a go \<Rightarrow> ('a \<Rightarrow> 'b) \<Rightarrow> (string \<Rightarrow> 'b go) \<Rightarrow> 'b go" where
  "go_else (Ok x) f g = Ok (f x)"
| "go_else (Err e) f g = g e"
| "go_else Panic f g = Panic"

text \<open>Running a fallible step over a list, stopping at the first failure.\<close>

fun go_map :: "('a \<Rightarrow> 'b go) \<Rightarrow> 'a list \<Rightarrow> 'b list go" where
  "go_map f [] = Ok []"
| "go_map f (x # xs) = go_bind (f x) (\<lambda>y. go_bind (go_map f xs) (\<lambda>ys. Ok (y # ys)))"

fun go_fold :: "('a \<Rightarrow> 's \<Rightarrow> 's go) \<Rightarrow> 'a list \<Rightarrow> 's \<Rightarrow> 's go" where
  "go_fold f [] s = Ok s"
| "go_fold f (x # xs) s = go_bind (f x s) (go_fold f xs)"

lemma go_map_cong [fundef_cong]:
  "xs = ys \<Longrightarrow> (\<And>x. x \<in> set ys \<Longrightarrow> f x = g x) \<Longrightarrow> go_map f xs = go_map g ys"
  by (induction xs arbitrary: ys) auto

lemma go_fold_cong [fundef_cong]:
  "xs = ys \<Longrightarrow> s = t \<Longrightarrow> (\<And>x s. x \<in> set ys \<Longrightarrow> f x s = g x s) \<Longrightarrow> go_fold f xs s = go_fold g ys t"
proof (induction xs arbitrary: ys s t)
  case (Cons x xs)
  then have "go_fold f xs = go_fold g xs" by (auto simp: fun_eq_iff)
  with Cons.prems show ?case by auto
qed auto

named_theorems go_inv \<open>inversion of successful, failed and panicking calls\<close>

lemma go_bind_Ok_iff [go_inv]: "go_bind m f = Ok y \<longleftrightarrow> (\<exists>x. m = Ok x \<and> f x = Ok y)"
  by (cases m) auto

lemma go_bind_Err_iff [go_inv]:
  "go_bind m f = Err e \<longleftrightarrow> m = Err e \<or> (\<exists>x. m = Ok x \<and> f x = Err e)"
  by (cases m) auto

lemma go_bind_Panic_iff [go_inv]:
  "go_bind m f = Panic \<longleftrightarrow> m = Panic \<or> (\<exists>x. m = Ok x \<and> f x = Panic)"
  by (cases m) auto

lemma go_ok_iff: "go_ok m \<longleftrightarrow> (\<exists>x. m = Ok x)"
  by (cases m) auto

lemma go_bind_assoc [simp]: "go_bind (go_bind m f) g = go_bind m (\<lambda>x. go_bind (f x) g)"
  by (cases m) auto

lemma go_bind_return [simp]: "go_bind m Ok = m"
  by (cases m) auto

lemma go_map_all_Ok: "(\<And>x. x \<in> set xs \<Longrightarrow> f x = Ok (g x)) \<Longrightarrow> go_map f xs = Ok (map g xs)"
  by (induction xs) auto

lemma go_map_no_Panic: "(\<And>x. x \<in> set xs \<Longrightarrow> f x \<noteq> Panic) \<Longrightarrow> go_map f xs \<noteq> Panic"
  by (induction xs) (auto simp: go_bind_Panic_iff)

lemma go_map_Ok_list_all2: "go_map f xs = Ok ys \<longleftrightarrow> list_all2 (\<lambda>x y. f x = Ok y) xs ys"
  by (induction xs arbitrary: ys) (auto simp: go_bind_Ok_iff list_all2_Cons1)

lemma go_map_Ok_length: "go_map f xs = Ok ys \<Longrightarrow> length ys = length xs"
  by (simp add: go_map_Ok_list_all2 list_all2_lengthD)

section \<open>Association lists: Go maps in an iteration order\<close>

text \<open>
  Go leaves the iteration order of a map open.  Where the code ranges over a map the model takes
  the entries as a list with distinct keys; a theorem for every list is a theorem for every order.
\<close>

fun alist_set :: "'k \<Rightarrow> 'v \<Rightarrow> ('k \<times> 'v) list \<Rightarrow> ('k \<times> 'v) list" where
  "alist_set k v [] = [(k, v)]"
| "alist_set k v ((k', v') # xs) = (if k' = k then (k, v) # xs else (k', v') # alist_set k v xs)"

definition alist_delete :: "'k \<Rightarrow> ('k \<times> 'v) list \<Rightarrow> ('k \<times> 'v) list" where
  "alist_delete k xs = filter (\<lambda>p. fst p \<noteq> k) xs"

lemma map_of_alist_set [simp]: "map_of (alist_set k v xs) = (map_of xs)(k \<mapsto> v)"
  by (induction k v xs rule: alist_set.induct) (auto simp: fun_eq_iff)

lemma alist_set_twice [simp]: "alist_set k v (alist_set k w xs) = alist_set k v xs"
  by (induction k w xs rule: alist_set.induct) auto

lemma map_of_alist_delete [simp]: "map_of (alist_delete k xs) = (map_of xs)(k := None)"
  by (induction xs) (auto simp: alist_delete_def fun_eq_iff)

lemma set_keys_alist_set [simp]: "fst ` set (alist_set k v xs) = insert k (fst ` set xs)"
  by (induction k v xs rule: alist_set.induct) auto

lemma distinct_keys_alist_set [simp]:
  "distinct (map fst xs) \<Longrightarrow> distinct (map fst (alist_set k v xs))"
proof (induction k v xs rule: alist_set.induct)
  case (2 k v k' v' xs)
  then show ?case
    using set_keys_alist_set [of k v xs] by (auto simp flip: set_map)
qed simp

lemma distinct_keys_alist_delete [simp]:
  "distinct (map fst xs) \<Longrightarrow> distinct (map fst (alist_delete k xs))"
  by (simp add: alist_delete_def distinct_map_filter)

lemma map_of_rev_distinct: "distinct (map fst xs) \<Longrightarrow> map_of (rev xs) = map_of xs"
  by (subst map_of_inject_set) (simp_all flip: rev_map)

section \<open>Strings\<close>

text \<open>\<open>strings.SplitN(s, sep, 2)\<close> for a one-byte separator: the text before and after the first.\<close>

definition split2 :: "char \<Rightarrow> string \<Rightarrow> string list" where
  "split2 c s = (case dropWhile (\<lambda>x. x \<noteq> c) s of
      [] \<Rightarrow> [s]
    | _ # rest \<Rightarrow> [takeWhile (\<lambda>x. x \<noteq> c) s, rest])"

text \<open>\<open>strings.Split(s, sep)\<close> for a one-byte separator.\<close>

fun split_on :: "char \<Rightarrow> string \<Rightarrow> string list" where
  "split_on c [] = [[]]"
| "split_on c (x # xs) =
     (if x = c then [] # split_on c xs
      else (case split_on c xs of [] \<Rightarrow> [[x]] | p # ps \<Rightarrow> (x # p) # ps))"

text \<open>\<open>strings.Join\<close>.\<close>

fun join :: "string \<Rightarrow> string list \<Rightarrow> string" where
  "join sep [] = []"
| "join sep [x] = x"
| "join sep (x # y # xs) = x @ sep @ join sep (y # xs)"

definition has_prefix :: "string \<Rightarrow> string \<Rightarrow> bool" where
  "has_prefix s p \<longleftrightarrow> take (length p) s = p"

definition trim_prefix :: "string \<Rightarrow> string \<Rightarrow> string" where
  "trim_prefix s p = (if has_prefix s p then drop (length p) s else s)"

definition is_space :: "char \<Rightarrow> bool" where
  "is_space c \<longleftrightarrow> c \<in> {CHR '' '', CHR 0x09, CHR 0x0A, CHR 0x0B, CHR 0x0C, CHR 0x0D}"

definition trim_left :: "string \<Rightarrow> string" where
  "trim_left s = dropWhile is_space s"

definition trim_space :: "string \<Rightarrow> string" where
  "trim_space s = rev (dropWhile is_space (rev (dropWhile is_space s)))"

definition is_upper :: "char \<Rightarrow> bool" where
  "is_upper c \<longleftrightarrow> (of_char c :: nat) \<ge> 65 \<and> (of_char c :: nat) \<le> 90"

definition is_lower :: "char \<Rightarrow> bool" where
  "is_lower c \<longleftrightarrow> (of_char c :: nat) \<ge> 97 \<and> (of_char c :: nat) \<le> 122"

definition is_digit :: "char \<Rightarrow> bool" where
  "is_digit c \<longleftrightarrow> (of_char c :: nat) \<ge> 48 \<and> (of_char c :: nat) \<le> 57"

definition lower_char :: "char \<Rightarrow> char" where
  "lower_char c = (if is_upper c then char_of ((of_char c :: nat) + 32) else c)"

definition to_lower :: "string \<Rightarrow> string" where
  "to_lower s = map lower_char s"

text \<open>\<open>fmt.Sprintf("%d", n)\<close> and \<open>strconv.Atoi\<close> (on a 64-bit platform).\<close>

fun show_nat :: "nat \<Rightarrow> string" where
  "show_nat n = (if n < 10 then [char_of (48 + n)] else show_nat (n div 10) @ [char_of (48 + n mod 10)])"

declare show_nat.simps [simp del]

definition show_int :: "int \<Rightarrow> string" where
  "show_int i = (if i < 0 then ''-'' @ show_nat (nat (- i)) else show_nat (nat i))"

fun digits_val :: "nat \<Rightarrow> string \<Rightarrow> nat option" where
  "digits_val acc [] = Some acc"
| "digits_val acc (c # cs) =
     (if is_digit c then digits_val (acc * 10 + ((of_char c :: nat) - 48)) cs else None)"

definition parse_nat :: "string \<Rightarrow> nat option" where
  "parse_nat s = (if s = [] then None else digits_val 0 s)"

definition atoi :: "string \<Rightarrow> int option" where
  "atoi s =
     (case (case s of
         [] \<Rightarrow> None
       | c # cs \<Rightarrow>
           if c = CHR ''-'' then map_option (\<lambda>n. - int n) (parse_nat cs)
           else if c = CHR ''+'' then map_option int (parse_nat cs)
           else map_option int (parse_nat s)) of
       None \<Rightarrow> None
     | Some i \<Rightarrow> if - (2 ^ 63) \<le> i \<and> i < 2 ^ 63 then Some i else None)"

subsection \<open>Lemmas on strings\<close>

lemma split2_no_sep: "c \<notin> set s \<Longrightarrow> split2 c s = [s]"
proof -
  assume "c \<notin> set s"
  then have "dropWhile (\<lambda>x. x \<noteq> c) s = []" by auto
  then show ?thesis by (simp add: split2_def del: dropWhile_eq_Nil_conv)
qed

lemma split2_sep: "c \<notin> set a \<Longrightarrow> split2 c (a @ c # b) = [a, b]"
proof -
  assume "c \<notin> set a"
  then have "dropWhile (\<lambda>x. x \<noteq> c) (a @ c # b) = c # b"
    and "takeWhile (\<lambda>x. x \<noteq> c) (a @ c # b) = a"
    by (induction a) auto
  then show ?thesis by (simp add: split2_def)
qed

lemma split2_cases:
  obtains "c \<notin> set s" "split2 c s = [s]"
  | a b where "s = a @ c # b" "c \<notin> set a" "split2 c s = [a, b]"
proof (cases "c \<in> set s")
  case True
  then obtain a b where "s = a @ c # b" "c \<notin> set a"
    by (meson split_list_first)
  with that(2) show thesis by (simp add: split2_sep)
next
  case False
  with that(1) show thesis by (simp add: split2_no_sep)
qed

lemma split2_ne_Nil [simp]: "split2 c s \<noteq> []"
  by (simp add: split2_def split: list.split)

lemma join_split2: "join [c] (split2 c s) = s"
  by (rule split2_cases [of c s]) auto

lemma split_on_ne_Nil [simp]: "split_on c s \<noteq> []"
  by (induction s) (auto split: list.split)

lemma join_split_on: "join [c] (split_on c s) = s"
proof (induction s)
  case (Cons x xs)
  obtain p ps where p: "split_on c xs = p # ps"
    by (cases "split_on c xs") auto
  with Cons.IH show ?case
    by (cases ps) auto
qed simp

lemma set_join: "c \<in> set (join [d] ps) \<Longrightarrow> c = d \<or> (\<exists>p \<in> set ps. c \<in> set p)"
  by (induction ps rule: induct_list012) auto

lemma split_on_parts: "p \<in> set (split_on c s) \<Longrightarrow> c \<notin> set p"
  by (induction s arbitrary: p) (auto split: list.splits if_splits)

lemma split_on_no_sep: "c \<notin> set s \<Longrightarrow> split_on c s = [s]"
  by (induction s) auto

lemma split_on_sep: "c \<notin> set a \<Longrightarrow> split_on c (a @ c # b) = a # split_on c b"
  by (induction a) auto

lemma split_on_join:
  "xs \<noteq> [] \<Longrightarrow> (\<And>x. x \<in> set xs \<Longrightarrow> c \<notin> set x) \<Longrightarrow> split_on c (join [c] xs) = xs"
proof (induction xs rule: induct_list012)
  case (3 x y zs)
  then show ?case by (simp add: split_on_sep)
qed (simp_all add: split_on_no_sep)

lemma has_prefix_iff: "has_prefix s p \<longleftrightarrow> (\<exists>t. s = p @ t)"
  unfolding has_prefix_def by (metis append_eq_conv_conj append_take_drop_id)

lemma trim_prefix_append [simp]: "trim_prefix (p @ s) p = s"
  by (simp add: trim_prefix_def has_prefix_def)

lemma trim_space_id: "\<forall>c \<in> set s. \<not> is_space c \<Longrightarrow> trim_space s = s"
proof -
  assume a: "\<forall>c \<in> set s. \<not> is_space c"
  have "dropWhile is_space t = t" if "\<forall>c \<in> set t. \<not> is_space c" for t
    using that by (cases t) auto
  from this [of s] this [of "rev s"] a show ?thesis by (simp add: trim_space_def)
qed

lemma dropWhile_hd_False: "s = [] \<or> \<not> P (hd s) \<Longrightarrow> dropWhile P s = s"
  by (cases s) auto

text \<open>The result of \<open>TrimSpace\<close> neither starts nor ends with a space.\<close>

lemma trim_space_cases:
  obtains "trim_space s = []"
  | "trim_space s \<noteq> []" "\<not> is_space (hd (trim_space s))" "\<not> is_space (last (trim_space s))"
proof (cases "trim_space s = []")
  case False
  let ?t = "dropWhile is_space s"
  let ?u = "dropWhile is_space (rev ?t)"
  from False have u: "?u \<noteq> []" by (simp add: trim_space_def del: dropWhile_eq_Nil_conv)
  then have t: "?t \<noteq> []" by (metis dropWhile.simps(1) rev.simps(1))
  from u have l: "\<not> is_space (hd ?u)" by (rule hd_dropWhile)
  have "rev ?t = takeWhile is_space (rev ?t) @ ?u" by simp
  then have "last (rev ?t) = last ?u" using u by (metis last_appendR)
  then have "last ?u = hd ?t" using t by (simp add: last_rev)
  moreover have "\<not> is_space (hd ?t)" using t by (rule hd_dropWhile)
  ultimately show thesis
    using that(2) False l u by (simp add: trim_space_def hd_rev last_rev del: dropWhile_eq_Nil_conv)
qed (rule that(1))

lemma trim_space_idem [simp]: "trim_space (trim_space s) = trim_space s"
proof (rule trim_space_cases [of s])
  assume "trim_space s \<noteq> []" "\<not> is_space (hd (trim_space s))" "\<not> is_space (last (trim_space s))"
  then have "dropWhile is_space (trim_space s) = trim_space s"
    and "dropWhile is_space (rev (trim_space s)) = rev (trim_space s)"
    by (auto intro!: dropWhile_hd_False simp: hd_rev)
  then show ?thesis by (simp add: trim_space_def [of "trim_space s"] del: dropWhile_eq_Nil_conv)
next
  assume "trim_space s = []"
  then show ?thesis by (simp add: trim_space_def [of "[]"])
qed

lemma to_lower_append [simp]: "to_lower (a @ b) = to_lower a @ to_lower b"
  by (simp add: to_lower_def)

lemma length_to_lower [simp]: "length (to_lower s) = length s"
  by (simp add: to_lower_def)

lemma lower_char_not_upper: "\<not> is_upper (lower_char c)"
proof (cases "is_upper c")
  case True
  then have b: "(of_char c :: nat) \<ge> 65" "(of_char c :: nat) \<le> 90"
    by (auto simp: is_upper_def)
  then have "of_char (lower_char c) = (of_char c :: nat) + 32"
    using True by (simp add: lower_char_def)
  with b show ?thesis by (simp add: is_upper_def)
next
  case False
  then show ?thesis by (simp add: lower_char_def)
qed

lemma lower_char_idem [simp]: "lower_char (lower_char c) = lower_char c"
  using lower_char_not_upper [of c] by (simp add: lower_char_def [of "lower_char c"])

lemma to_lower_idem [simp]: "to_lower (to_lower s) = to_lower s"
  by (simp add: to_lower_def)

subsection \<open>Decimal numbers\<close>

lemma of_char_digit: "n < 10 \<Longrightarrow> of_char (char_of (48 + n) :: char) = (48 + n :: nat)"
  by simp

lemma is_digit_char_of: "n < 10 \<Longrightarrow> is_digit (char_of (48 + n :: nat))"
  by (simp add: is_digit_def)

lemma show_nat_digits: "c \<in> set (show_nat n) \<Longrightarrow> is_digit c"
proof (induction n rule: show_nat.induct)
  case (1 n)
  then show ?case
    by (subst (asm) (2) show_nat.simps) (auto simp: is_digit_char_of split: if_splits)
qed

lemma show_nat_ne_Nil [simp]: "show_nat n \<noteq> []"
  by (subst show_nat.simps) simp

lemma digits_val_append:
  "digits_val acc (xs @ ys) = (case digits_val acc xs of None \<Rightarrow> None | Some a \<Rightarrow> digits_val a ys)"
  by (induction xs arbitrary: acc) auto

lemma digits_val_show_nat: "digits_val 0 (show_nat n) = Some n"
proof (induction n rule: show_nat.induct)
  case (1 n)
  show ?case
  proof (cases "n < 10")
    case True
    then show ?thesis
      by (subst show_nat.simps) (simp add: is_digit_char_of)
  next
    case False
    with "1.IH" have "digits_val 0 (show_nat (n div 10)) = Some (n div 10)" by simp
    with False show ?thesis
      by (subst show_nat.simps)
        (simp add: digits_val_append is_digit_char_of)
  qed
qed

lemma parse_nat_show_nat [simp]: "parse_nat (show_nat n) = Some n"
  by (simp add: parse_nat_def digits_val_show_nat)

lemma show_nat_not_sign: "show_nat n = c # cs \<Longrightarrow> c \<noteq> CHR ''-'' \<and> c \<noteq> CHR ''+''"
  using show_nat_digits [of c n] by (auto simp: is_digit_def)

lemma atoi_show_nat: "int n < 2 ^ 63 \<Longrightarrow> atoi (show_nat n) = Some (int n)"
proof -
  assume n: "int n < 2 ^ 63"
  obtain c cs where s: "show_nat n = c # cs"
    by (cases "show_nat n") auto
  have "parse_nat (c # cs) = Some n"
    using parse_nat_show_nat [of n] s by simp
  with n s show_nat_not_sign [OF s] show ?thesis
    by (simp add: atoi_def)
qed

lemma atoi_show_int: "- (2 ^ 63) \<le> i \<Longrightarrow> i < 2 ^ 63 \<Longrightarrow> atoi (show_int i) = Some i"
  by (cases "i < 0") (simp_all add: show_int_def atoi_show_nat, simp add: atoi_def)

lemma atoi_range: "atoi s = Some i \<Longrightarrow> - (2 ^ 63) \<le> i \<and> i < 2 ^ 63"
  by (auto simp: atoi_def split: option.splits list.splits if_splits)

end
