(* ===== verification/Shlex.thy ===== *)
theory Shlex
  imports Go_Prelude
begin

text \<open>
  The shell-style lexer \<open>flynn/go-shlex/shlex.go\<close>, which splits the \<open>command\<close> and \<open>entrypoint\<close>
  strings of a compose file.  Its state machine is modelled state by state, each \<open>case\<close> of
  \<open>scanStream\<close> being one function from the class of the next rune to what the loop does next.
  A rune is a byte: this is exact on ASCII, and elsewhere up to the number printed in an
  \<open>Unknown rune\<close> error (every rune beyond ASCII is of the unknown class).
\<close>

section \<open>Types and rune classes\<close>

datatype TokenType = TOKEN_UNKNOWN | TOKEN_WORD | TOKEN_SPACE | TOKEN_COMMENT

datatype RuneTokenType = RUNETOKEN_UNKNOWN | RUNETOKEN_CHAR | RUNETOKEN_SPACE
  | RUNETOKEN_ESCAPING_QUOTE | RUNETOKEN_NONESCAPING_QUOTE | RUNETOKEN_ESCAPE | RUNETOKEN_COMMENT
  | RUNETOKEN_EOF

datatype lexerState = STATE_START | STATE_INWORD | STATE_ESCAPING | STATE_ESCAPING_QUOTED
  | STATE_QUOTED_ESCAPING | STATE_QUOTED | STATE_COMMENT

record Token =
  tokenType :: TokenType
  tok_value :: string

definition Token_Equal :: "Token option \<Rightarrow> Token option \<Rightarrow> bool" where
  "Token_Equal a b = (case (a, b) of
     (Some x, Some y) \<Rightarrow> tokenType x = tokenType y \<and> tok_value x = tok_value y
   | _ \<Rightarrow> False)"

definition RUNE_CHAR :: string where
  "RUNE_CHAR = ''abcdefghijklmnopqrstuvwxyzABCDEFGHIJKLMNOPQRSTUVWXYZ0123456789._-,/@$*()+=><:;&^%~|!?[]{}''"

definition RUNE_SPACE :: string where
  "RUNE_SPACE = [CHR '' '', CHR 0x09, CHR 0x0D, CHR 0x0A]"

definition RUNE_ESCAPING_QUOTE :: string where "RUNE_ESCAPING_QUOTE = [CHR 0x22]"
definition RUNE_NONESCAPING_QUOTE :: string where "RUNE_NONESCAPING_QUOTE = [CHR 0x27]"
definition RUNE_ESCAPE :: string where "RUNE_ESCAPE = [CHR 0x5C]"
definition RUNE_COMMENT :: string where "RUNE_COMMENT = ''#''"

definition addRuneClass :: "(char \<rightharpoonup> RuneTokenType) \<Rightarrow> string \<Rightarrow> RuneTokenType \<Rightarrow> (char \<rightharpoonup> RuneTokenType)" where
  "addRuneClass typeMap runes tt = fold (\<lambda>r m. m(r \<mapsto> tt)) runes typeMap"

definition NewDefaultClassifier :: "char \<rightharpoonup> RuneTokenType" where
  "NewDefaultClassifier =
     addRuneClass (addRuneClass (addRuneClass (addRuneClass (addRuneClass
       (addRuneClass Map.empty RUNE_CHAR RUNETOKEN_CHAR)
       RUNE_SPACE RUNETOKEN_SPACE)
       RUNE_ESCAPING_QUOTE RUNETOKEN_ESCAPING_QUOTE)
       RUNE_NONESCAPING_QUOTE RUNETOKEN_NONESCAPING_QUOTE)
       RUNE_ESCAPE RUNETOKEN_ESCAPE)
       RUNE_COMMENT RUNETOKEN_COMMENT"

text \<open>A missing key of the Go map reads as the zero value, the unknown class.\<close>

definition ClassifyRune :: "char \<Rightarrow> RuneTokenType" where
  "ClassifyRune r = (case NewDefaultClassifier r of None \<Rightarrow> RUNETOKEN_UNKNOWN | Some t \<Rightarrow> t)"

section \<open>The scanner\<close>

datatype lex_error = IoEOF | LexErr string

text \<open>
  What one turn of the \<open>SCAN\<close> loop does: go on in a state, leave the loop with a token and an error
  (after unreading the rune, or not), or return with an error and no token.
\<close>

datatype scan_action =
    Scan lexerState TokenType string
  | BreakScan TokenType string "lex_error option" bool
  | ReturnErr lex_error

definition unknown_rune :: "string \<Rightarrow> char \<Rightarrow> scan_action" where
  "unknown_rune pre r = ReturnErr (LexErr (pre @ '' rune: '' @ show_nat (of_char r)))"

fun scan_start :: "RuneTokenType \<Rightarrow> char \<Rightarrow> TokenType \<Rightarrow> string \<Rightarrow> scan_action" where
  "scan_start RUNETOKEN_EOF r tt v = ReturnErr IoEOF"
| "scan_start RUNETOKEN_CHAR r tt v = Scan STATE_INWORD TOKEN_WORD (v @ [r])"
| "scan_start RUNETOKEN_SPACE r tt v = Scan STATE_START tt v"
| "scan_start RUNETOKEN_ESCAPING_QUOTE r tt v = Scan STATE_QUOTED_ESCAPING TOKEN_WORD v"
| "scan_start RUNETOKEN_NONESCAPING_QUOTE r tt v = Scan STATE_QUOTED TOKEN_WORD v"
| "scan_start RUNETOKEN_ESCAPE r tt v = Scan STATE_ESCAPING TOKEN_WORD v"
| "scan_start RUNETOKEN_COMMENT r tt v = Scan STATE_COMMENT TOKEN_COMMENT v"
| "scan_start RUNETOKEN_UNKNOWN r tt v = unknown_rune ''Unknown'' r"

fun scan_inword :: "RuneTokenType \<Rightarrow> char \<Rightarrow> TokenType \<Rightarrow> string \<Rightarrow> scan_action" where
  "scan_inword RUNETOKEN_EOF r tt v = BreakScan tt v None False"
| "scan_inword RUNETOKEN_CHAR r tt v = Scan STATE_INWORD tt (v @ [r])"
| "scan_inword RUNETOKEN_COMMENT r tt v = Scan STATE_INWORD tt (v @ [r])"
| "scan_inword RUNETOKEN_SPACE r tt v = BreakScan tt v None True"
| "scan_inword RUNETOKEN_ESCAPING_QUOTE r tt v = Scan STATE_QUOTED_ESCAPING tt v"
| "scan_inword RUNETOKEN_NONESCAPING_QUOTE r tt v = Scan STATE_QUOTED tt v"
| "scan_inword RUNETOKEN_ESCAPE r tt v = Scan STATE_ESCAPING tt v"
| "scan_inword RUNETOKEN_UNKNOWN r tt v = unknown_rune ''Uknown'' r"

text \<open>The rune after an escape character, outside and inside double quotes.\<close>

fun scan_escaping :: "RuneTokenType \<Rightarrow> char \<Rightarrow> TokenType \<Rightarrow> string \<Rightarrow> scan_action" where
  "scan_escaping RUNETOKEN_EOF r tt v =
     BreakScan tt v (Some (LexErr ''EOF found after escape character'')) False"
| "scan_escaping RUNETOKEN_UNKNOWN r tt v = unknown_rune ''Uknown'' r"
| "scan_escaping _ r tt v = Scan STATE_INWORD tt (v @ [r])"

fun scan_escaping_quoted :: "RuneTokenType \<Rightarrow> char \<Rightarrow> TokenType \<Rightarrow> string \<Rightarrow> scan_action" where
  "scan_escaping_quoted RUNETOKEN_EOF r tt v =
     BreakScan tt v (Some (LexErr ''EOF found after escape character'')) False"
| "scan_escaping_quoted RUNETOKEN_UNKNOWN r tt v = unknown_rune ''Uknown'' r"
| "scan_escaping_quoted _ r tt v = Scan STATE_QUOTED_ESCAPING tt (v @ [r])"

fun scan_quoted_escaping :: "RuneTokenType \<Rightarrow> char \<Rightarrow> TokenType \<Rightarrow> string \<Rightarrow> scan_action" where
  "scan_quoted_escaping RUNETOKEN_EOF r tt v =
     BreakScan tt v (Some (LexErr ''EOF found when expecting closing quote.'')) False"
| "scan_quoted_escaping RUNETOKEN_ESCAPING_QUOTE r tt v = Scan STATE_INWORD tt v"
| "scan_quoted_escaping RUNETOKEN_ESCAPE r tt v = Scan STATE_ESCAPING_QUOTED tt v"
| "scan_quoted_escaping _ r tt v = Scan STATE_QUOTED_ESCAPING tt (v @ [r])"

fun scan_quoted :: "RuneTokenType \<Rightarrow> char \<Rightarrow> TokenType \<Rightarrow> string \<Rightarrow> scan_action" where
  "scan_quoted RUNETOKEN_EOF r tt v =
     BreakScan tt v (Some (LexErr ''EOF found when expecting closing quote.'')) False"
| "scan_quoted RUNETOKEN_NONESCAPING_QUOTE r tt v = Scan STATE_INWORD tt v"
| "scan_quoted _ r tt v = Scan STATE_QUOTED tt (v @ [r])"

fun scan_comment :: "RuneTokenType \<Rightarrow> char \<Rightarrow> TokenType \<Rightarrow> string \<Rightarrow> scan_action" where
  "scan_comment RUNETOKEN_EOF r tt v = BreakScan tt v None False"
| "scan_comment RUNETOKEN_SPACE r tt v =
     (if r = CHR 0x0A then BreakScan tt v None False else Scan STATE_COMMENT tt (v @ [r]))"
| "scan_comment _ r tt v = Scan STATE_COMMENT tt (v @ [r])"

fun scan_switch :: "lexerState \<Rightarrow> RuneTokenType \<Rightarrow> char \<Rightarrow> TokenType \<Rightarrow> string \<Rightarrow> scan_action" where
  "scan_switch STATE_START = scan_start"
| "scan_switch STATE_INWORD = scan_inword"
| "scan_switch STATE_ESCAPING = scan_escaping"
| "scan_switch STATE_ESCAPING_QUOTED = scan_escaping_quoted"
| "scan_switch STATE_QUOTED_ESCAPING = scan_quoted_escaping"
| "scan_switch STATE_QUOTED = scan_quoted"
| "scan_switch STATE_COMMENT = scan_comment"

text \<open>
  The loop: a token or none, an error or none, and the input left.  At the end of the input every
  state leaves the loop (\<open>scan_switch_EOF\<close> below), so the first equation's last case is not taken.
\<close>

fun scan_loop :: "lexerState \<Rightarrow> TokenType \<Rightarrow> string \<Rightarrow> string \<Rightarrow>
    Token option \<times> lex_error option \<times> string" where
  "scan_loop st tt v [] =
     (case scan_switch st RUNETOKEN_EOF (CHR 0x00) tt v of
        ReturnErr e \<Rightarrow> (None, Some e, [])
      | BreakScan tt' v' e _ \<Rightarrow> (Some \<lparr>tokenType = tt', tok_value = v'\<rparr>, e, [])
      | Scan _ _ _ \<Rightarrow> (None, Some IoEOF, []))"
| "scan_loop st tt v (r # rs) =
     (case scan_switch st (ClassifyRune r) r tt v of
        ReturnErr e \<Rightarrow> (None, Some e, rs)
      | BreakScan tt' v' e unread \<Rightarrow>
          (Some \<lparr>tokenType = tt', tok_value = v'\<rparr>, e, if unread then r # rs else rs)
      | Scan st' tt' v' \<Rightarrow> scan_loop st' tt' v' rs)"

definition scanStream :: "string \<Rightarrow> Token option \<times> lex_error option \<times> string" where
  "scanStream input = scan_loop STATE_START TOKEN_UNKNOWN [] input"

definition NextToken :: "string \<Rightarrow> Token option \<times> lex_error option \<times> string" where
  "NextToken input = scanStream input"

lemma scan_switch_EOF: "scan_switch st RUNETOKEN_EOF r tt v \<noteq> Scan st' tt' v'"
  by (cases st) auto

text \<open>The scanner consumes input whenever it delivers a token.\<close>

lemma scan_loop_le: "scan_loop st tt v rs = (t, e, rest) \<Longrightarrow> length rest \<le> length rs"
proof (induction st tt v rs rule: scan_loop.induct)
  case (2 st tt v r rs)
  then show ?case
    by (cases "scan_switch st (ClassifyRune r) r tt v") (fastforce split: if_splits)+
qed (auto split: scan_action.splits)

lemma scan_switch_unread:
  "scan_switch st c r tt v = BreakScan tt' v' e True \<Longrightarrow> st = STATE_INWORD"
  by (cases st; cases c) (auto simp: unknown_rune_def split: if_splits)

lemma scanStream_less:
  assumes "scanStream input = (Some t, e, rest)"
  shows "length rest < length input"
proof -
  have "length rest < length input"
    if "scan_loop STATE_START tt v input = (Some t, e, rest)" for tt v
    using that
  proof (induction input arbitrary: tt v)
    case (Cons r rs)
    then show ?case
      by (cases "ClassifyRune r") (auto dest!: scan_loop_le simp: unknown_rune_def less_Suc_eq_le)
  qed simp
  with assms show ?thesis by (simp add: scanStream_def)
qed

text \<open>
  \<open>NextWord\<close> skips comments.  A token of another type is a panic; \<open>scanStream\<close> never returns one.
\<close>

function NextWord :: "string \<Rightarrow> (lex_error + string) option \<times> string" where
  "NextWord input = (case NextToken input of
     (t, Some e, rest) \<Rightarrow> (Some (Inl e), rest)
   | (None, None, rest) \<Rightarrow> (None, rest)
   | (Some t, None, rest) \<Rightarrow>
       (case tokenType t of
          TOKEN_WORD \<Rightarrow> (Some (Inr (tok_value t)), rest)
        | TOKEN_COMMENT \<Rightarrow> NextWord rest
        | _ \<Rightarrow> (None, rest)))"
  by pat_completeness auto
termination
  by (relation "measure length") (auto simp: NextToken_def dest!: scanStream_less [OF sym])

declare NextWord.simps [simp del]

text \<open>The words are delivered by a scan that consumed input, so \<open>Split\<close> stops.\<close>

lemma NextWord_less: "NextWord input = (Some (Inr w), rest) \<Longrightarrow> length rest < length input"
proof (induction input rule: NextWord.induct)
  case (1 input)
  obtain t e rest' where nt: "NextToken input = (t, e, rest')" by (metis prod.exhaust)
  from "1.prems" nt obtain tok where t: "t = Some tok" "e = None"
    by (subst (asm) NextWord.simps) (auto split: option.splits)
  then have less: "length rest' < length input"
    using nt scanStream_less by (simp add: NextToken_def)
  show ?case
  proof (cases "tokenType tok")
    case TOKEN_COMMENT
    then have "NextWord rest' = (Some (Inr w), rest)"
      using "1.prems" nt t by (subst (asm) NextWord.simps) simp
    with less "1.IH" [OF nt [symmetric]] t TOKEN_COMMENT show ?thesis by fastforce
  qed (use "1.prems" nt t less in \<open>auto simp: NextWord.simps [of input]\<close>)
qed

function shlex_Split_from :: "string list \<Rightarrow> string \<Rightarrow> string list \<times> unit go" where
  "shlex_Split_from subStrings input = (case NextWord input of
     (Some (Inl IoEOF), _) \<Rightarrow> (subStrings, Ok ())
   | (Some (Inl (LexErr e)), _) \<Rightarrow> (subStrings, Err e)
   | (Some (Inr w), rest) \<Rightarrow> shlex_Split_from (subStrings @ [w]) rest
   | (None, _) \<Rightarrow> (subStrings, Panic))"
  by pat_completeness auto
termination
  by (relation "measure (\<lambda>(_, input). length input)") (auto dest!: NextWord_less [OF sym])

declare shlex_Split_from.simps [simp del]

text \<open>
  \<open>Split\<close>: the words and the error.  Go returns the words found so far together with an error.
\<close>

definition shlex_Split :: "string \<Rightarrow> string list \<times> unit go" where
  "shlex_Split s = shlex_Split_from [] s"

section \<open>Rune classes\<close>

lemma addRuneClass_apply:
  "addRuneClass m rs t c = (if c \<in> set rs then Some t else m c)"
  unfolding addRuneClass_def by (induction rs arbitrary: m) auto

lemma ClassifyRune_eq:
  "ClassifyRune c =
     (if c \<in> set RUNE_COMMENT then RUNETOKEN_COMMENT
      else if c \<in> set RUNE_ESCAPE then RUNETOKEN_ESCAPE
      else if c \<in> set RUNE_NONESCAPING_QUOTE then RUNETOKEN_NONESCAPING_QUOTE
      else if c \<in> set RUNE_ESCAPING_QUOTE then RUNETOKEN_ESCAPING_QUOTE
      else if c \<in> set RUNE_SPACE then RUNETOKEN_SPACE
      else if c \<in> set RUNE_CHAR then RUNETOKEN_CHAR else RUNETOKEN_UNKNOWN)"
  by (simp add: ClassifyRune_def NewDefaultClassifier_def addRuneClass_apply)

lemma ClassifyRune_not_EOF: "ClassifyRune c \<noteq> RUNETOKEN_EOF"
  by (simp add: ClassifyRune_eq)

lemma ClassifyRune_special:
  "ClassifyRune CHR 0x22 = RUNETOKEN_ESCAPING_QUOTE"
  "ClassifyRune CHR 0x27 = RUNETOKEN_NONESCAPING_QUOTE"
  "ClassifyRune CHR 0x5C = RUNETOKEN_ESCAPE"
  "ClassifyRune CHR '' '' = RUNETOKEN_SPACE"
  by (simp_all add: ClassifyRune_eq RUNE_COMMENT_def RUNE_ESCAPE_def RUNE_NONESCAPING_QUOTE_def
      RUNE_ESCAPING_QUOTE_def RUNE_SPACE_def)

lemma ClassifyRune_only:
  "ClassifyRune c = RUNETOKEN_ESCAPING_QUOTE \<Longrightarrow> c = CHR 0x22"
  "ClassifyRune c = RUNETOKEN_NONESCAPING_QUOTE \<Longrightarrow> c = CHR 0x27"
  "ClassifyRune c = RUNETOKEN_ESCAPE \<Longrightarrow> c = CHR 0x5C"
  by (auto simp: ClassifyRune_eq RUNE_COMMENT_def RUNE_ESCAPE_def RUNE_NONESCAPING_QUOTE_def
      RUNE_ESCAPING_QUOTE_def split: if_splits)

section \<open>No panic\<close>

text \<open>Outside the start state the token type is already that of a word or a comment.\<close>

definition typed :: "lexerState \<Rightarrow> TokenType \<Rightarrow> bool" where
  "typed st tt \<longleftrightarrow> st = STATE_START \<or> tt = TOKEN_WORD \<or> tt = TOKEN_COMMENT"

lemma scan_switch_typed:
  "scan_switch st c r tt v = Scan st' tt' v' \<Longrightarrow> typed st tt \<Longrightarrow> typed st' tt'"
  "scan_switch st c r tt v = BreakScan tt' v' e u \<Longrightarrow> typed st tt \<Longrightarrow>
     tt' = TOKEN_WORD \<or> tt' = TOKEN_COMMENT"
  by (cases st; cases c; auto simp: typed_def unknown_rune_def split: if_splits)+

lemma scan_loop_typed:
  "typed st tt \<Longrightarrow> scan_loop st tt v rs = (Some t, e, rest) \<Longrightarrow>
     tokenType t = TOKEN_WORD \<or> tokenType t = TOKEN_COMMENT"
  by (induction st tt v rs rule: scan_loop.induct)
    (auto split: scan_action.splits dest: scan_switch_typed)

lemma scan_loop_error: "scan_loop st tt v rs = (None, e, rest) \<Longrightarrow> e \<noteq> None"
  by (induction st tt v rs rule: scan_loop.induct) (auto split: scan_action.splits)

lemma NextWord_not_None: "fst (NextWord input) \<noteq> None"
proof (induction input rule: NextWord.induct)
  case (1 input)
  obtain t e rest where nt: "NextToken input = (t, e, rest)" by (metis prod.exhaust)
  then have "scan_loop STATE_START TOKEN_UNKNOWN [] input = (t, e, rest)"
    by (simp add: NextToken_def scanStream_def)
  then have "t = None \<Longrightarrow> e \<noteq> None"
    and "\<And>tok. t = Some tok \<Longrightarrow> tokenType tok = TOKEN_WORD \<or> tokenType tok = TOKEN_COMMENT"
    using scan_loop_typed [of STATE_START TOKEN_UNKNOWN] scan_loop_error by (auto simp: typed_def)
  with nt "1.IH" [OF nt [symmetric]] show ?case
    by (subst NextWord.simps) (auto split: option.splits TokenType.splits)
qed

lemma shlex_Split_from_no_panic: "snd (shlex_Split_from ws input) \<noteq> Panic"
proof (induction ws input rule: shlex_Split_from.induct)
  case (1 ws input)
  obtain r rest where r: "NextWord input = (Some r, rest)"
    using NextWord_not_None [of input] by (metis option.exhaust prod.collapse)
  show ?case
  proof (cases r)
    case (Inl e)
    then show ?thesis using r by (subst shlex_Split_from.simps) (cases e; simp)
  next
    case (Inr w)
    then show ?thesis
      using r "1.IH" [OF r [symmetric] refl Inr] by (subst shlex_Split_from.simps) simp
  qed
qed

text \<open>
  splitting a command never panics. The lexer's two panics (an unknown token type in
  \<open>NextWord\<close>, an unexpected state in \<open>scanStream\<close>) are unreachable for every input string.
\<close>

theorem shlex_Split_no_panic: "snd (shlex_Split s) \<noteq> Panic"
  by (simp add: shlex_Split_def shlex_Split_from_no_panic)

section \<open>Quoting and splitting\<close>

text \<open>
  A text \<open>q\<close> renders a word when scanning it from the start state, in any context, leaves the lexer
  inside a word with exactly that value.
\<close>

definition renders :: "string \<Rightarrow> string \<Rightarrow> bool" where
  "renders q w \<longleftrightarrow> q \<noteq> [] \<and>
     (\<forall>tt rest. scan_loop STATE_START tt [] (q @ rest) = scan_loop STATE_INWORD TOKEN_WORD w rest)"

definition sp :: char where "sp = CHR '' ''"

lemma ClassifyRune_sp [simp]: "ClassifyRune sp = RUNETOKEN_SPACE"
  by (simp add: sp_def ClassifyRune_special)

lemma scan_inword_end:
  "scan_loop STATE_INWORD tt v [] = (Some \<lparr>tokenType = tt, tok_value = v\<rparr>, None, [])"
  "scan_loop STATE_INWORD tt v (sp # rest) = (Some \<lparr>tokenType = tt, tok_value = v\<rparr>, None, sp # rest)"
  by simp_all

lemma NextWord_renders:
  assumes "renders q w" "rest = [] \<or> (\<exists>r. rest = sp # r)"
  shows "NextWord (q @ rest) = (Some (Inr w), rest)"
  using assms
  by (subst NextWord.simps)
    (auto simp: NextToken_def scanStream_def renders_def)

lemma NextWord_nil: "NextWord [] = (Some (Inl IoEOF), [])"
  by (subst NextWord.simps) (simp add: NextToken_def scanStream_def)

lemma NextWord_space: "NextWord (sp # rest) = NextWord rest"
  by (simp add: NextWord.simps [of "sp # rest"] NextWord.simps [of rest] NextToken_def
      scanStream_def)

lemma shlex_Split_from_space: "shlex_Split_from acc (sp # r) = shlex_Split_from acc r"
  by (simp add: shlex_Split_from.simps [of acc "sp # r"] shlex_Split_from.simps [of acc r] NextWord_space)

lemma Split_renders:
  "list_all2 renders qs ws \<Longrightarrow> shlex_Split_from acc (join [sp] qs) = (acc @ ws, Ok ())"
proof (induction qs arbitrary: ws acc rule: induct_list012)
  case 1
  then show ?case by (subst shlex_Split_from.simps) (simp add: NextWord_nil)
next
  case (2 q)
  then obtain w where w: "ws = [w]" "renders q w" by (auto simp: list_all2_Cons1)
  have nil: "shlex_Split_from (acc @ [w]) [] = (acc @ [w], Ok ())"
    by (subst shlex_Split_from.simps) (simp add: NextWord_nil)
  from w show ?case
    using NextWord_renders [of q w "[]"] nil by (subst shlex_Split_from.simps) simp
next
  case (3 q q' qs)
  then obtain w ws' where w: "ws = w # ws'" "renders q w" "list_all2 renders (q' # qs) ws'"
    by (auto simp: list_all2_Cons1)
  let ?r = "join [sp] (q' # qs)"
  have "shlex_Split_from acc (join [sp] (q # q' # qs)) = shlex_Split_from (acc @ [w]) (sp # ?r)"
    using NextWord_renders [OF w(2), of "sp # ?r"] by (subst shlex_Split_from.simps) simp
  also have "\<dots> = shlex_Split_from (acc @ [w]) ?r"
    by (rule shlex_Split_from_space)
  finally show ?case using "3.IH"(2) [OF w(3)] w(1) by simp
qed

text \<open>Double quotes, with the quote and the backslash escaped, render every string.\<close>

definition dq_escape :: "char \<Rightarrow> string" where
  "dq_escape c = (if c = CHR 0x22 \<or> c = CHR 0x5C then [CHR 0x5C, c] else [c])"

definition dq_quote :: "string \<Rightarrow> string" where
  "dq_quote w = CHR 0x22 # concat (map dq_escape w) @ [CHR 0x22]"

lemma scan_dq_char:
  "scan_loop STATE_QUOTED_ESCAPING tt v (dq_escape c @ rest)
     = scan_loop STATE_QUOTED_ESCAPING tt (v @ [c]) rest"
proof (cases "c = CHR 0x22 \<or> c = CHR 0x5C")
  case True
  then show ?thesis by (auto simp: dq_escape_def ClassifyRune_special)
next
  case False
  then show ?thesis
    using ClassifyRune_only [of c] ClassifyRune_not_EOF [of c]
    by (cases "ClassifyRune c") (auto simp: dq_escape_def)
qed

lemma scan_dq:
  "scan_loop STATE_QUOTED_ESCAPING tt v (concat (map dq_escape w) @ CHR 0x22 # rest)
     = scan_loop STATE_INWORD tt (v @ w) rest"
  by (induction w arbitrary: v) (simp_all add: scan_dq_char ClassifyRune_special)

lemma renders_dq: "renders (dq_quote w) w"
  by (simp add: renders_def dq_quote_def ClassifyRune_special scan_dq)

text \<open>Single quotes render every string without a single quote, a bare word itself.\<close>

definition sq_quote :: "string \<Rightarrow> string" where
  "sq_quote w = CHR 0x27 # w @ [CHR 0x27]"

lemma scan_sq:
  "CHR 0x27 \<notin> set w \<Longrightarrow> scan_loop STATE_QUOTED tt v (w @ CHR 0x27 # rest)
     = scan_loop STATE_INWORD tt (v @ w) rest"
proof (induction w arbitrary: v)
  case (Cons c w)
  then show ?case
    using ClassifyRune_only(2) [of c] ClassifyRune_not_EOF [of c]
    by (cases "ClassifyRune c") auto
qed (simp add: ClassifyRune_special)

lemma renders_sq: "CHR 0x27 \<notin> set w \<Longrightarrow> renders (sq_quote w) w"
  by (simp add: renders_def sq_quote_def ClassifyRune_special scan_sq)

definition bare_word :: "string \<Rightarrow> bool" where
  "bare_word w \<longleftrightarrow> w \<noteq> [] \<and> (\<forall>c \<in> set w. ClassifyRune c = RUNETOKEN_CHAR)"

lemma scan_bare:
  "\<forall>c \<in> set w. ClassifyRune c = RUNETOKEN_CHAR \<Longrightarrow>
     scan_loop STATE_INWORD tt v (w @ rest) = scan_loop STATE_INWORD tt (v @ w) rest"
  by (induction w arbitrary: v) auto

lemma renders_bare: "bare_word w \<Longrightarrow> renders w w"
  by (cases w) (auto simp: renders_def bare_word_def scan_bare)


text \<open>
  a command whose words are bare (letters, digits and the punctuation of \<open>RUNE_CHAR\<close>) and
  separated by single spaces is split at the spaces.
\<close>

theorem shlex_Split_bare_words:
  assumes "\<forall>w \<in> set ws. bare_word w"
  shows "shlex_Split (join [sp] ws) = (ws, Ok ())"
  unfolding shlex_Split_def
  by (subst Split_renders [of _ ws]) (use assms in \<open>auto intro!: list_all2_refl renders_bare simp: list_all2_same\<close>)

theorem shlex_Split_bare_words_witness:
  "shlex_Split ''bundle exec thin'' = ([''bundle'', ''exec'', ''thin''], Ok ())"
  using shlex_Split_bare_words [of "[''bundle'', ''exec'', ''thin'']"]
  by (simp add: bare_word_def sp_def ClassifyRune_eq RUNE_COMMENT_def RUNE_ESCAPE_def
      RUNE_NONESCAPING_QUOTE_def RUNE_ESCAPING_QUOTE_def RUNE_SPACE_def RUNE_CHAR_def)

end
