(* ===== verification/Go_World.thy ===== *)
theory Go_World
  imports Go_Prelude
begin

text \<open>
  Go calls that talk to the world (an HTTP server, the Rancher API): functions from the state of the
  world to a result and the state after, with the rules for sequencing them.
\<close>

type_synonym ('w, 'a) act = "'w \<Rightarrow> 'a go \<times> 'w"

definition act_return :: "'a \<Rightarrow> ('w, 'a) act" where
  "act_return a w = (Ok a, w)"

definition act_fail :: "string \<Rightarrow> ('w, 'a) act" where
  "act_fail e w = (Err e, w)"

definition act_lift :: "'a go \<Rightarrow> ('w, 'a) act" where
  "act_lift r w = (r, w)"

definition act_bind :: "('w, 'a) act \<Rightarrow> ('a \<Rightarrow> ('w, 'b) act) \<Rightarrow> ('w, 'b) act" where
  "act_bind m f w = (case m w of
     (Ok a, w') \<Rightarrow> f a w' | (Err e, w') \<Rightarrow> (Err e, w') | (Panic, w') \<Rightarrow> (Panic, w'))"

text \<open>A call whose error is looked at, or dropped.\<close>

definition act_try :: "('w, 'a) act \<Rightarrow> ('w, 'a go) act" where
  "act_try m w = (case m w of (Panic, w') \<Rightarrow> (Panic, w') | (r, w') \<Rightarrow> (Ok r, w'))"

definition act_ignore :: "('w, 'a) act \<Rightarrow> ('w, unit) act" where
  "act_ignore m = act_bind (act_try m) (\<lambda>_. act_return ())"

fun act_map :: "('a \<Rightarrow> ('w, 'b) act) \<Rightarrow> 'a list \<Rightarrow> ('w, 'b list) act" where
  "act_map f [] = act_return []"
| "act_map f (x # xs) = act_bind (f x) (\<lambda>y. act_bind (act_map f xs) (\<lambda>ys. act_return (y # ys)))"

fun act_each :: "('a \<Rightarrow> ('w, unit) act) \<Rightarrow> 'a list \<Rightarrow> ('w, unit) act" where
  "act_each f [] = act_return ()"
| "act_each f (x # xs) = act_bind (f x) (\<lambda>_. act_each f xs)"

lemma act_simps [simp]:
  "act_bind (act_return a) f = f a" "act_bind (act_fail e) f = act_fail e"
  "act_bind (act_lift (Ok a)) f = f a" "act_bind (act_lift (Err e)) f = act_fail e"
  "act_try (act_return a) = act_return (Ok a)" "act_try (act_fail e) = act_return (Err e)"
  "act_ignore (act_return a) = act_return ()" "act_ignore (act_fail e) = act_return ()"
  by (auto simp: act_bind_def act_return_def act_fail_def act_lift_def act_try_def act_ignore_def)

lemma act_bind_run:
  "m w = (Ok a, w') \<Longrightarrow> act_bind m f w = f a w'"
  "m w = (Err e, w') \<Longrightarrow> act_bind m f w = (Err e, w')"
  "m w = (Panic, w') \<Longrightarrow> act_bind m f w = (Panic, w')"
  by (simp_all add: act_bind_def)

lemma act_bind_assoc: "act_bind (act_bind m f) g = act_bind m (\<lambda>a. act_bind (f a) g)"
  by (auto simp: act_bind_def fun_eq_iff split: go.splits prod.splits)

lemma act_bind_Ok_iff:
  "act_bind m f w = (Ok b, w') \<longleftrightarrow> (\<exists>a v. m w = (Ok a, v) \<and> f a v = (Ok b, w'))"
  by (auto simp: act_bind_def split: go.splits prod.splits)

lemma act_run [simp]:
  "act_return a w = (Ok a, w)" "act_fail e w = (Err e, w)" "act_lift r w = (r, w)"
  by (simp_all add: act_return_def act_fail_def act_lift_def)

text \<open>
  A reflexive and transitive relation between the worlds before and after that every primitive call
  keeps holds of every composition.
\<close>

definition keeps :: "('w \<Rightarrow> 'w \<Rightarrow> bool) \<Rightarrow> ('w, 'a) act \<Rightarrow> bool" where
  "keeps R m \<longleftrightarrow> (\<forall>w. R w (snd (m w)))"

named_theorems keeps_intro

lemma keeps_return [keeps_intro]: "reflp R \<Longrightarrow> keeps R (act_return a)"
  by (simp add: keeps_def reflpD)

lemma keeps_fail [keeps_intro]: "reflp R \<Longrightarrow> keeps R (act_fail e)"
  by (simp add: keeps_def reflpD)

lemma keeps_lift [keeps_intro]: "reflp R \<Longrightarrow> keeps R (act_lift r)"
  by (simp add: keeps_def reflpD)

lemma keeps_bind [keeps_intro]:
  assumes "reflp R" "transp R" "keeps R m" "\<And>a. keeps R (f a)"
  shows "keeps R (act_bind m f)"
  unfolding keeps_def
proof
  fix w
  have "R w (snd (m w))" using assms(3) by (simp add: keeps_def)
  then show "R w (snd (act_bind m f w))"
    using assms(4) transpD [OF assms(2), of w "snd (m w)"]
    by (cases "m w"; cases "fst (m w)") (auto simp: act_bind_def keeps_def)
qed

lemma keeps_try [keeps_intro]: "keeps R m \<Longrightarrow> keeps R (act_try m)"
  unfolding keeps_def
proof
  fix w assume "\<forall>w. R w (snd (m w))"
  then show "R w (snd (act_try m w))"
    by (cases "m w"; cases "fst (m w)") (auto simp: act_try_def split: go.splits, (metis snd_conv)+)
qed

lemma keeps_ignore [keeps_intro]: "reflp R \<Longrightarrow> transp R \<Longrightarrow> keeps R m \<Longrightarrow> keeps R (act_ignore m)"
  unfolding act_ignore_def by (intro keeps_intro)

section \<open>Calls that may not return\<close>

text \<open>A call with a polling loop: \<open>None\<close> when it never returns.\<close>

type_synonym ('w, 'a) proc = "'w \<Rightarrow> ('a go \<times> 'w) option"

definition proc_act :: "('w, 'a) act \<Rightarrow> ('w, 'a) proc" where
  "proc_act m w = Some (m w)"

definition proc_return :: "'a \<Rightarrow> ('w, 'a) proc" where
  "proc_return a w = Some (Ok a, w)"

definition proc_fail :: "string \<Rightarrow> ('w, 'a) proc" where
  "proc_fail e w = Some (Err e, w)"

definition proc_panic :: "('w, 'a) proc" where
  "proc_panic w = Some (Panic, w)"

definition proc_bind :: "('w, 'a) proc \<Rightarrow> ('a \<Rightarrow> ('w, 'b) proc) \<Rightarrow> ('w, 'b) proc" where
  "proc_bind m f w = (case m w of
     None \<Rightarrow> None
   | Some (Ok a, w') \<Rightarrow> f a w'
   | Some (Err e, w') \<Rightarrow> Some (Err e, w')
   | Some (Panic, w') \<Rightarrow> Some (Panic, w'))"

fun proc_each :: "('a \<Rightarrow> ('w, unit) proc) \<Rightarrow> 'a list \<Rightarrow> ('w, unit) proc" where
  "proc_each f [] = proc_return ()"
| "proc_each f (x # xs) = proc_bind (f x) (\<lambda>_. proc_each f xs)"

text \<open>A call whose error is dropped.\<close>

definition proc_ignore :: "('w, 'a) proc \<Rightarrow> ('w, unit) proc" where
  "proc_ignore m w = (case m w of
     None \<Rightarrow> None
   | Some (Panic, w') \<Rightarrow> Some (Panic, w')
   | Some (r, w') \<Rightarrow> Some (Ok (), w'))"

lemma proc_simps [simp]:
  "proc_bind (proc_return a) f = f a" "proc_bind (proc_fail e) f = proc_fail e" "proc_bind proc_panic f = proc_panic"
  by (auto simp: proc_bind_def proc_return_def proc_fail_def proc_panic_def)

lemma proc_run [simp]:
  "proc_act m w = Some (m w)" "proc_return a w = Some (Ok a, w)" "proc_fail e w = Some (Err e, w)"
  "proc_panic w = Some (Panic, w)"
  by (simp_all add: proc_act_def proc_return_def proc_fail_def proc_panic_def)

lemma proc_bind_run:
  "m w = Some (Ok a, w') \<Longrightarrow> proc_bind m f w = f a w'"
  "m w = Some (Err e, w') \<Longrightarrow> proc_bind m f w = Some (Err e, w')"
  "m w = Some (Panic, w') \<Longrightarrow> proc_bind m f w = Some (Panic, w')"
  "m w = None \<Longrightarrow> proc_bind m f w = None"
  by (simp_all add: proc_bind_def)

lemma proc_bind_cases [consumes 1, case_names Done Stop]:
  assumes "proc_bind m f w = Some (r, w')"
  obtains a v where "m w = Some (Ok a, v)" "f a v = Some (r, w')"
    | q where "m w = Some (q, w')" "\<And>a. q \<noteq> Ok a" "\<And>a. r \<noteq> Ok a" "r = Panic \<longleftrightarrow> q = Panic"
  using assms by (auto simp: proc_bind_def split: option.splits prod.splits go.splits)

definition proc_keeps :: "('w \<Rightarrow> 'w \<Rightarrow> bool) \<Rightarrow> ('w, 'a) proc \<Rightarrow> bool" where
  "proc_keeps R m \<longleftrightarrow> (\<forall>w r w'. m w = Some (r, w') \<longrightarrow> R w w')"

lemma proc_keeps_act [keeps_intro]: "keeps R m \<Longrightarrow> proc_keeps R (proc_act m)"
  by (auto simp: proc_keeps_def keeps_def) (metis snd_conv)

lemma proc_keeps_basic [keeps_intro]:
  "reflp R \<Longrightarrow> proc_keeps R (proc_return a)" "reflp R \<Longrightarrow> proc_keeps R (proc_fail e)"
  "reflp R \<Longrightarrow> proc_keeps R proc_panic"
  by (auto simp: proc_keeps_def reflpD)

lemma proc_keeps_bind [keeps_intro]:
  assumes "reflp R" "transp R" "proc_keeps R m" "\<And>a. proc_keeps R (f a)"
  shows "proc_keeps R (proc_bind m f)"
  unfolding proc_keeps_def
proof (intro allI impI)
  fix w r w' assume "proc_bind m f w = Some (r, w')"
  then show "R w w'"
    using assms(3,4) transpD [OF assms(2)]
    by (cases rule: proc_bind_cases) (auto simp: proc_keeps_def, blast)
qed

lemma proc_keeps_each [keeps_intro]:
  "reflp R \<Longrightarrow> transp R \<Longrightarrow> (\<And>x. proc_keeps R (f x)) \<Longrightarrow> proc_keeps R (proc_each f xs)"
  by (induction xs) (auto intro: keeps_intro)

lemma proc_keeps_ignore [keeps_intro]: "proc_keeps R m \<Longrightarrow> proc_keeps R (proc_ignore m)"
  unfolding proc_keeps_def proc_ignore_def by (auto split: option.splits prod.splits go.splits)

lemma keeps_map [keeps_intro]:
  "reflp R \<Longrightarrow> transp R \<Longrightarrow> (\<And>x. keeps R (f x)) \<Longrightarrow> keeps R (act_map f xs)"
  by (induction xs) (auto intro!: keeps_intro)

lemma keeps_each [keeps_intro]:
  "reflp R \<Longrightarrow> transp R \<Longrightarrow> (\<And>x. keeps R (f x)) \<Longrightarrow> keeps R (act_each f xs)"
  by (induction xs) (auto intro!: keeps_intro)

end
