(* ===== verification/Go_Parallel.thy ===== *)
theory Go_Parallel
  imports Go_World
begin

text \<open>
  Tasks that run side by side: a task is the tree of the steps it takes, each of which reads and changes the
  world; \<open>InParallel\<close> of \<open>libcompose/utils/util.go\<close> runs tasks in goroutines, in any interleaving of their steps.
\<close>

section \<open>Tasks\<close>

datatype ('w, 'a) prog = Done "'a go" | Step "'w \<Rightarrow> ('w, 'a) prog \<times> 'w"

text \<open>One atomic call.\<close>

definition prog_call :: "('w, 'a) act \<Rightarrow> ('w, 'a) prog" where
  "prog_call m = Step (\<lambda>w. case m w of (r, w') \<Rightarrow> (Done r, w'))"

primrec prog_bind :: "('w, 'a) prog \<Rightarrow> ('a \<Rightarrow> ('w, 'b) prog) \<Rightarrow> ('w, 'b) prog" where
  "prog_bind (Done r) f = (case r of Ok a \<Rightarrow> f a | Err e \<Rightarrow> Done (Err e) | Panic \<Rightarrow> Done Panic)"
| "prog_bind (Step k) f = Step (\<lambda>w. map_prod (\<lambda>p. prog_bind p f) id (k w))"

abbreviation prog_return :: "'a \<Rightarrow> ('w, 'a) prog" where
  "prog_return a \<equiv> Done (Ok a)"

abbreviation prog_fail :: "string \<Rightarrow> ('w, 'a) prog" where
  "prog_fail e \<equiv> Done (Err e)"

text \<open>Looking at the error of a task.\<close>

primrec prog_try :: "('w, 'a) prog \<Rightarrow> ('w, 'a go) prog" where
  "prog_try (Done r) = Done (case r of Panic \<Rightarrow> Panic | r \<Rightarrow> Ok r)"
| "prog_try (Step k) = Step (\<lambda>w. map_prod prog_try id (k w))"

text \<open>A task that runs on its own.\<close>

primrec exec :: "('w, 'a) prog \<Rightarrow> ('w, 'a) act" where
  "exec (Done r) = (\<lambda>w. (r, w))"
| "exec (Step k) = (\<lambda>w. let (f, w') = map_prod exec id (k w) in f w')"

lemma exec_call [simp]: "exec (prog_call m) w = m w"
  by (simp add: prog_call_def split: prod.split)

lemma exec_bind [simp]: "exec (prog_bind p f) = act_bind (exec p) (\<lambda>a. exec (f a))"
proof (induction p)
  case (Done r)
  then show ?case by (cases r) (auto simp: act_bind_def fun_eq_iff)
next
  case (Step k)
  show ?case
  proof
    fix w
    obtain p w' where k: "k w = (p, w')" by fastforce
    with Step have "exec (prog_bind p f) = act_bind (exec p) (\<lambda>a. exec (f a))" by (metis fst_conv fsts.intros rangeI)
    with k show "exec (prog_bind (Step k) f) w = act_bind (exec (Step k)) (\<lambda>a. exec (f a)) w"
      by (simp add: act_bind_def)
  qed
qed

fun prog_each :: "('a \<Rightarrow> ('w, unit) prog) \<Rightarrow> 'a list \<Rightarrow> ('w, unit) prog" where
  "prog_each f [] = prog_return ()"
| "prog_each f (x # xs) = prog_bind (f x) (\<lambda>_. prog_each f xs)"

section \<open>Relations that a task keeps\<close>

text \<open>Every step keeps the relation, in whatever world it is taken.\<close>

inductive prog_keeps :: "('w \<Rightarrow> 'w \<Rightarrow> bool) \<Rightarrow> ('w, 'a) prog \<Rightarrow> bool" for R where
  Done: "prog_keeps R (Done r)"
| Step: "(\<And>w. R w (snd (k w)) \<and> prog_keeps R (fst (k w))) \<Longrightarrow> prog_keeps R (Step k)"

inductive_cases prog_keeps_StepE: "prog_keeps R (Step k)"

named_theorems task_intro

lemma keeps_Done [task_intro]: "prog_keeps R (Done r)"
  by (rule prog_keeps.Done)

lemma keeps_call: "keeps R m \<Longrightarrow> prog_keeps R (prog_call m)"
  unfolding prog_call_def keeps_def by (rule prog_keeps.Step) (auto split: prod.split intro: prog_keeps.Done, metis snd_conv)

lemma keeps_prog_bind [task_intro]:
  assumes "prog_keeps R p" "\<And>a. prog_keeps R (f a)"
  shows "prog_keeps R (prog_bind p f)"
  using assms(1)
proof (induction rule: prog_keeps.induct)
  case (Done r)
  then show ?case using assms(2) by (cases r) (auto intro: prog_keeps.Done)
next
  case (Step k)
  then show ?case by (auto intro!: prog_keeps.Step)
qed

lemma keeps_prog_try [task_intro]: "prog_keeps R p \<Longrightarrow> prog_keeps R (prog_try p)"
  by (induction rule: prog_keeps.induct) (auto intro!: prog_keeps.intros)

lemma keeps_prog_each [task_intro]: "(\<And>x. prog_keeps R (f x)) \<Longrightarrow> prog_keeps R (prog_each f xs)"
  by (induction xs) (auto intro: task_intro)

lemma keeps_exec:
  assumes "prog_keeps R p" "reflp R" "transp R"
  shows "R w (snd (exec p w))"
  using assms(1)
proof (induction arbitrary: w rule: prog_keeps.induct)
  case (Done r)
  then show ?case using assms(2) by (simp add: reflpD)
next
  case (Step k)
  obtain p w' where k: "k w = (p, w')" by fastforce
  with Step [of w] have "R w w'" "R w' (snd (exec p w'))" by simp_all
  with k show ?case using transpD [OF assms(3)] by simp
qed

section \<open>Interleaving\<close>

text \<open>One of the tasks takes a step.\<close>

inductive par_step :: "('w, 'a) prog list \<times> 'w \<Rightarrow> ('w, 'a) prog list \<times> 'w \<Rightarrow> bool" where
  "i < length ps \<Longrightarrow> ps ! i = Step k \<Longrightarrow> k w = (p, w') \<Longrightarrow> par_step (ps, w) (ps[i := p], w')"

inductive_cases par_stepE: "par_step (ps, w) c"

text \<open>
  What \<open>Wait\<close> returns.  A task that fails puts its error into a \<open>sync.Pool\<close>, from which one item is taken when all are done: any
  of the errors, or none when the pool dropped what it held, as its documentation allows at any time.  A
  task that panics ends the process.
\<close>

inductive InParallel :: "('w, unit) prog list \<Rightarrow> 'w \<Rightarrow> unit go \<Rightarrow> 'w \<Rightarrow> bool" where
  crash: "Done Panic \<in> set ps \<Longrightarrow> InParallel ps w Panic w"
| step: "par_step (ps, w) (ps', w') \<Longrightarrow> InParallel ps' w' r w'' \<Longrightarrow> InParallel ps w r w''"
| none: "\<forall>p \<in> set ps. \<exists>r. p = Done r \<and> r \<noteq> Panic \<Longrightarrow> InParallel ps w (Ok ()) w"
| error: "\<forall>p \<in> set ps. \<exists>r. p = Done r \<and> r \<noteq> Panic \<Longrightarrow> Done (Err e) \<in> set ps \<Longrightarrow> InParallel ps w (Err e) w"

section \<open>Laws\<close>

lemma keeps_par_step:
  assumes "par_step (ps, w) (ps', w')" "\<forall>p \<in> set ps. prog_keeps R p"
  shows "R w w' \<and> (\<forall>p \<in> set ps'. prog_keeps R p)"
  using assms(1)
proof (cases rule: par_step.cases)
  case (1 i k p)
  then have "prog_keeps R (Step k)" using assms(2) by (metis nth_mem)
  then have "R w (snd (k w)) \<and> prog_keeps R (fst (k w))" by (rule prog_keeps_StepE) simp
  moreover from 1 have "set ps' \<subseteq> insert p (set ps)" by (simp add: set_update_subset_insert)
  ultimately show ?thesis using 1 assms(2) by auto
qed

lemma keeps_parallel:
  assumes "reflp R" "transp R" "InParallel ps w r w'" "\<forall>p \<in> set ps. prog_keeps R p"
  shows "R w w'"
  using assms(3,4)
proof (induction rule: InParallel.induct)
  case (step ps w ps' w' r v)
  with keeps_par_step [OF step.hyps(1) step.prems] have "R w w'" "R w' v" by auto
  then show ?case by (rule transpD [OF assms(2)])
qed (use assms(1) in \<open>auto dest: reflpD\<close>)

text \<open>The values a task may end with.\<close>

inductive may_end :: "'a go \<Rightarrow> ('w, 'a) prog \<Rightarrow> bool" where
  "may_end r (Done r)"
| "may_end r (fst (k w)) \<Longrightarrow> may_end r (Step k)"

inductive_simps may_end_Done [simp]: "may_end r (Done q)"
inductive_simps may_end_Step: "may_end r (Step k)"

lemma may_end_call: "may_end r (prog_call m) \<longleftrightarrow> (\<exists>w. fst (m w) = r)"
proof -
  have "fst (case m w of (r, w') \<Rightarrow> (Done r, w')) = (Done (fst (m w)) :: ('b, 'a) prog)" for w by (simp split: prod.split)
  then show ?thesis unfolding prog_call_def may_end_Step by auto
qed

lemma may_end_par_step:
  assumes "par_step (ps, w) (ps', w')" "p \<in> set ps'" "may_end r p"
  shows "\<exists>p \<in> set ps. may_end r p"
  using assms(1)
proof (cases rule: par_step.cases)
  case (1 i k q)
  have "set ps' \<subseteq> insert q (set ps)" using 1 by (simp add: set_update_subset_insert)
  moreover have "may_end r (Step k)" if "may_end r q" using may_end.intros(2) [of r k w] that 1 by simp
  ultimately show ?thesis using assms(2,3) 1 by (metis insertE nth_mem subsetD)
qed

lemma parallel_error:
  "InParallel ps w q w' \<Longrightarrow> q = Err e \<Longrightarrow> \<exists>p \<in> set ps. may_end (Err e) p"
proof (induction rule: InParallel.induct)
  case (step ps w ps' w' r v)
  then obtain p where "p \<in> set ps'" "may_end (Err e) p" by blast
  then show ?case by (rule may_end_par_step [OF step.hyps(1)])
qed (auto intro: bexI [of _ "Done (Err e)"])

text \<open>A step goes down the tree of one task.\<close>

definition next_prog :: "(('w, 'a) prog \<times> ('w, 'a) prog) set" where
  "next_prog = {(fst (k w), Step k) | k w. True}"

lemma wf_next_prog: "wf (next_prog :: (('w, 'a) prog \<times> ('w, 'a) prog) set)"
proof (rule wfUNIVI)
  fix P :: "('w, 'a) prog \<Rightarrow> bool" and p
  assume step: "\<forall>p. (\<forall>q. (q, p) \<in> next_prog \<longrightarrow> P q) \<longrightarrow> P p"
  show "P p"
  proof (induction p)
    case (Done r)
    show ?case using step by (auto simp: next_prog_def)
  next
    case (Step k)
    then have "P (fst (k w))" for w by (metis fsts.intros rangeI prod.collapse)
    then show ?case using step [rule_format, of "Step k"] by (auto simp: next_prog_def)
  qed
qed

lemma par_step_listrel1:
  assumes "par_step c c'"
  shows "(fst c', fst c) \<in> listrel1 next_prog"
proof -
  obtain i ps k w where i: "i < length ps" "ps ! i = Step k" "fst c = ps" "fst c' = ps[i := fst (k w)]"
    using assms by cases (metis fst_conv)
  have "fst c = (fst c')[i := Step k]" using i by (simp flip: i(2))
  moreover have "(fst (k w), Step k) \<in> next_prog" by (auto simp: next_prog_def)
  ultimately show ?thesis unfolding listrel1_iff_update using i by force
qed

lemma wf_par_step: "wf {(c', c). par_step c c'}"
  by (rule wf_subset [OF wf_inv_image [OF wf_listrel1_iff [THEN iffD2, OF wf_next_prog], of fst]])
    (auto dest: par_step_listrel1)

lemma parallel_ends: "\<exists>r w'. InParallel ps w r w'"
proof -
  have "\<exists>r w'. InParallel (fst c) (snd c) r w'" for c :: "('a, unit) prog list \<times> 'a"
  proof (induction c rule: wf_induct_rule [OF wf_par_step])
    case (1 c)
    obtain ps w where c: "c = (ps, w)" by fastforce
    show ?case
    proof (cases "\<exists>k. Step k \<in> set ps")
      case True
      then obtain i k where "i < length ps" "ps ! i = Step k" by (auto simp: in_set_conv_nth)
      then have step: "par_step (ps, w) (ps[i := fst (k w)], snd (k w))" by (intro par_step.intros) auto
      with 1 c show ?thesis by (fastforce intro: InParallel.step)
    next
      case False
      then have "\<exists>r. p = Done r" if "p \<in> set ps" for p using that by (cases p) auto
      then show ?thesis using c InParallel.crash InParallel.none by (metis fst_conv)
    qed
  qed
  from this [of "(ps, w)"] show ?thesis by simp
qed

section \<open>Properties\<close>


text \<open>The error of the only task may be dropped.\<close>

lemma InParallel_loses_error: "InParallel [Done (Err e)] w (Ok ()) w"
  by (rule InParallel.none) simp

end
