(* ===== verification/Docker_Nat.thy ===== *)
theory Docker_Nat
  imports Go_Prelude "HOL-Library.Word"
begin

text \<open>
  Port specifications, \<open>docker/pkg/nat/nat.go\<close> over \<open>docker/pkg/parsers/parsers.go\<close>: the numbers are the 64-bit
  words of the code, and the differences and sums of the ranges wrap as they do there.
\<close>

section \<open>Numbers\<close>

text \<open>
  \<open>strconv.ParseUint(s, 10, bits)\<close> returns a number beside its error: 0 for a text that is no number, the largest
  number for one that is out of range.  It goes digit by digit and is out of range as soon as the value is.
\<close>

definition ParseUint_error :: "string \<Rightarrow> string \<Rightarrow> string" where
  "ParseUint_error s why = ''strconv.ParseUint: parsing '' @ [CHR 0x22] @ s @ [CHR 0x22] @ '': '' @ why"

fun uint_loop :: "string \<Rightarrow> nat \<Rightarrow> nat \<Rightarrow> string \<Rightarrow> nat \<times> string option" where
  "uint_loop s m n [] = (n, None)"
| "uint_loop s m n (c # cs) =
     (let n' = n * 10 + ((of_char c :: nat) - 48)
      in if \<not> is_digit c then (0, Some (ParseUint_error s ''invalid syntax''))
         else if n' > m then (m, Some (ParseUint_error s ''value out of range''))
         else uint_loop s m n' cs)"

definition ParseUint :: "nat \<Rightarrow> string \<Rightarrow> 64 word \<times> string option" where
  "ParseUint bits s =
     (if s = [] then (0, Some (ParseUint_error s ''invalid syntax''))
      else (case uint_loop s (2 ^ bits - 1) 0 s of (n, err) \<Rightarrow> (of_nat n, err)))"

text \<open>The same where the error is checked.\<close>

definition ParseUint_go :: "nat \<Rightarrow> string \<Rightarrow> 64 word go" where
  "ParseUint_go bits s = (case ParseUint bits s of (w, None) \<Rightarrow> Ok w | (_, Some e) \<Rightarrow> Err e)"

text \<open>\<open>strconv.FormatUint(w, 10)\<close>.\<close>

definition FormatUint :: "64 word \<Rightarrow> string" where
  "FormatUint w = show_nat (unat w)"

section \<open>Parsers\<close>

definition ParsePortRange :: "string \<Rightarrow> (64 word \<times> 64 word) go" where
  "ParsePortRange ports =
     (if ports = [] then Err ''Empty string specified for ports.''
      else if CHR ''-'' \<notin> set ports then go_bind (ParseUint_go 16 ports) (\<lambda>start. Ok (start, start))
      else (case split_on (CHR ''-'') ports of
          p # q # _ \<Rightarrow>
            go_bind (ParseUint_go 16 p) (\<lambda>start.
            go_bind (ParseUint_go 16 q) (\<lambda>end'.
              if end' < start then Err (''Invalid range specified for the Port: '' @ ports) else Ok (start, end')))
        | _ \<Rightarrow> Panic))"

definition PartParser :: "string \<Rightarrow> string \<Rightarrow> (string \<rightharpoonup> string) go" where
  "PartParser template data =
     (let templateParts = split_on (CHR '':'') template; parts = split_on (CHR '':'') data
      in if length parts \<noteq> length templateParts
         then Err (''Invalid format to parse.  '' @ data @ '' should match template '' @ template)
         else Ok (fold (\<lambda>(t, value) out. out(t \<mapsto> value)) (zip templateParts parts) Map.empty))"

definition ParseKeyValueOpt :: "string \<Rightarrow> (string \<times> string) go" where
  "ParseKeyValueOpt opt = (case split2 (CHR ''='') opt of
     [k, v] \<Rightarrow> Ok (trim_space k, trim_space v)
   | _ \<Rightarrow> Err (''Unable to parse key/value option: '' @ opt))"

text \<open>The text before and after the last \<open>c\<close>, as \<open>strings.LastIndex\<close> finds it.\<close>

definition split_last :: "char \<Rightarrow> string \<Rightarrow> (string \<times> string) option" where
  "split_last c s = (case dropWhile (\<lambda>x. x \<noteq> c) (rev s) of
     [] \<Rightarrow> None
   | _ # before \<Rightarrow> Some (rev before, rev (takeWhile (\<lambda>x. x \<noteq> c) (rev s))))"

definition ParseRepositoryTag :: "string \<Rightarrow> string \<times> string" where
  "ParseRepositoryTag repos =
     (if CHR ''@'' \<in> set repos
      then (let parts = split_on (CHR ''@'') repos in (parts ! 0, parts ! 1))
      else (case split_last (CHR '':'') repos of
          None \<Rightarrow> (repos, [])
        | Some (name, tag) \<Rightarrow> if CHR ''/'' \<notin> set tag then (name, tag) else (repos, [])))"

text \<open>\<open>path.Split\<close> keeps the slash with the directory; the alias is what follows it.\<close>

definition ParseLink :: "string \<Rightarrow> (string \<times> string) go" where
  "ParseLink val =
     (if val = [] then Err ''empty string specified for links''
      else (case split_on (CHR '':'') val of
          [_] \<Rightarrow> Ok (val, val)
        | [a, b] \<Rightarrow>
            if has_prefix a ''/''
            then Ok (drop 1 a, (case split_last (CHR ''/'') b of None \<Rightarrow> b | Some (_, alias) \<Rightarrow> alias))
            else Ok (a, b)
        | _ \<Rightarrow> Err (''bad format for links: '' @ val)))"

section \<open>Ports\<close>

type_synonym Port = string

record PortBinding =
  HostIP :: string
  HostPort :: string

definition ParsePort :: "string \<Rightarrow> int go" where
  "ParsePort rawPort =
     (if rawPort = [] then Ok 0 else go_bind (ParseUint_go 16 rawPort) (\<lambda>port. Ok (sint port)))"

definition NewPort :: "string \<Rightarrow> string \<Rightarrow> Port go" where
  "NewPort proto port = go_bind (ParsePort port) (\<lambda>portInt. Ok (show_int portInt @ ''/'' @ proto))"

definition SplitProtoPort :: "string \<Rightarrow> string \<times> string" where
  "SplitProtoPort rawPort = (case split_on (CHR ''/'') rawPort of
     [] \<Rightarrow> ([], [])
   | port # rest \<Rightarrow>
       if port = [] then ([], [])
       else (case rest of
           [] \<Rightarrow> (''tcp'', rawPort)
         | proto # _ \<Rightarrow> if proto = [] then (''tcp'', port) else (proto, port)))"

definition Port_Proto :: "Port \<Rightarrow> string" where
  "Port_Proto p = fst (SplitProtoPort p)"

definition Port_Port :: "Port \<Rightarrow> string" where
  "Port_Port p = snd (SplitProtoPort p)"

text \<open>\<open>Int\<close> drops the error of \<open>ParseUint\<close> and keeps the number beside it.\<close>

definition Port_Int :: "Port \<Rightarrow> int" where
  "Port_Int p = (let portStr = Port_Port p in if portStr = [] then 0 else sint (fst (ParseUint 16 portStr)))"

definition validateProto :: "string \<Rightarrow> bool" where
  "validateProto proto \<longleftrightarrow> proto \<in> set [''tcp'', ''udp'']"

text \<open>
  \<open>net.ParseIP\<close> on a text without a colon, where only the dotted form is tried: four decimal numbers of at
  most 255, leading zeros allowed.
\<close>

definition ParseIP_v4 :: "string \<Rightarrow> bool" where
  "ParseIP_v4 s \<longleftrightarrow>
     length (split_on (CHR ''.'') s) = 4 \<and>
     list_all (\<lambda>p. case parse_nat p of None \<Rightarrow> False | Some n \<Rightarrow> n \<le> 255) (split_on (CHR ''.'') s)"

definition portSpecTemplate :: string where
  "portSpecTemplate = ''ip:hostPort:containerPort''"

definition spec_part :: "(string \<rightharpoonup> string) \<Rightarrow> string \<Rightarrow> string" where
  "spec_part parts key = (case parts key of None \<Rightarrow> [] | Some v \<Rightarrow> v)"

text \<open>The protocol of a specification, and the rest with the colons it lacks.\<close>

definition split_proto :: "string \<Rightarrow> string \<times> string" where
  "split_proto rawPort = (case split_last (CHR ''/'') rawPort of
     None \<Rightarrow> (''tcp'', rawPort)
   | Some (port, proto) \<Rightarrow> (proto, port))"

definition pad_spec :: "string \<Rightarrow> string" where
  "pad_spec rawPort =
     (if CHR '':'' \<notin> set rawPort then ''::'' @ rawPort
      else if length (split_on (CHR '':'') rawPort) = 2 then CHR '':'' # rawPort
      else rawPort)"

record port_range =
  pr_proto :: string
  pr_ip :: string
  pr_hostPort :: string
  pr_startPort :: "64 word"
  pr_endPort :: "64 word"
  pr_startHostPort :: "64 word"

text \<open>One specification up to its loop.\<close>

definition parse_port_spec :: "string \<Rightarrow> port_range go" where
  "parse_port_spec spec =
     (let (proto, port) = split_proto spec; rawPort = pad_spec port
      in go_bind (PartParser portSpecTemplate rawPort) (\<lambda>parts.
       (let containerPort = spec_part parts ''containerPort''; rawIP = spec_part parts ''ip''; hostPort = spec_part parts ''hostPort''
        in if rawIP \<noteq> [] \<and> \<not> ParseIP_v4 rawIP then Err (''Invalid ip address: '' @ rawIP)
           else if containerPort = [] then Err (''No port specified: '' @ rawPort @ ''<empty>'')
           else (case ParsePortRange containerPort of
               Err _ \<Rightarrow> Err (''Invalid containerPort: '' @ containerPort)
             | Panic \<Rightarrow> Panic
             | Ok (startPort, endPort) \<Rightarrow>
                 (case (if hostPort \<noteq> [] then ParsePortRange hostPort else Ok (0, 0)) of
                    Err _ \<Rightarrow> Err (''Invalid hostPort: '' @ hostPort)
                  | Panic \<Rightarrow> Panic
                  | Ok (startHostPort, endHostPort) \<Rightarrow>
                      if hostPort \<noteq> [] \<and> endPort - startPort \<noteq> endHostPort - startHostPort
                      then Err (''Invalid ranges specified for container and host Ports: '' @ containerPort @ '' and '' @ hostPort)
                      else if \<not> validateProto (to_lower proto) then Err (''Invalid proto: '' @ proto)
                      else Ok \<lparr>pr_proto = to_lower proto, pr_ip = rawIP, pr_hostPort = hostPort, pr_startPort = startPort,
                        pr_endPort = endPort, pr_startHostPort = startHostPort\<rparr>)))))"

type_synonym port_maps = "Port set \<times> (Port \<rightharpoonup> PortBinding list)"

definition add_binding :: "Port \<Rightarrow> PortBinding \<Rightarrow> port_maps \<Rightarrow> port_maps" where
  "add_binding port binding st =
     (insert port (fst st),
      (snd st)(port \<mapsto> (case snd st port of None \<Rightarrow> [] | Some bslice \<Rightarrow> bslice) @ [binding]))"

text \<open>One turn of the loop over the range.\<close>

definition bind_port :: "port_range \<Rightarrow> 64 word \<Rightarrow> port_maps \<Rightarrow> port_maps go" where
  "bind_port r i st =
     go_bind (NewPort (pr_proto r) (FormatUint (pr_startPort r + i))) (\<lambda>port.
       Ok (add_binding port \<lparr>HostIP = pr_ip r,
         HostPort = (if pr_hostPort r \<noteq> [] then FormatUint (pr_startHostPort r + i) else [])\<rparr> st))"

text \<open>The values of \<open>i\<close> in \<open>for i := uint64(0); i <= n; i++\<close>; the loop ends since \<open>n\<close> is not the largest word.\<close>

definition loop_values :: "64 word \<Rightarrow> 64 word list" where
  "loop_values n = map of_nat [0..<Suc (unat n)]"

definition add_port_spec :: "string \<Rightarrow> port_maps \<Rightarrow> port_maps go" where
  "add_port_spec spec st = go_bind (parse_port_spec spec) (\<lambda>r.
     go_fold (bind_port r) (loop_values (pr_endPort r - pr_startPort r)) st)"

definition ParsePortSpecs :: "string list \<Rightarrow> port_maps go" where
  "ParsePortSpecs ports = go_fold add_port_spec ports ({}, Map.empty)"

section \<open>Numbers and ranges\<close>

lemma digits_val_mono: "digits_val n s = Some k \<Longrightarrow> n \<le> k"
proof (induction s arbitrary: n)
  case (Cons c cs)
  then have "n * 10 + ((of_char c :: nat) - 48) \<le> k" by (simp split: if_splits)
  then show ?case by simp
qed simp

lemma uint_loop_Ok: "uint_loop s m n cs = (k, None) \<longleftrightarrow> digits_val n cs = Some k \<and> (k \<le> m \<or> cs = [])"
proof (induction cs arbitrary: n)
  case (Cons c cs)
  let ?n = "n * 10 + ((of_char c :: nat) - 48)"
  show ?case
  proof (cases "?n > m")
    case True
    then show ?thesis using digits_val_mono [of ?n cs k] by (auto simp: Let_def)
  next
    case False
    with Cons [of ?n] digits_val_mono [of ?n cs k] show ?thesis by (cases cs) (auto simp: Let_def)
  qed
qed auto

lemma ParseUint_go_Ok:
  "ParseUint_go bits s = Ok w \<longleftrightarrow> (\<exists>k. parse_nat s = Some k \<and> k < 2 ^ bits \<and> w = of_nat k)"
proof (cases "s = []")
  case False
  have "ParseUint_go bits s = Ok w \<longleftrightarrow> (\<exists>k. uint_loop s (2 ^ bits - 1) 0 s = (k, None) \<and> w = of_nat k)"
    using False by (auto simp: ParseUint_go_def ParseUint_def split: prod.split option.splits)
  moreover have "k \<le> 2 ^ bits - 1 \<longleftrightarrow> k < 2 ^ bits" for k :: nat
    using zero_less_power [of "2 :: nat" bits] by linarith
  ultimately show ?thesis using False by (simp add: uint_loop_Ok parse_nat_def)
qed (simp add: ParseUint_go_def ParseUint_def parse_nat_def)

lemma ParseUint_go_show: "n < 2 ^ bits \<Longrightarrow> ParseUint_go bits (show_nat n) = Ok (of_nat n)"
  by (simp add: ParseUint_go_Ok)

lemma ParseUint_go_no_Panic [simp]: "ParseUint_go bits s \<noteq> Panic"
  by (simp add: ParseUint_go_def split: prod.split option.split)

text \<open>A port fits in 16 bits, so it is what its word says.\<close>

lemma unat_port [simp]: "n < 65536 \<Longrightarrow> unat (of_nat n :: 64 word) = n"
  by (simp add: unat_of_nat)

lemma ParseUint16_bound: "ParseUint_go 16 s = Ok w \<Longrightarrow> unat w < 65536"
  by (auto simp: ParseUint_go_Ok)

lemma ParsePortRange_bound:
  assumes "ParsePortRange s = Ok (start, stop)"
  shows "start \<le> stop \<and> unat stop < 65536"
  using assms by (auto simp: ParsePortRange_def go_bind_Ok_iff split: if_splits list.splits dest: ParseUint16_bound)

text \<open>Neither the length of a range nor its ports wrap.\<close>

lemma unat64: "unat (w :: 64 word) < 2 ^ 64"
  using unsigned_less [where w = w and 'a = nat] by simp

lemma range_sum:
  assumes "start \<le> stop" "i \<in> set (loop_values (stop - start))"
  shows "unat (start + i) = unat start + unat i \<and> unat start + unat i \<le> unat stop"
proof -
  from assms(2) obtain n where n: "i = of_nat n" "n \<le> unat (stop - start)"
    by (auto simp: loop_values_def less_Suc_eq_le simp del: upt_Suc)
  have "unat (stop - start) = unat stop - unat start" using assms(1) by (rule unat_sub)
  moreover have "n < 2 ^ 64" using n(2) unat64 [of "stop - start"] by (simp add: le_less_trans)
  ultimately have "unat i = n" "n \<le> unat stop - unat start" using n by (simp_all add: unat_of_nat)
  then have le: "unat start + unat i \<le> unat stop" using assms(1) by (simp add: word_le_nat_alt)
  then have "unat start + unat i < 2 ^ 64" using unat64 [of stop] by (simp add: le_less_trans)
  then have "unat (start + i) = unat start + unat i" by (simp add: unat_word_ariths)
  with le show ?thesis by blast
qed

lemma sint_port [simp]: "n < 65536 \<Longrightarrow> sint (of_nat n :: 64 word) = int n"
  by (simp add: signed_of_nat signed_take_bit_int_eq_self)

lemma NewPort_show: "n < 65536 \<Longrightarrow> NewPort proto (show_nat n) = Ok (show_nat n @ ''/'' @ proto)"
  by (simp add: NewPort_def ParsePort_def ParseUint_go_show show_int_def)

section \<open>The maps\<close>

text \<open>What adding bindings one after the other comes to: each port's bindings in order.\<close>

definition bindings_at :: "(Port \<times> PortBinding) list \<Rightarrow> Port \<Rightarrow> PortBinding list" where
  "bindings_at bs port = map snd (filter (\<lambda>b. fst b = port) bs)"

definition port_maps_of :: "(Port \<times> PortBinding) list \<Rightarrow> port_maps" where
  "port_maps_of bs =
     (fst ` set bs, \<lambda>port. if bindings_at bs port = [] then None else Some (bindings_at bs port))"

lemma bindings_at_append [simp]: "bindings_at (as @ bs) port = bindings_at as port @ bindings_at bs port"
  by (simp add: bindings_at_def)

lemma bindings_at_Nil_iff: "bindings_at bs port = [] \<longleftrightarrow> port \<notin> fst ` set bs"
  by (force simp: bindings_at_def filter_empty_conv)

lemma port_maps_of_dom: "dom (snd (port_maps_of bs)) = fst (port_maps_of bs)"
  by (auto simp: port_maps_of_def dom_def bindings_at_Nil_iff split: if_splits)

lemma add_binding_port_maps_of: "add_binding port b (port_maps_of bs) = port_maps_of (bs @ [(port, b)])"
  by (auto simp: add_binding_def port_maps_of_def bindings_at_def fun_eq_iff)

text \<open>The bindings of one parsed specification.\<close>

definition range_bindings :: "port_range \<Rightarrow> (Port \<times> PortBinding) list" where
  "range_bindings r = map (\<lambda>i. (show_nat (unat (pr_startPort r + i)) @ ''/'' @ pr_proto r,
     \<lparr>HostIP = pr_ip r, HostPort = (if pr_hostPort r \<noteq> [] then show_nat (unat (pr_startHostPort r + i)) else [])\<rparr>))
     (loop_values (pr_endPort r - pr_startPort r))"

lemma bind_ports:
  assumes "\<And>i. i \<in> set is \<Longrightarrow> unat (pr_startPort r + i) < 65536"
  shows "go_fold (bind_port r) is (port_maps_of bs) = Ok (port_maps_of (bs @ map (\<lambda>i. (show_nat (unat (pr_startPort r + i)) @ ''/'' @ pr_proto r,
     \<lparr>HostIP = pr_ip r, HostPort = (if pr_hostPort r \<noteq> [] then show_nat (unat (pr_startHostPort r + i)) else [])\<rparr>)) is))"
  using assms
proof (induction "is" arbitrary: bs)
  case (Cons i "is")
  then have "unat (pr_startPort r + i) < 65536" by simp
  with Cons show ?case
    by (simp add: bind_port_def FormatUint_def NewPort_show add_binding_port_maps_of del: show_nat.simps)
qed simp

lemma parse_port_spec_range:
  assumes "parse_port_spec spec = Ok r"
  shows "pr_startPort r \<le> pr_endPort r \<and> unat (pr_endPort r) < 65536 \<and> pr_proto r \<in> {''tcp'', ''udp''} \<and>
    (pr_hostPort r \<noteq> [] \<longrightarrow> (\<exists>e. pr_startHostPort r \<le> e \<and> unat e < 65536 \<and>
       e - pr_startHostPort r = pr_endPort r - pr_startPort r))"
proof -
  from assms obtain proto parts start stop hs he where
    "ParsePortRange (spec_part parts ''containerPort'') = Ok (start, stop)"
    "(if spec_part parts ''hostPort'' \<noteq> [] then ParsePortRange (spec_part parts ''hostPort'') else Ok (0, 0)) = Ok (hs, he)"
    "spec_part parts ''hostPort'' \<noteq> [] \<longrightarrow> stop - start = he - hs" "validateProto (to_lower proto)"
    "r = \<lparr>pr_proto = to_lower proto, pr_ip = spec_part parts ''ip'', pr_hostPort = spec_part parts ''hostPort'', pr_startPort = start,
       pr_endPort = stop, pr_startHostPort = hs\<rparr>"
    unfolding parse_port_spec_def Let_def go_bind_Ok_iff
    by (auto simp: go_bind_Ok_iff split: prod.splits if_splits go.splits)
  then show ?thesis by (auto simp: validateProto_def dest: ParsePortRange_bound)
qed

lemma add_port_spec_maps:
  assumes "parse_port_spec spec = Ok r"
  shows "add_port_spec spec (port_maps_of bs) = Ok (port_maps_of (bs @ range_bindings r))"
proof -
  note r = parse_port_spec_range [OF assms]
  have "unat (pr_startPort r + i) < 65536" if "i \<in> set (loop_values (pr_endPort r - pr_startPort r))" for i
    using range_sum [OF _ that] r by simp
  then show ?thesis using assms by (simp add: add_port_spec_def range_bindings_def bind_ports)
qed

lemma ParsePortSpecs_fold:
  "go_fold add_port_spec specs (port_maps_of bs) = Ok m \<longleftrightarrow>
     (\<exists>rs. list_all2 (\<lambda>spec r. parse_port_spec spec = Ok r) specs rs \<and> m = port_maps_of (bs @ concat (map range_bindings rs)))"
proof (induction specs arbitrary: bs)
  case (Cons spec specs)
  show ?case
  proof (cases "parse_port_spec spec")
    case (Ok r)
    then show ?thesis by (auto simp: add_port_spec_maps Cons list_all2_Cons1)
  qed (auto simp: add_port_spec_def list_all2_Cons1)
qed auto

lemma port_maps_of_Nil: "({}, Map.empty) = port_maps_of []"
  by (simp add: port_maps_of_def bindings_at_def)

text \<open>All specifications are parsed, and their bindings added in order.\<close>

lemma ParsePortSpecs_Ok:
  "ParsePortSpecs specs = Ok m \<longleftrightarrow>
     (\<exists>rs. list_all2 (\<lambda>spec r. parse_port_spec spec = Ok r) specs rs \<and> m = port_maps_of (concat (map range_bindings rs)))"
  unfolding ParsePortSpecs_def port_maps_of_Nil by (simp add: ParsePortSpecs_fold)

section \<open>Written specifications\<close>

text \<open>A specification as one writes it: address, host port and container port, as ranges of one length.\<close>

record port_spec =
  ps_ip :: "nat list"
  ps_host :: "nat option"
  ps_cont :: nat
  ps_len :: nat
  ps_proto :: string

definition wf_spec :: "port_spec \<Rightarrow> bool" where
  "wf_spec p \<longleftrightarrow> (ps_ip p = [] \<or> length (ps_ip p) = 4 \<and> (\<forall>n \<in> set (ps_ip p). n \<le> 255)) \<and>
     ps_cont p + ps_len p < 65536 \<and> (\<forall>h. ps_host p = Some h \<longrightarrow> h + ps_len p < 65536) \<and>
     ps_proto p \<in> {''tcp'', ''udp''}"

definition show_range :: "nat \<Rightarrow> nat \<Rightarrow> string" where
  "show_range n len = (if len = 0 then show_nat n else show_nat n @ CHR ''-'' # show_nat (n + len))"

definition show_ip :: "nat list \<Rightarrow> string" where
  "show_ip ns = join ''.'' (map show_nat ns)"

definition show_host :: "port_spec \<Rightarrow> string" where
  "show_host p = (case ps_host p of None \<Rightarrow> [] | Some h \<Rightarrow> show_range h (ps_len p))"

definition print_spec :: "port_spec \<Rightarrow> string" where
  "print_spec p = (show_ip (ps_ip p) @ CHR '':'' # show_host p @ CHR '':'' # show_range (ps_cont p) (ps_len p)) @
     CHR ''/'' # ps_proto p"

text \<open>The bindings it means: the ports of the range pairwise.\<close>

definition spec_bindings :: "port_spec \<Rightarrow> (Port \<times> PortBinding) list" where
  "spec_bindings p = map (\<lambda>i. (show_nat (ps_cont p + i) @ ''/'' @ ps_proto p,
     \<lparr>HostIP = show_ip (ps_ip p), HostPort = (case ps_host p of None \<Rightarrow> [] | Some h \<Rightarrow> show_nat (h + i))\<rparr>))
     [0..<Suc (ps_len p)]"

lemma show_nat_no: "\<not> is_digit c \<Longrightarrow> c \<notin> set (show_nat n)"
  using show_nat_digits by blast

lemma show_range_no: "\<not> is_digit c \<Longrightarrow> c \<noteq> CHR ''-'' \<Longrightarrow> c \<notin> set (show_range n len)"
  by (simp add: show_range_def show_nat_no)

lemma show_ip_no: "\<not> is_digit c \<Longrightarrow> c \<noteq> CHR ''.'' \<Longrightarrow> c \<notin> set (show_ip ns)"
  using set_join [of c "CHR ''.''" "map show_nat ns"] by (auto simp: show_ip_def show_nat_no)

lemma show_range_ne [simp]: "show_range n len \<noteq> []"
  by (simp add: show_range_def)

lemma ParsePortRange_show:
  assumes "n + len < 65536"
  shows "ParsePortRange (show_range n len) = Ok (of_nat n, of_nat (n + len))"
proof -
  have d: "CHR ''-'' \<notin> set (show_nat k)" for k by (simp add: show_nat_no is_digit_def)
  have "\<not> (of_nat (n + len) :: 64 word) < of_nat n" using assms by (simp add: word_less_nat_alt del: of_nat_add)
  with assms d show ?thesis
    by (simp add: ParsePortRange_def show_range_def ParseUint_go_show split_on_sep split_on_no_sep del: of_nat_add)
qed

lemma show_ip_ok:
  assumes "ns = [] \<or> length ns = 4 \<and> (\<forall>n \<in> set ns. n \<le> 255)"
  shows "show_ip ns = [] \<or> ParseIP_v4 (show_ip ns)"
proof (cases "ns = []")
  case False
  then have "split_on (CHR ''.'') (show_ip ns) = map show_nat ns"
    unfolding show_ip_def by (intro split_on_join) (auto simp: show_nat_no is_digit_def)
  with assms False show ?thesis by (simp add: ParseIP_v4_def list_all_iff)
qed (simp add: show_ip_def)

lemma split_last_app: "c \<notin> set b \<Longrightarrow> split_last c (a @ c # b) = Some (a, b)"
proof -
  assume "c \<notin> set b"
  then have "dropWhile (\<lambda>x. x \<noteq> c) (rev b @ c # rev a) = c # rev a" "takeWhile (\<lambda>x. x \<noteq> c) (rev b @ c # rev a) = rev b"
    by (subst dropWhile_append2 takeWhile_append2; auto)+
  then show ?thesis by (simp add: split_last_def)
qed

lemma PartParser_three:
  assumes "CHR '':'' \<notin> set a" "CHR '':'' \<notin> set b" "CHR '':'' \<notin> set c"
  shows "PartParser portSpecTemplate (a @ CHR '':'' # b @ CHR '':'' # c) =
    Ok (Map.empty(''ip'' \<mapsto> a, ''hostPort'' \<mapsto> b, ''containerPort'' \<mapsto> c))"
proof -
  have "split_on (CHR '':'') portSpecTemplate = [''ip'', ''hostPort'', ''containerPort'']"
    by (simp add: portSpecTemplate_def)
  then show ?thesis using assms by (simp add: PartParser_def split_on_sep split_on_no_sep)
qed

lemma pad_spec_three: "CHR '':'' \<notin> set a \<Longrightarrow> CHR '':'' \<notin> set b \<Longrightarrow>
    pad_spec (a @ CHR '':'' # b @ CHR '':'' # c) = a @ CHR '':'' # b @ CHR '':'' # c"
  by (simp add: pad_spec_def split_on_sep)

lemma parse_print_spec:
  assumes "wf_spec p"
  shows "parse_port_spec (print_spec p) = Ok \<lparr>pr_proto = ps_proto p, pr_ip = show_ip (ps_ip p), pr_hostPort = show_host p,
    pr_startPort = of_nat (ps_cont p), pr_endPort = of_nat (ps_cont p + ps_len p),
    pr_startHostPort = (case ps_host p of None \<Rightarrow> 0 | Some h \<Rightarrow> of_nat h)\<rparr>"
proof -
  have wf: "ps_cont p + ps_len p < 65536" "\<And>h. ps_host p = Some h \<Longrightarrow> h + ps_len p < 65536"
    "ps_proto p \<in> {''tcp'', ''udp''}" "show_ip (ps_ip p) = [] \<or> ParseIP_v4 (show_ip (ps_ip p))"
    using assms show_ip_ok by (auto simp: wf_spec_def)
  have no: "CHR '':'' \<notin> set (show_ip (ps_ip p))" "CHR '':'' \<notin> set (show_host p)"
    "CHR '':'' \<notin> set (show_range (ps_cont p) (ps_len p))"
    by (auto simp: show_ip_no show_range_no is_digit_def show_host_def split: option.split)
  have proto: "CHR ''/'' \<notin> set (ps_proto p)" "to_lower (ps_proto p) = ps_proto p" "validateProto (ps_proto p)"
    using wf(3) by (auto simp: validateProto_def to_lower_def lower_char_def is_upper_def)
  have host: "(if show_host p \<noteq> [] then ParsePortRange (show_host p) else Ok (0, 0)) =
      Ok (case ps_host p of None \<Rightarrow> (0, 0) | Some h \<Rightarrow> (of_nat h, of_nat (h + ps_len p)))"
    using wf(2) by (simp add: show_host_def ParsePortRange_show split: option.split)
  have len: "(of_nat (ps_cont p + ps_len p) :: 64 word) - of_nat (ps_cont p) = of_nat (ps_len p)"
    "(of_nat (h + ps_len p) :: 64 word) - of_nat h = of_nat (ps_len p)" for h by simp_all
  have parts: "PartParser portSpecTemplate (pad_spec (show_ip (ps_ip p) @ CHR '':'' # show_host p @ CHR '':'' # show_range (ps_cont p) (ps_len p))) =
      Ok (Map.empty(''ip'' \<mapsto> show_ip (ps_ip p), ''hostPort'' \<mapsto> show_host p, ''containerPort'' \<mapsto> show_range (ps_cont p) (ps_len p)))"
    using no by (simp add: pad_spec_three PartParser_three)
  obtain hs he where h: "(if show_host p \<noteq> [] then ParsePortRange (show_host p) else Ok (0, 0)) = Ok (hs, he)"
    "hs = (case ps_host p of None \<Rightarrow> 0 | Some h \<Rightarrow> of_nat h)" "show_host p \<noteq> [] \<Longrightarrow> he - hs = of_nat (ps_len p)"
  proof (cases "ps_host p")
    case None
    then show ?thesis using that [of 0 0] by (simp add: show_host_def)
  next
    case (Some h)
    have "(if show_host p \<noteq> [] then ParsePortRange (show_host p) else Ok (0, 0)) = Ok (of_nat h, of_nat (h + ps_len p))"
      using host unfolding Some option.case .
    then show ?thesis by (rule that) (use Some in \<open>simp_all add: len(2) del: of_nat_add\<close>)
  qed
  have vals: "spec_part (Map.empty(''ip'' \<mapsto> a, ''hostPort'' \<mapsto> b, ''containerPort'' \<mapsto> c)) ''ip'' = a"
    "spec_part (Map.empty(''ip'' \<mapsto> a, ''hostPort'' \<mapsto> b, ''containerPort'' \<mapsto> c)) ''hostPort'' = b"
    "spec_part (Map.empty(''ip'' \<mapsto> a, ''hostPort'' \<mapsto> b, ''containerPort'' \<mapsto> c)) ''containerPort'' = c" for a b c :: string
    by (simp_all add: spec_part_def)
  have split: "split_proto (print_spec p) = (ps_proto p, show_ip (ps_ip p) @ CHR '':'' # show_host p @ CHR '':'' # show_range (ps_cont p) (ps_len p))"
    by (simp add: split_proto_def print_spec_def split_last_app [OF proto(1)] del: append_assoc append_Cons)
  have guards: "\<not> (show_ip (ps_ip p) \<noteq> [] \<and> \<not> ParseIP_v4 (show_ip (ps_ip p)))"
    "\<not> (show_host p \<noteq> [] \<and> of_nat (ps_cont p + ps_len p) - of_nat (ps_cont p) \<noteq> he - hs)"
    using wf(4) by blast (metis h(3) len(1))
  show ?thesis
    unfolding parse_port_spec_def split Let_def prod.case parts go_bind.simps vals proto(2)
    using guards h(1,2) proto(3) by (simp add: ParsePortRange_show [OF wf(1)] del: of_nat_add)
qed

lemma spec_range_bindings:
  assumes "wf_spec p" "parse_port_spec (print_spec p) = Ok r"
  shows "range_bindings r = spec_bindings p"
proof -
  have r: "r = \<lparr>pr_proto = ps_proto p, pr_ip = show_ip (ps_ip p), pr_hostPort = show_host p,
    pr_startPort = of_nat (ps_cont p), pr_endPort = of_nat (ps_cont p + ps_len p),
    pr_startHostPort = (case ps_host p of None \<Rightarrow> 0 | Some h \<Rightarrow> of_nat h)\<rparr>"
    using assms parse_print_spec by simp
  have wf: "ps_cont p + ps_len p < 65536" "\<And>h. ps_host p = Some h \<Longrightarrow> h + ps_len p < 65536"
    using assms(1) by (auto simp: wf_spec_def)
  have loop: "loop_values (pr_endPort r - pr_startPort r) = map of_nat [0..<Suc (ps_len p)]"
    using wf(1) by (simp add: r loop_values_def)
  have cont: "unat (pr_startPort r + of_nat i) = ps_cont p + i" if "i \<le> ps_len p" for i
    using that wf(1) unat_port [of "ps_cont p + i"] by (simp add: r)
  have host: "(if pr_hostPort r \<noteq> [] then show_nat (unat (pr_startHostPort r + of_nat i)) else []) =
      (case ps_host p of None \<Rightarrow> [] | Some h \<Rightarrow> show_nat (h + i))" if "i \<le> ps_len p" for i
  proof (cases "ps_host p")
    case (Some h)
    then show ?thesis using that wf(2) [OF Some] unat_port [of "h + i"] by (simp add: r show_host_def)
  qed (simp add: r show_host_def)
  have "pr_proto r = ps_proto p" "pr_ip r = show_ip (ps_ip p)" by (simp_all add: r)
  then show ?thesis
    unfolding range_bindings_def spec_bindings_def loop map_map comp_def
    by (intro map_cong refl) (simp add: cont host less_Suc_eq_le del: upt_Suc)
qed

lemma ParsePortSpecs_print:
  assumes "\<forall>p \<in> set ps. wf_spec p"
  shows "ParsePortSpecs (map print_spec ps) = Ok (port_maps_of (concat (map spec_bindings ps)))"
proof -
  define rs where "rs = map (\<lambda>p. THE r. parse_port_spec (print_spec p) = Ok r) ps"
  have "parse_port_spec (print_spec p) = Ok (THE r. parse_port_spec (print_spec p) = Ok r)" if "wf_spec p" for p
    by (simp add: parse_print_spec [OF that])
  then have l: "list_all2 (\<lambda>spec r. parse_port_spec spec = Ok r) (map print_spec ps) rs"
    using assms unfolding rs_def list_all2_map1 list_all2_map2 by (intro list.rel_refl_strong) simp
  have "map range_bindings rs = map spec_bindings ps"
    using assms spec_range_bindings \<open>\<And>p. wf_spec p \<Longrightarrow> _\<close> by (simp add: rs_def)
  with l show ?thesis unfolding ParsePortSpecs_Ok by (intro exI [of _ rs]) simp
qed

section \<open>Properties\<close>

text \<open>
  C22: Written port specifications are parsed to what they mean: the exposed ports are those of the container ranges, and each has the host addresses
  and ports that the specifications pair with it, in their order.
\<close>

theorem ParsePortSpecs_roundtrip:
  assumes "\<forall>p \<in> set ps. wf_spec p"
  shows "ParsePortSpecs (map print_spec ps) = Ok (port_maps_of (concat (map spec_bindings ps)))"
  by (rule ParsePortSpecs_print [OF assms])

text \<open>
  C23: Bounds of the parsed ports.  Whatever the specifications, an exposed port is a number of 16 bits with one of the two protocols, and is read back as these; the ports
  with bindings are the exposed ones, and each binding has a host port of 16 bits or none.
\<close>

theorem ParsePortSpecs_bounds:
  assumes "ParsePortSpecs specs = Ok (exposed, bindings)"
  shows "dom bindings = exposed \<and>
    (\<forall>port \<in> exposed. \<exists>n < 65536. \<exists>proto \<in> {''tcp'', ''udp''}. port = show_nat n @ ''/'' @ proto \<and>
       Port_Int port = int n \<and> Port_Proto port = proto) \<and>
    (\<forall>bs \<in> ran bindings. bs \<noteq> [] \<and> (\<forall>b \<in> set bs. HostPort b = [] \<or> (\<exists>h < 65536. HostPort b = show_nat h)))"
proof -
  from assms obtain rs where rs: "list_all2 (\<lambda>spec r. parse_port_spec spec = Ok r) specs rs"
    "exposed = fst ` set (concat (map range_bindings rs))"
    "bindings = (\<lambda>port. if bindings_at (concat (map range_bindings rs)) port = [] then None
       else Some (bindings_at (concat (map range_bindings rs)) port))"
    by (auto simp: ParsePortSpecs_Ok port_maps_of_def)
  have each: "\<exists>n < 65536. \<exists>proto \<in> {''tcp'', ''udp''}. port = show_nat n @ ''/'' @ proto"
    "HostPort b = [] \<or> (\<exists>h < 65536. HostPort b = show_nat h)"
    if in_rs: "(port, b) \<in> set (concat (map range_bindings rs))" for port b
  proof -
    from in_rs obtain r where r: "r \<in> set rs" "(port, b) \<in> set (range_bindings r)" by auto
    from r(1) rs(1) obtain spec where "parse_port_spec spec = Ok r" by (auto simp: list_all2_conv_all_nth in_set_conv_nth)
    note range = parse_port_spec_range [OF this]
    from r(2) obtain i where i: "i \<in> set (loop_values (pr_endPort r - pr_startPort r))"
      "port = show_nat (unat (pr_startPort r + i)) @ ''/'' @ pr_proto r"
      "HostPort b = (if pr_hostPort r \<noteq> [] then show_nat (unat (pr_startHostPort r + i)) else [])"
      by (auto simp: range_bindings_def)
    have "unat (pr_startPort r + i) < 65536" using range_sum [OF _ i(1)] range by simp
    with i(2) range show "\<exists>n < 65536. \<exists>proto \<in> {''tcp'', ''udp''}. port = show_nat n @ ''/'' @ proto" by blast
    show "HostPort b = [] \<or> (\<exists>h < 65536. HostPort b = show_nat h)"
    proof (cases "pr_hostPort r = []")
      case False
      with range obtain e where e: "pr_startHostPort r \<le> e" "unat e < 65536"
        "e - pr_startHostPort r = pr_endPort r - pr_startPort r" by blast
      with i(1) have "unat (pr_startHostPort r + i) < 65536" using range_sum [OF e(1), of i] by simp
      with False i(3) show ?thesis by auto
    qed (simp add: i(3))
  qed
  have "dom bindings = exposed"
    using port_maps_of_dom [of "concat (map range_bindings rs)"] unfolding rs(2,3) port_maps_of_def by simp
  moreover have "\<exists>n < 65536. \<exists>proto \<in> {''tcp'', ''udp''}. port = show_nat n @ ''/'' @ proto \<and>
      Port_Int port = int n \<and> Port_Proto port = proto" if "port \<in> exposed" for port
  proof -
    from that obtain b where "(port, b) \<in> set (concat (map range_bindings rs))" unfolding rs(2) by force
    from each(1) [OF this] obtain n proto where n: "n < 65536" "proto \<in> {''tcp'', ''udp''}" "port = show_nat n @ ''/'' @ proto"
      by blast
    have "SplitProtoPort port = (proto, show_nat n)" using n(2,3) by (auto simp: SplitProtoPort_def split_on_sep show_nat_no is_digit_def)
    then have "Port_Int port = int n \<and> Port_Proto port = proto"
      using n(1) ParseUint_go_show [of n 16]
      by (auto simp: Port_Int_def Port_Proto_def Port_Port_def ParseUint_go_def split: prod.splits option.splits)
    with n show ?thesis by blast
  qed
  moreover have "bs \<noteq> [] \<and> (\<forall>b \<in> set bs. HostPort b = [] \<or> (\<exists>h < 65536. HostPort b = show_nat h))"
    if "bs \<in> ran bindings" for bs
    using that rs(3) each(2) by (fastforce simp: ran_def bindings_at_def split: if_splits)
  ultimately show ?thesis by blast
qed

text \<open>Two ports of one address, and one without a host port.\<close>

definition demo_specs :: "port_spec list" where
  "demo_specs = [\<lparr>ps_ip = [127, 0, 0, 1], ps_host = Some 8000, ps_cont = 80, ps_len = 1, ps_proto = ''tcp''\<rparr>,
     \<lparr>ps_ip = [], ps_host = None, ps_cont = 53, ps_len = 0, ps_proto = ''udp''\<rparr>]"

lemma demo_specs_wf: "\<forall>p \<in> set demo_specs. wf_spec p"
  by (simp add: demo_specs_def wf_spec_def)

theorem ParsePortSpecs_roundtrip_witness:
  "ParsePortSpecs (map print_spec demo_specs) = Ok (port_maps_of (concat (map spec_bindings demo_specs)))"
  by (rule ParsePortSpecs_roundtrip [OF demo_specs_wf])

theorem ParsePortSpecs_bounds_witness:
  "\<exists>n < 65536. \<exists>proto \<in> {''tcp'', ''udp''}. show_nat 53 @ ''/udp'' = show_nat n @ ''/'' @ proto \<and>
     Port_Int (show_nat 53 @ ''/udp'') = int n \<and> Port_Proto (show_nat 53 @ ''/udp'') = proto"
proof -
  have "show_nat 53 @ ''/udp'' \<in> fst ` set (concat (map spec_bindings demo_specs))"
    by (simp add: demo_specs_def spec_bindings_def)
  with ParsePortSpecs_bounds [OF ParsePortSpecs_print [OF demo_specs_wf, unfolded port_maps_of_def]]
  show ?thesis by blast
qed

text \<open>What follows a second hyphen of a range is ignored.\<close>

lemma ParsePortRange_ignores_rest: "ParsePortRange ''80-90-x'' = Ok (80, 90)"
  by (simp add: ParsePortRange_def ParseUint_go_def ParseUint_def is_digit_def)

end
