(* ===== verification/Project_Types.thy ===== *)
theory Project_Types
  imports Shlex
begin

text \<open>
  The data model of \<open>libcompose/project\<close>: the event types of \<open>types.go\<close>, the YAML wrapper types of
  \<open>types_yaml.go\<close> with their decoders, \<open>ServiceConfig\<close>, and the relationships between services
  (\<open>types.go\<close>, \<open>utils.go\<close>, with the container modes of \<open>runconfig/hostconfig.go\<close>).
\<close>

section \<open>Event types\<close>

datatype EventType =
    NoEvent | EventContainerCreated | EventContainerStarted | EventServiceAdd
  | EventServiceUpStart | EventServiceUpIgnored | EventServiceUp | EventServiceCreateStart
  | EventServiceCreate | EventServiceDeleteStart | EventServiceDelete
  | EventServiceDownStart | EventServiceDown | EventServiceRestartStart
  | EventServiceRestart | EventServicePullStart | EventServicePull | EventServiceKillStart
  | EventServiceKill | EventServiceStartStart | EventServiceStart | EventServiceBuildStart
  | EventServiceBuild | EventProjectDownStart | EventProjectDownDone
  | EventProjectCreateStart | EventProjectCreateDone | EventProjectUpStart
  | EventProjectUpDone | EventProjectDeleteStart | EventProjectDeleteDone
  | EventProjectRestartStart | EventProjectRestartDone | EventProjectReload
  | EventProjectReloadTrigger | EventProjectKillStart | EventProjectKillDone
  | EventProjectStartStart | EventProjectStartDone | EventProjectBuildStart
  | EventProjectBuildDone

text \<open>The values \<open>iota\<close> gives the constants.\<close>

fun EventType_int :: "EventType \<Rightarrow> nat" where
  "EventType_int NoEvent = 0"
| "EventType_int EventContainerCreated = 1"
| "EventType_int EventContainerStarted = 2"
| "EventType_int EventServiceAdd = 3"
| "EventType_int EventServiceUpStart = 4"
| "EventType_int EventServiceUpIgnored = 5"
| "EventType_int EventServiceUp = 6"
| "EventType_int EventServiceCreateStart = 7"
| "EventType_int EventServiceCreate = 8"
| "EventType_int EventServiceDeleteStart = 9"
| "EventType_int EventServiceDelete = 10"
| "EventType_int EventServiceDownStart = 11"
| "EventType_int EventServiceDown = 12"
| "EventType_int EventServiceRestartStart = 13"
| "EventType_int EventServiceRestart = 14"
| "EventType_int EventServicePullStart = 15"
| "EventType_int EventServicePull = 16"
| "EventType_int EventServiceKillStart = 17"
| "EventType_int EventServiceKill = 18"
| "EventType_int EventServiceStartStart = 19"
| "EventType_int EventServiceStart = 20"
| "EventType_int EventServiceBuildStart = 21"
| "EventType_int EventServiceBuild = 22"
| "EventType_int EventProjectDownStart = 23"
| "EventType_int EventProjectDownDone = 24"
| "EventType_int EventProjectCreateStart = 25"
| "EventType_int EventProjectCreateDone = 26"
| "EventType_int EventProjectUpStart = 27"
| "EventType_int EventProjectUpDone = 28"
| "EventType_int EventProjectDeleteStart = 29"
| "EventType_int EventProjectDeleteDone = 30"
| "EventType_int EventProjectRestartStart = 31"
| "EventType_int EventProjectRestartDone = 32"
| "EventType_int EventProjectReload = 33"
| "EventType_int EventProjectReloadTrigger = 34"
| "EventType_int EventProjectKillStart = 35"
| "EventType_int EventProjectKillDone = 36"
| "EventType_int EventProjectStartStart = 37"
| "EventType_int EventProjectStartDone = 38"
| "EventType_int EventProjectBuildStart = 39"
| "EventType_int EventProjectBuildDone = 40"

text \<open>The switch of \<open>EventType.String\<close>; no case leaves the text empty.\<close>

fun EventType_text :: "EventType \<Rightarrow> string" where
  "EventType_text NoEvent = []"
| "EventType_text EventContainerCreated = ''Created container''"
| "EventType_text EventContainerStarted = ''Started container''"
| "EventType_text EventServiceAdd = ''Adding''"
| "EventType_text EventServiceUpStart = ''Starting''"
| "EventType_text EventServiceUpIgnored = ''Ignoring''"
| "EventType_text EventServiceUp = ''Started''"
| "EventType_text EventServiceCreateStart = ''Creating''"
| "EventType_text EventServiceCreate = ''Created''"
| "EventType_text EventServiceDeleteStart = ''Deleting''"
| "EventType_text EventServiceDelete = ''Deleted''"
| "EventType_text EventServiceDownStart = ''Stopping''"
| "EventType_text EventServiceDown = ''Stopped''"
| "EventType_text EventServiceRestartStart = ''Restarting''"
| "EventType_text EventServiceRestart = ''Restarted''"
| "EventType_text EventServicePullStart = ''Pulling''"
| "EventType_text EventServicePull = ''Pulled''"
| "EventType_text EventServiceKillStart = ''Killing''"
| "EventType_text EventServiceKill = ''Killed''"
| "EventType_text EventServiceStartStart = ''Starting''"
| "EventType_text EventServiceStart = ''Started''"
| "EventType_text EventServiceBuildStart = ''Building''"
| "EventType_text EventServiceBuild = ''Built''"
| "EventType_text EventProjectDownStart = ''Stopping project''"
| "EventType_text EventProjectDownDone = ''Project stopped''"
| "EventType_text EventProjectCreateStart = ''Creating project''"
| "EventType_text EventProjectCreateDone = ''Project created''"
| "EventType_text EventProjectUpStart = ''Starting project''"
| "EventType_text EventProjectUpDone = ''Project started''"
| "EventType_text EventProjectDeleteStart = ''Deleting project''"
| "EventType_text EventProjectDeleteDone = ''Project deleted''"
| "EventType_text EventProjectRestartStart = ''Restarting project''"
| "EventType_text EventProjectRestartDone = ''Project restarted''"
| "EventType_text EventProjectReload = ''Reloading project''"
| "EventType_text EventProjectReloadTrigger = ''Triggering project reload''"
| "EventType_text EventProjectKillStart = ''Killing project''"
| "EventType_text EventProjectKillDone = ''Project killed''"
| "EventType_text EventProjectStartStart = ''Starting project''"
| "EventType_text EventProjectStartDone = ''Project started''"
| "EventType_text EventProjectBuildStart = ''Building project''"
| "EventType_text EventProjectBuildDone = ''Project built''"

definition EventType_String :: "EventType \<Rightarrow> string" where
  "EventType_String e =
     (let m = EventType_text e
      in if m = [] then ''EventType: '' @ show_int (int (EventType_int e)) else m)"

definition EventTypes :: "EventType list" where
  "EventTypes = [
    NoEvent, EventContainerCreated, EventContainerStarted, EventServiceAdd, EventServiceUpStart
    , EventServiceUpIgnored, EventServiceUp, EventServiceCreateStart, EventServiceCreate
    , EventServiceDeleteStart, EventServiceDelete, EventServiceDownStart, EventServiceDown
    , EventServiceRestartStart, EventServiceRestart, EventServicePullStart, EventServicePull
    , EventServiceKillStart, EventServiceKill, EventServiceStartStart, EventServiceStart
    , EventServiceBuildStart, EventServiceBuild, EventProjectDownStart, EventProjectDownDone
    , EventProjectCreateStart, EventProjectCreateDone, EventProjectUpStart
    , EventProjectUpDone, EventProjectDeleteStart, EventProjectDeleteDone
    , EventProjectRestartStart, EventProjectRestartDone, EventProjectReload
    , EventProjectReloadTrigger, EventProjectKillStart, EventProjectKillDone
    , EventProjectStartStart, EventProjectStartDone, EventProjectBuildStart
    , EventProjectBuildDone]"

lemma EventTypes_nth: "EventTypes ! EventType_int e = e"
  by (cases e) (simp_all add: EventTypes_def)

lemma EventType_int_inject [simp]: "EventType_int a = EventType_int b \<longleftrightarrow> a = b"
  by (metis EventTypes_nth)

text \<open>The constants are ordered as Go orders the integers behind them.\<close>

instantiation EventType :: linorder
begin

definition less_eq_EventType :: "EventType \<Rightarrow> EventType \<Rightarrow> bool" where
  "less_eq_EventType a b \<longleftrightarrow> EventType_int a \<le> EventType_int b"

definition less_EventType :: "EventType \<Rightarrow> EventType \<Rightarrow> bool" where
  "less_EventType a b \<longleftrightarrow> EventType_int a < EventType_int b"

instance
  by standard (auto simp: less_eq_EventType_def less_EventType_def)

end

section \<open>YAML wrapper types\<close>

text \<open>
  \<open>UnmarshalYAML\<close> gets a callback that decodes the node at hand into a value of the type it is
  given.  The decoders below ask for a list of strings, a string, or a map of strings; a node is
  therefore its three answers.  A map is a list of entries in the order Go iterates over it.
\<close>

record unmarshaler =
  um_slice :: "string list go"
  um_string :: "string go"
  um_map :: "(string \<times> string) list go"

record Stringorslice =
  sos_parts :: "string list"

definition Stringorslice_MarshalYAML :: "Stringorslice \<Rightarrow> string list" where
  "Stringorslice_MarshalYAML s = sos_parts s"

definition Stringorslice_UnmarshalYAML :: "unmarshaler \<Rightarrow> Stringorslice go" where
  "Stringorslice_UnmarshalYAML um =
     go_else (um_slice um) (\<lambda>sliceType. \<lparr>sos_parts = sliceType\<rparr>)
       (\<lambda>_. go_else (um_string um) (\<lambda>stringType. \<lparr>sos_parts = [stringType]\<rparr>) Err)"

text \<open>The receiver is a pointer that may be nil.\<close>

definition Stringorslice_Len :: "Stringorslice option \<Rightarrow> nat" where
  "Stringorslice_Len s = (case s of None \<Rightarrow> 0 | Some s \<Rightarrow> length (sos_parts s))"

definition Stringorslice_Slice :: "Stringorslice option \<Rightarrow> string list" where
  "Stringorslice_Slice s = (case s of None \<Rightarrow> [] | Some s \<Rightarrow> sos_parts s)"

definition NewStringorslice :: "string list \<Rightarrow> Stringorslice" where
  "NewStringorslice parts = \<lparr>sos_parts = parts\<rparr>"

record Command =
  cmd_parts :: "string list"

definition Command_MarshalYAML :: "Command \<Rightarrow> string list" where
  "Command_MarshalYAML s = cmd_parts s"

definition Command_UnmarshalYAML :: "unmarshaler \<Rightarrow> Command go" where
  "Command_UnmarshalYAML um = (case um_string um of
     Ok stringType \<Rightarrow>
       (case shlex_Split stringType of (parts, err) \<Rightarrow> go_bind err (\<lambda>_. Ok \<lparr>cmd_parts = parts\<rparr>))
   | Err _ \<Rightarrow> go_else (um_slice um) (\<lambda>sliceType. \<lparr>cmd_parts = sliceType\<rparr>) Err
   | Panic \<Rightarrow> Panic)"

definition Command_ToString :: "Command \<Rightarrow> string" where
  "Command_ToString s = join '' '' (cmd_parts s)"

definition Command_Slice :: "Command \<Rightarrow> string list" where
  "Command_Slice s = cmd_parts s"

definition NewCommand :: "string list \<Rightarrow> Command" where
  "NewCommand parts = \<lparr>cmd_parts = parts\<rparr>"

record SliceorMap =
  som_parts :: "(string \<times> string) list"

definition SliceorMap_MarshalYAML :: "SliceorMap \<Rightarrow> (string \<times> string) list" where
  "SliceorMap_MarshalYAML s = som_parts s"

text \<open>One entry of the list form, \<open>key=value\<close> or a bare key.\<close>

definition SliceorMap_entry :: "string \<Rightarrow> (string \<times> string) list \<Rightarrow> (string \<times> string) list" where
  "SliceorMap_entry slice mapType =
     (let keyValueSlice = split2 (CHR ''='') (trim_space slice)
      in alist_set (keyValueSlice ! 0)
           (if length keyValueSlice = 2 then keyValueSlice ! 1 else []) mapType)"

definition SliceorMap_UnmarshalYAML :: "unmarshaler \<Rightarrow> SliceorMap go" where
  "SliceorMap_UnmarshalYAML um =
     go_else (um_map um) (\<lambda>mapType. \<lparr>som_parts = mapType\<rparr>)
       (\<lambda>_. go_else (um_slice um)
          (\<lambda>sliceType. \<lparr>som_parts = fold SliceorMap_entry sliceType []\<rparr>) Err)"

definition SliceorMap_MapParts :: "SliceorMap option \<Rightarrow> (string \<times> string) list" where
  "SliceorMap_MapParts s = (case s of None \<Rightarrow> [] | Some s \<Rightarrow> som_parts s)"

definition NewSliceorMap :: "(string \<times> string) list \<Rightarrow> SliceorMap" where
  "NewSliceorMap parts = \<lparr>som_parts = parts\<rparr>"

record MaporEqualSlice =
  moe_parts :: "string list"

definition MaporEqualSlice_MarshalYAML :: "MaporEqualSlice \<Rightarrow> string list" where
  "MaporEqualSlice_MarshalYAML s = moe_parts s"

definition MaporEqualSlice_UnmarshalYAML :: "MaporEqualSlice \<Rightarrow> unmarshaler \<Rightarrow> MaporEqualSlice go" where
  "MaporEqualSlice_UnmarshalYAML s um =
     go_else (um_slice um) (\<lambda>parts. s\<lparr>moe_parts := parts\<rparr>)
       (\<lambda>_. go_else (um_map um)
          (\<lambda>mapType. s\<lparr>moe_parts := moe_parts s @ map (\<lambda>(k, v). join ''='' [k, v]) mapType\<rparr>) Err)"

definition MaporEqualSlice_Slice :: "MaporEqualSlice \<Rightarrow> string list" where
  "MaporEqualSlice_Slice s = moe_parts s"

definition NewMaporEqualSlice :: "string list \<Rightarrow> MaporEqualSlice" where
  "NewMaporEqualSlice parts = \<lparr>moe_parts = parts\<rparr>"

record MaporColonSlice =
  moc_parts :: "string list"

definition MaporColonSlice_MarshalYAML :: "MaporColonSlice \<Rightarrow> string list" where
  "MaporColonSlice_MarshalYAML s = moc_parts s"

definition MaporColonSlice_UnmarshalYAML :: "MaporColonSlice \<Rightarrow> unmarshaler \<Rightarrow> MaporColonSlice go" where
  "MaporColonSlice_UnmarshalYAML s um =
     go_else (um_slice um) (\<lambda>parts. s\<lparr>moc_parts := parts\<rparr>)
       (\<lambda>_. go_else (um_map um)
          (\<lambda>mapType. s\<lparr>moc_parts := moc_parts s @ map (\<lambda>(k, v). join '':'' [k, v]) mapType\<rparr>) Err)"

definition MaporColonSlice_Slice :: "MaporColonSlice \<Rightarrow> string list" where
  "MaporColonSlice_Slice s = moc_parts s"

definition NewMaporColonSlice :: "string list \<Rightarrow> MaporColonSlice" where
  "NewMaporColonSlice parts = \<lparr>moc_parts = parts\<rparr>"

record MaporSpaceSlice =
  mos_parts :: "string list"

definition MaporSpaceSlice_MarshalYAML :: "MaporSpaceSlice \<Rightarrow> string list" where
  "MaporSpaceSlice_MarshalYAML s = mos_parts s"

definition MaporSpaceSlice_UnmarshalYAML :: "MaporSpaceSlice \<Rightarrow> unmarshaler \<Rightarrow> MaporSpaceSlice go" where
  "MaporSpaceSlice_UnmarshalYAML s um =
     go_else (um_slice um) (\<lambda>parts. s\<lparr>mos_parts := parts\<rparr>)
       (\<lambda>_. go_else (um_map um)
          (\<lambda>mapType. s\<lparr>mos_parts := mos_parts s @ map (\<lambda>(k, v). join '' '' [k, v]) mapType\<rparr>) Err)"

definition MaporSpaceSlice_Slice :: "MaporSpaceSlice \<Rightarrow> string list" where
  "MaporSpaceSlice_Slice s = mos_parts s"

definition NewMaporSpaceSlice :: "string list \<Rightarrow> MaporSpaceSlice" where
  "NewMaporSpaceSlice parts = \<lparr>mos_parts = parts\<rparr>"

section \<open>Service configuration\<close>

record ServiceConfig =
  sc_Build :: "string"
  sc_CapAdd :: "string list"
  sc_CapDrop :: "string list"
  sc_CPUSet :: "string"
  sc_CPUShares :: "int"
  sc_Command :: "Command"
  sc_ContainerName :: "string"
  sc_Devices :: "string list"
  sc_DNS :: "Stringorslice"
  sc_DNSSearch :: "Stringorslice"
  sc_Dockerfile :: "string"
  sc_DomainName :: "string"
  sc_Entrypoint :: "Command"
  sc_EnvFile :: "Stringorslice"
  sc_Environment :: "MaporEqualSlice"
  sc_Hostname :: "string"
  sc_Image :: "string"
  sc_Labels :: "SliceorMap"
  sc_Links :: "MaporColonSlice"
  sc_LogDriver :: "string"
  sc_MemLimit :: "int"
  sc_MemSwapLimit :: "int"
  sc_Name :: "string"
  sc_Net :: "string"
  sc_Pid :: "string"
  sc_Uts :: "string"
  sc_Ipc :: "string"
  sc_Ports :: "string list"
  sc_Privileged :: "bool"
  sc_Restart :: "string"
  sc_ReadOnly :: "bool"
  sc_StdinOpen :: "bool"
  sc_SecurityOpt :: "string list"
  sc_Tty :: "bool"
  sc_User :: "string"
  sc_VolumeDriver :: "string"
  sc_Volumes :: "string list"
  sc_VolumesFrom :: "string list"
  sc_WorkingDir :: "string"
  sc_Expose :: "string list"
  sc_ExternalLinks :: "string list"
  sc_LogOpt :: "(string \<times> string) list"
  sc_ExtraHosts :: "string list"

text \<open>The zero value of the struct.\<close>

definition ServiceConfig_zero :: ServiceConfig where
  "ServiceConfig_zero = \<lparr>
    sc_Build = [], sc_CapAdd = [], sc_CapDrop = [], sc_CPUSet = [], sc_CPUShares = 0
    , sc_Command = \<lparr>cmd_parts = []\<rparr>, sc_ContainerName = [], sc_Devices = []
    , sc_DNS = \<lparr>sos_parts = []\<rparr>, sc_DNSSearch = \<lparr>sos_parts = []\<rparr>
    , sc_Dockerfile = [], sc_DomainName = [], sc_Entrypoint = \<lparr>cmd_parts = []\<rparr>
    , sc_EnvFile = \<lparr>sos_parts = []\<rparr>
    , sc_Environment = \<lparr>moe_parts = []\<rparr>, sc_Hostname = [], sc_Image = []
    , sc_Labels = \<lparr>som_parts = []\<rparr>, sc_Links = \<lparr>moc_parts = []\<rparr>
    , sc_LogDriver = [], sc_MemLimit = 0, sc_MemSwapLimit = 0, sc_Name = [], sc_Net = []
    , sc_Pid = [], sc_Uts = [], sc_Ipc = [], sc_Ports = [], sc_Privileged = False
    , sc_Restart = [], sc_ReadOnly = False, sc_StdinOpen = False, sc_SecurityOpt = []
    , sc_Tty = False, sc_User = [], sc_VolumeDriver = [], sc_Volumes = []
    , sc_VolumesFrom = [], sc_WorkingDir = [], sc_Expose = [], sc_ExternalLinks = []
    , sc_LogOpt = [], sc_ExtraHosts = []\<rparr>"

section \<open>Services and their relationships\<close>

datatype ServiceRelationshipType = RelTypeLink | RelTypeNetNamespace | RelTypeIpcNamespace | RelTypeVolumesFrom

record ServiceRelationship =
  rel_Target :: string
  rel_Alias :: string
  rel_Type :: ServiceRelationshipType
  rel_Optional :: bool

definition NameAlias :: "string \<Rightarrow> string \<times> string" where
  "NameAlias name =
     (let parts = split2 (CHR '':'') name
      in if length parts = 2 then (parts ! 0, parts ! 1) else (parts ! 0, parts ! 0))"

definition NewServiceRelationship :: "string \<Rightarrow> ServiceRelationshipType \<Rightarrow> ServiceRelationship" where
  "NewServiceRelationship nameAlias relType =
     (let (name, alias) = NameAlias nameAlias
      in \<lparr>rel_Target = name, rel_Alias = alias, rel_Type = relType, rel_Optional = False\<rparr>)"

text \<open>The container modes of \<open>runconfig/hostconfig.go\<close>.\<close>

definition IpcMode_IsHost :: "string \<Rightarrow> bool" where
  "IpcMode_IsHost n \<longleftrightarrow> n = ''host''"

definition IpcMode_IsContainer :: "string \<Rightarrow> bool" where
  "IpcMode_IsContainer n =
     (let parts = split2 (CHR '':'') n in length parts > 1 \<and> parts ! 0 = ''container'')"

definition IpcMode_IsPrivate :: "string \<Rightarrow> bool" where
  "IpcMode_IsPrivate n \<longleftrightarrow> \<not> (IpcMode_IsHost n \<or> IpcMode_IsContainer n)"

definition IpcMode_Valid :: "string \<Rightarrow> bool" where
  "IpcMode_Valid n =
     (let parts = split_on (CHR '':'') n; mode = parts ! 0
      in if mode = [] \<or> mode = ''host'' then True
         else if mode = ''container'' then \<not> (length parts \<noteq> 2 \<or> parts ! 1 = [])
         else False)"

definition IpcMode_Container :: "string \<Rightarrow> string" where
  "IpcMode_Container n =
     (let parts = split2 (CHR '':'') n in if length parts > 1 then parts ! 1 else [])"

definition UTSMode_IsHost :: "string \<Rightarrow> bool" where
  "UTSMode_IsHost n \<longleftrightarrow> n = ''host''"

definition UTSMode_IsPrivate :: "string \<Rightarrow> bool" where
  "UTSMode_IsPrivate n \<longleftrightarrow> \<not> UTSMode_IsHost n"

definition UTSMode_Valid :: "string \<Rightarrow> bool" where
  "UTSMode_Valid n = (let mode = split_on (CHR '':'') n ! 0 in mode = [] \<or> mode = ''host'')"

definition PidMode_IsHost :: "string \<Rightarrow> bool" where
  "PidMode_IsHost n \<longleftrightarrow> n = ''host''"

definition PidMode_IsPrivate :: "string \<Rightarrow> bool" where
  "PidMode_IsPrivate n \<longleftrightarrow> \<not> PidMode_IsHost n"

definition PidMode_Valid :: "string \<Rightarrow> bool" where
  "PidMode_Valid n = (let mode = split_on (CHR '':'') n ! 0 in mode = [] \<or> mode = ''host'')"

text \<open>
  \<open>utils.go\<close>.  Of the project only its configurations are read, as an association list from service
  name to configuration.
\<close>

definition GetContainerFromIpcLikeConfig :: "(string \<times> ServiceConfig) list \<Rightarrow> string \<Rightarrow> string" where
  "GetContainerFromIpcLikeConfig configs conf =
     (if \<not> IpcMode_IsContainer conf then []
      else let name = IpcMode_Container conf
           in if name = [] then []
              else if map_of configs name \<noteq> None then name else [])"

definition appendNs :: "(string \<times> ServiceConfig) list \<Rightarrow> ServiceRelationship list \<Rightarrow> string \<Rightarrow>
    ServiceRelationshipType \<Rightarrow> ServiceRelationship list" where
  "appendNs configs rels conf relType =
     (let service = GetContainerFromIpcLikeConfig configs conf
      in if service \<noteq> [] then rels @ [NewServiceRelationship service relType] else rels)"

text \<open>The second argument is the configuration the service reports, nil or not.\<close>

definition DefaultDependentServices :: "(string \<times> ServiceConfig) list \<Rightarrow> ServiceConfig option \<Rightarrow>
    ServiceRelationship list" where
  "DefaultDependentServices configs config = (case config of
     None \<Rightarrow> []
   | Some c \<Rightarrow>
       let result = map (\<lambda>link. NewServiceRelationship link RelTypeLink)
                      (MaporColonSlice_Slice (sc_Links c));
           result = result @ map (\<lambda>v. NewServiceRelationship v RelTypeVolumesFrom) (sc_VolumesFrom c);
           result = appendNs configs result (sc_Net c) RelTypeNetNamespace
       in appendNs configs result (sc_Ipc c) RelTypeIpcNamespace)"

section \<open>Facts about the decoders and relationships\<close>

lemma NameAlias_plain: "CHR '':'' \<notin> set n \<Longrightarrow> NameAlias n = (n, n)"
  by (simp add: NameAlias_def split2_no_sep)

lemma NameAlias_colon: "CHR '':'' \<notin> set n \<Longrightarrow> NameAlias (n @ CHR '':'' # a) = (n, a)"
  by (simp add: NameAlias_def split2_sep)

lemma IpcMode_container: "IpcMode_IsContainer (''container:'' @ name)"
  "IpcMode_Container (''container:'' @ name) = name"
  using split2_sep [of "CHR '':''" "''container''" name]
  by (simp_all add: IpcMode_IsContainer_def IpcMode_Container_def)

lemma IpcMode_IsContainer_iff: "IpcMode_IsContainer n \<longleftrightarrow> (\<exists>name. n = ''container:'' @ name)"
proof
  assume c: "IpcMode_IsContainer n"
  show "\<exists>name. n = ''container:'' @ name"
    by (rule split2_cases [of "CHR '':''" n]) (use c in \<open>auto simp: IpcMode_IsContainer_def\<close>)
qed (auto simp: IpcMode_container(1) [simplified])

lemma SliceorMap_entry_map_of:
  assumes "CHR ''='' \<notin> set k" and "trim_space (k @ CHR ''='' # v) = k @ CHR ''='' # v"
  shows "map_of (SliceorMap_entry (k @ CHR ''='' # v) m) = (map_of m)(k \<mapsto> v)"
  using assms split2_sep [of "CHR ''=''" k v] by (simp add: SliceorMap_entry_def)

lemma map_of_fold_entry:
  assumes "\<forall>(k, v) \<in> set kvs. CHR ''='' \<notin> set k \<and> trim_space (k @ CHR ''='' # v) = k @ CHR ''='' # v"
  shows "map_of (fold SliceorMap_entry (map (\<lambda>(k, v). join ''='' [k, v]) kvs) m)
       = map_of m ++ map_of (rev kvs)"
  using assms
proof (induction kvs arbitrary: m)
  case (Cons kv kvs)
  obtain k v where kv: "kv = (k, v)" by (cases kv)
  with Cons show ?case
    using SliceorMap_entry_map_of [of k v m]
    by (simp add: map_add_def fun_eq_iff split: option.split)
qed simp

text \<open>
  the list form and the map form of labels mean the same. A node that is a list of
  \<open>key=value\<close> strings decodes to the same map as the node that is the map of these entries, for
  distinct keys that hold no equals sign and entries with no surrounding space.
\<close>

theorem SliceorMap_list_form:
  assumes "distinct (map fst kvs)"
    and "\<forall>(k, v) \<in> set kvs. CHR ''='' \<notin> set k \<and> trim_space (k @ CHR ''='' # v) = k @ CHR ''='' # v"
  shows "\<exists>s t. SliceorMap_UnmarshalYAML
             \<lparr>um_slice = Ok (map (\<lambda>(k, v). join ''='' [k, v]) kvs), um_string = Err e, um_map = Err e\<rparr> = Ok s
         \<and> SliceorMap_UnmarshalYAML \<lparr>um_slice = Err e', um_string = Err e', um_map = Ok kvs\<rparr> = Ok t
         \<and> map_of (SliceorMap_MapParts (Some s)) = map_of (SliceorMap_MapParts (Some t))"
proof -
  have "map_of (rev kvs) = map_of kvs"
    using assms(1) by (simp add: map_of_rev_distinct)
  then show ?thesis
    using map_of_fold_entry [OF assms(2), of "[]"]
    by (simp add: SliceorMap_UnmarshalYAML_def SliceorMap_MapParts_def)
qed

theorem SliceorMap_list_form_witness:
  "\<exists>s t. SliceorMap_UnmarshalYAML
       \<lparr>um_slice = Ok (map (\<lambda>(k, v). join ''='' [k, v]) [(''a'', ''1''), (''b'', ''2'')]),
        um_string = Err [], um_map = Err []\<rparr> = Ok s
     \<and> SliceorMap_UnmarshalYAML
       \<lparr>um_slice = Err [], um_string = Err [], um_map = Ok [(''a'', ''1''), (''b'', ''2'')]\<rparr> = Ok t
     \<and> map_of (SliceorMap_MapParts (Some s)) = map_of (SliceorMap_MapParts (Some t))"
  by (rule SliceorMap_list_form) (auto simp: trim_space_def is_space_def)

text \<open>
  The list that \<open>MarshalYAML\<close> writes is read back by \<open>UnmarshalYAML\<close> as the value it came from,
  whatever the receiver held before.
\<close>

lemma slices_marshal_roundtrip:
  "Stringorslice_UnmarshalYAML \<lparr>um_slice = Ok (Stringorslice_MarshalYAML s), um_string = e, um_map = e'\<rparr> = Ok s"
  "MaporEqualSlice_UnmarshalYAML eq0 \<lparr>um_slice = Ok (MaporEqualSlice_MarshalYAML eq), um_string = e, um_map = e'\<rparr> = Ok eq"
  "MaporColonSlice_UnmarshalYAML co0 \<lparr>um_slice = Ok (MaporColonSlice_MarshalYAML co), um_string = e, um_map = e'\<rparr> = Ok co"
  "MaporSpaceSlice_UnmarshalYAML sp0 \<lparr>um_slice = Ok (MaporSpaceSlice_MarshalYAML spc), um_string = e, um_map = e'\<rparr> = Ok spc"
  by (simp_all add: Stringorslice_UnmarshalYAML_def Stringorslice_MarshalYAML_def
      MaporEqualSlice_UnmarshalYAML_def MaporEqualSlice_MarshalYAML_def MaporColonSlice_UnmarshalYAML_def
      MaporColonSlice_MarshalYAML_def MaporSpaceSlice_UnmarshalYAML_def MaporSpaceSlice_MarshalYAML_def)

end
