(* ===== verification/Docker_Convert.thy ===== *)
theory Docker_Convert
  imports Docker_Nat Project_Types
begin

text \<open>
  The conversion of a compose service to the configuration of a docker container: \<open>libcompose/docker/convert.go\<close>
  over the types and parsers of \<open>docker/runconfig\<close> (\<open>config.go\<close>, \<open>hostconfig.go\<close>, \<open>parse.go\<close>).
\<close>

section \<open>The types of runconfig\<close>

text \<open>The entry point, the command and the capability lists may be nil.\<close>

record Entrypoint =
  ep_parts :: "string list"

definition NewEntrypoint :: "string list \<Rightarrow> Entrypoint" where
  "NewEntrypoint parts = \<lparr>ep_parts = parts\<rparr>"

definition Entrypoint_Slice :: "Entrypoint option \<Rightarrow> string list" where
  "Entrypoint_Slice e = (case e of None \<Rightarrow> [] | Some e \<Rightarrow> ep_parts e)"

definition Entrypoint_Len :: "Entrypoint option \<Rightarrow> nat" where
  "Entrypoint_Len e = (case e of None \<Rightarrow> 0 | Some e \<Rightarrow> length (ep_parts e))"

record runconfig_Command =
  rc_parts :: "string list"

definition runconfig_NewCommand :: "string list \<Rightarrow> runconfig_Command" where
  "runconfig_NewCommand parts = \<lparr>rc_parts = parts\<rparr>"

definition runconfig_Command_Slice :: "runconfig_Command option \<Rightarrow> string list" where
  "runconfig_Command_Slice e = (case e of None \<Rightarrow> [] | Some e \<Rightarrow> rc_parts e)"

definition runconfig_Command_ToString :: "runconfig_Command \<Rightarrow> string" where
  "runconfig_Command_ToString e = join '' '' (rc_parts e)"

record CapList =
  cl_caps :: "string list"

definition NewCapList :: "string list \<Rightarrow> CapList" where
  "NewCapList caps = \<lparr>cl_caps = caps\<rparr>"

definition CapList_Slice :: "CapList option \<Rightarrow> string list" where
  "CapList_Slice c = (case c of None \<Rightarrow> [] | Some c \<Rightarrow> cl_caps c)"

record DeviceMapping =
  PathOnHost :: string
  PathInContainer :: string
  CgroupPermissions :: string

record RestartPolicy =
  rp_Name :: string
  rp_MaximumRetryCount :: int

definition RestartPolicy_IsNone :: "RestartPolicy \<Rightarrow> bool" where
  "RestartPolicy_IsNone rp \<longleftrightarrow> rp_Name rp = ''no''"

definition RestartPolicy_IsAlways :: "RestartPolicy \<Rightarrow> bool" where
  "RestartPolicy_IsAlways rp \<longleftrightarrow> rp_Name rp = ''always''"

definition RestartPolicy_IsOnFailure :: "RestartPolicy \<Rightarrow> bool" where
  "RestartPolicy_IsOnFailure rp \<longleftrightarrow> rp_Name rp = ''on-failure''"

record LogConfig =
  lg_Type :: string
  lg_Config :: "(string \<times> string) list"

text \<open>Of the two configurations, the fields that the conversion sets; the others keep their zero values.\<close>

record Config =
  cf_Hostname :: string
  cf_Domainname :: string
  cf_User :: string
  cf_ExposedPorts :: "Port set"
  cf_Tty :: bool
  cf_OpenStdin :: bool
  cf_Env :: "string list"
  cf_Cmd :: runconfig_Command
  cf_Image :: string
  cf_Volumes :: "string set"
  cf_VolumeDriver :: string
  cf_WorkingDir :: string
  cf_Entrypoint :: Entrypoint
  cf_Labels :: "(string \<times> string) list"

record HostConfig =
  hc_Binds :: "string list"
  hc_Memory :: int
  hc_MemorySwap :: int
  hc_CPUShares :: int
  hc_CpusetCpus :: string
  hc_Privileged :: bool
  hc_PortBindings :: "Port \<rightharpoonup> PortBinding list"
  hc_DNS :: "string list"
  hc_DNSSearch :: "string list"
  hc_ExtraHosts :: "string list"
  hc_VolumesFrom :: "string list"
  hc_Devices :: "DeviceMapping list"
  hc_NetworkMode :: string
  hc_IpcMode :: string
  hc_PidMode :: string
  hc_UTSMode :: string
  hc_CapAdd :: CapList
  hc_CapDrop :: CapList
  hc_RestartPolicy :: RestartPolicy
  hc_SecurityOpt :: "string list"
  hc_ReadonlyRootfs :: bool
  hc_LogConfig :: LogConfig

section \<open>Parsers\<close>

definition atoi_error :: "string \<Rightarrow> string" where
  "atoi_error s = ''strconv.ParseInt: parsing '' @ [CHR 0x22] @ s @ [CHR 0x22] @
     (if (case s of [] \<Rightarrow> False | c # cs \<Rightarrow> parse_nat (if c = CHR ''-'' \<or> c = CHR ''+'' then cs else s) \<noteq> None)
      then '': value out of range'' else '': invalid syntax'')"

definition ParseRestartPolicy :: "string \<Rightarrow> RestartPolicy go" where
  "ParseRestartPolicy policy =
     (if policy = [] then Ok \<lparr>rp_Name = [], rp_MaximumRetryCount = 0\<rparr>
      else
        (let parts = split_on (CHR '':'') policy; name = hd parts; p = \<lparr>rp_Name = name, rp_MaximumRetryCount = 0\<rparr>
         in if name = ''always'' then
              (if length parts > 1
               then Err (''maximum restart count not valid with restart policy of '' @ [CHR 0x22] @ ''always'' @ [CHR 0x22])
               else Ok p)
            else if name = ''no'' then Ok p
            else if name = ''on-failure'' then
              (if length parts > 2
               then Err (''restart count format is not valid, usage: '' @ [CHR 0x27] @ ''on-failure:N'' @ [CHR 0x27] @ '' or '' @ [CHR 0x27] @ ''on-failure'' @ [CHR 0x27])
               else if length parts = 2 then
                 (case atoi (parts ! 1) of
                    None \<Rightarrow> Err (atoi_error (parts ! 1))
                  | Some count \<Rightarrow> Ok (p\<lparr>rp_MaximumRetryCount := count\<rparr>))
               else Ok p)
            else Err (''invalid restart policy '' @ name)))"

definition ParseDevice :: "string \<Rightarrow> DeviceMapping go" where
  "ParseDevice device =
     (let mapping = (\<lambda>src dst permissions. Ok \<lparr>PathOnHost = src, PathInContainer = (if dst = [] then src else dst),
        CgroupPermissions = permissions\<rparr>)
      in case split_on (CHR '':'') device of
           [src] \<Rightarrow> mapping src [] ''rwm''
         | [src, dst] \<Rightarrow> mapping src dst ''rwm''
         | [src, dst, permissions] \<Rightarrow> mapping src dst permissions
         | _ \<Rightarrow> Err (''Invalid device specification: '' @ device))"

definition parseDevices :: "string list \<Rightarrow> DeviceMapping list go" where
  "parseDevices devices = go_map ParseDevice devices"

text \<open>For \<open>docker run\<close>: options as \<open>key=value\<close> texts.\<close>

definition convertKVStringsToMap :: "string list \<Rightarrow> string \<rightharpoonup> string" where
  "convertKVStringsToMap values =
     fold (\<lambda>value result. case split2 (CHR ''='') value of
         [k] \<Rightarrow> result(k \<mapsto> [])
       | k # v # _ \<Rightarrow> result(k \<mapsto> v)
       | [] \<Rightarrow> result) values Map.empty"

definition parseLoggingOpts :: "string \<Rightarrow> string list \<Rightarrow> (string \<rightharpoonup> string) go" where
  "parseLoggingOpts loggingDriver loggingOpts =
     (if loggingDriver = ''none'' \<and> loggingOpts \<noteq> [] then Err (''Invalid logging opts for driver '' @ loggingDriver)
      else Ok (convertKVStringsToMap loggingOpts))"

section \<open>The conversion\<close>

definition isBind :: "string \<Rightarrow> bool" where
  "isBind s \<longleftrightarrow> CHR '':'' \<in> set s"

definition isVolume :: "string \<Rightarrow> bool" where
  "isVolume s \<longleftrightarrow> \<not> isBind s"

definition docker_Filter :: "string list \<Rightarrow> (string \<Rightarrow> bool) \<Rightarrow> string list" where
  "docker_Filter vs f = filter f vs"

definition Convert :: "ServiceConfig \<Rightarrow> (Config \<times> HostConfig) go" where
  "Convert c =
     go_bind (ParsePortSpecs (sc_Ports c)) (\<lambda>(ports, binding).
     go_bind (ParseRestartPolicy (sc_Restart c)) (\<lambda>restart.
     go_bind (ParsePortSpecs (sc_Expose c)) (\<lambda>(exposedPorts, _).
     go_bind (parseDevices (sc_Devices c)) (\<lambda>deviceMappings.
       Ok (\<lparr>cf_Hostname = sc_Hostname c, cf_Domainname = sc_DomainName c, cf_User = sc_User c,
             cf_ExposedPorts = ports \<union> exposedPorts, cf_Tty = sc_Tty c, cf_OpenStdin = sc_StdinOpen c,
             cf_Env = MaporEqualSlice_Slice (sc_Environment c), cf_Cmd = runconfig_NewCommand (Command_Slice (sc_Command c)),
             cf_Image = sc_Image c, cf_Volumes = set (docker_Filter (sc_Volumes c) isVolume),
             cf_VolumeDriver = sc_VolumeDriver c, cf_WorkingDir = sc_WorkingDir c,
             cf_Entrypoint = NewEntrypoint (Command_Slice (sc_Entrypoint c)),
             cf_Labels = SliceorMap_MapParts (Some (sc_Labels c))\<rparr>,
           \<lparr>hc_Binds = docker_Filter (sc_Volumes c) isBind, hc_Memory = sc_MemLimit c, hc_MemorySwap = sc_MemSwapLimit c,
             hc_CPUShares = sc_CPUShares c, hc_CpusetCpus = sc_CPUSet c, hc_Privileged = sc_Privileged c,
             hc_PortBindings = binding, hc_DNS = Stringorslice_Slice (Some (sc_DNS c)),
             hc_DNSSearch = Stringorslice_Slice (Some (sc_DNSSearch c)), hc_ExtraHosts = sc_ExtraHosts c,
             hc_VolumesFrom = sc_VolumesFrom c, hc_Devices = deviceMappings, hc_NetworkMode = sc_Net c,
             hc_IpcMode = sc_Ipc c, hc_PidMode = sc_Pid c, hc_UTSMode = sc_Uts c, hc_CapAdd = NewCapList (sc_CapAdd c),
             hc_CapDrop = NewCapList (sc_CapDrop c), hc_RestartPolicy = restart, hc_SecurityOpt = sc_SecurityOpt c,
             hc_ReadonlyRootfs = sc_ReadOnly c,
             hc_LogConfig = \<lparr>lg_Type = sc_LogDriver c, lg_Config = sc_LogOpt c\<rparr>\<rparr>)))))"

section \<open>No panics\<close>

lemma split_on_two: "c \<in> set s \<Longrightarrow> \<exists>p q rest. split_on c s = p # q # rest"
proof (induction s)
  case (Cons x xs)
  show ?case
  proof (cases "x = c")
    case True
    then show ?thesis by (cases "split_on c xs") simp_all
  next
    case False
    with Cons obtain p q rest where "split_on c xs = p # q # rest" by auto
    with False show ?thesis by simp
  qed
qed simp

lemma ParsePortRange_no_Panic [simp]: "ParsePortRange s \<noteq> Panic"
  using split_on_two [of "CHR ''-''" s] by (auto simp: ParsePortRange_def go_bind_Panic_iff split: list.splits)

lemma PartParser_no_Panic [simp]: "PartParser t d \<noteq> Panic"
  by (simp add: PartParser_def Let_def)

lemma parse_port_spec_no_Panic [simp]: "parse_port_spec s \<noteq> Panic"
proof -
  have "(if b then ParsePortRange s else Ok (0, 0)) \<noteq> Panic" for b s by simp
  then show ?thesis
    unfolding parse_port_spec_def Let_def
    by (auto simp: go_bind_Panic_iff simp del: if_split split: prod.splits go.splits if_split_asm)
qed

lemma go_fold_no_Panic: "(\<And>x s. x \<in> set xs \<Longrightarrow> f x s \<noteq> Panic) \<Longrightarrow> go_fold f xs s \<noteq> Panic"
  by (induction xs arbitrary: s) (auto simp: go_bind_Panic_iff)

lemma bind_ports_no_Panic [simp]: "go_fold (bind_port r) is st \<noteq> Panic"
  by (rule go_fold_no_Panic) (simp add: bind_port_def NewPort_def ParsePort_def go_bind_Panic_iff)

lemma ParsePortSpecs_no_Panic [simp]: "ParsePortSpecs specs \<noteq> Panic"
  unfolding ParsePortSpecs_def by (rule go_fold_no_Panic) (simp add: add_port_spec_def go_bind_Panic_iff)

lemma ParseRestartPolicy_no_Panic [simp]: "ParseRestartPolicy s \<noteq> Panic"
  by (simp add: ParseRestartPolicy_def Let_def split: option.split)

lemma parseDevices_no_Panic [simp]: "parseDevices ds \<noteq> Panic"
  unfolding parseDevices_def by (rule go_map_no_Panic) (simp add: ParseDevice_def Let_def split: list.split)

lemma parseDevices_Ok:
  assumes "parseDevices ds = Ok ms"
  shows "map PathOnHost ms = map (\<lambda>d. hd (split_on (CHR '':'') d)) ds"
proof -
  have each: "PathOnHost m = hd (split_on (CHR '':'') d)" if "ParseDevice d = Ok m" for d m
    using that by (auto simp: ParseDevice_def Let_def split: list.splits)
  from assms have "list_all2 (\<lambda>d m. ParseDevice d = Ok m) ds ms" by (simp add: parseDevices_def go_map_Ok_list_all2)
  then show ?thesis by (induction rule: list_all2_induct) (simp_all add: each)
qed

section \<open>Properties\<close>

text \<open>
  C32: The conversion never panics, and fails exactly when a port, the restart policy, an exposed port or a device
  is not accepted.  Otherwise every volume is in exactly one of the two configurations, as a bind when it has a colon; a port
  with bindings is exposed, and a port is exposed without bindings only on account of \<open>expose\<close>; and
  the devices are mapped from the given paths in their order.
\<close>

theorem Convert_places:
  "Convert c \<noteq> Panic \<and>
   (go_ok (Convert c) \<longleftrightarrow> go_ok (ParsePortSpecs (sc_Ports c)) \<and> go_ok (ParseRestartPolicy (sc_Restart c)) \<and>
      go_ok (ParsePortSpecs (sc_Expose c)) \<and> go_ok (parseDevices (sc_Devices c))) \<and>
   (case Convert c of
      Ok (config, hostConfig) \<Rightarrow>
        set (hc_Binds hostConfig) = {v \<in> set (sc_Volumes c). CHR '':'' \<in> set v} \<and>
        cf_Volumes config = {v \<in> set (sc_Volumes c). CHR '':'' \<notin> set v} \<and>
        (\<exists>ports exposed bindings. ParsePortSpecs (sc_Ports c) = Ok (ports, hc_PortBindings hostConfig) \<and>
           ParsePortSpecs (sc_Expose c) = Ok (exposed, bindings) \<and> cf_ExposedPorts config = ports \<union> exposed \<and>
           dom (hc_PortBindings hostConfig) = ports) \<and>
        map PathOnHost (hc_Devices hostConfig) = map (\<lambda>d. hd (split_on (CHR '':'') d)) (sc_Devices c)
    | _ \<Rightarrow> True)"
proof (intro conjI)
  have dom_eq: "dom (snd m) = fst m" if "ParsePortSpecs specs = Ok m" for specs m
    using that port_maps_of_dom by (auto simp: ParsePortSpecs_Ok)
  show "Convert c \<noteq> Panic" by (auto simp: Convert_def go_bind_Panic_iff split: prod.splits)
  show "go_ok (Convert c) \<longleftrightarrow> go_ok (ParsePortSpecs (sc_Ports c)) \<and> go_ok (ParseRestartPolicy (sc_Restart c)) \<and>
      go_ok (ParsePortSpecs (sc_Expose c)) \<and> go_ok (parseDevices (sc_Devices c))"
    by (force simp: Convert_def go_ok_iff go_bind_Ok_iff split: prod.splits)
  show "case Convert c of Ok (config, hostConfig) \<Rightarrow>
        set (hc_Binds hostConfig) = {v \<in> set (sc_Volumes c). CHR '':'' \<in> set v} \<and>
        cf_Volumes config = {v \<in> set (sc_Volumes c). CHR '':'' \<notin> set v} \<and>
        (\<exists>ports exposed bindings. ParsePortSpecs (sc_Ports c) = Ok (ports, hc_PortBindings hostConfig) \<and>
           ParsePortSpecs (sc_Expose c) = Ok (exposed, bindings) \<and> cf_ExposedPorts config = ports \<union> exposed \<and>
           dom (hc_PortBindings hostConfig) = ports) \<and>
        map PathOnHost (hc_Devices hostConfig) = map (\<lambda>d. hd (split_on (CHR '':'') d)) (sc_Devices c)
    | _ \<Rightarrow> True"
  proof (cases "Convert c")
    case (Ok r)
    then obtain ports binding restart exposed bindings ms where
      p: "ParsePortSpecs (sc_Ports c) = Ok (ports, binding)" "ParsePortSpecs (sc_Expose c) = Ok (exposed, bindings)"
        "parseDevices (sc_Devices c) = Ok ms" "ParseRestartPolicy (sc_Restart c) = Ok restart"
      by (auto simp: Convert_def go_bind_Ok_iff split: prod.splits)
    then show ?thesis
      using dom_eq [OF p(1)] parseDevices_Ok [OF p(3)]
      by (auto simp: Convert_def docker_Filter_def isBind_def isVolume_def)
  qed simp_all
qed

end
