(* ===== verification/Service_Hash.thy ===== *)
theory Service_Hash
  imports Project_Types "HOL-Library.List_Lexorder" "HOL-Library.Char_ord" "HOL-Library.Multiset"
begin

text \<open>
  The hash of a service, \<open>libcompose/project/hash.go\<close>: the text that is written to the digest, and what computing
  it does to the configuration.  SHA-1 is a parameter, and so is the order in which \<open>%v\<close> prints a map.
\<close>

section \<open>The text\<close>

text \<open>A field by the cases of the type switch; the strings compare as lists of bytes.\<close>

datatype hash_value =
    HashMap "(string \<times> string) list" | HashParts "string list" | HashSorted "string list" | HashOther string

definition hash_parts :: "string list \<Rightarrow> string" where
  "hash_parts ss = concat (map (\<lambda>s. s @ '', '') ss)"

definition hash_label_keys :: "(string \<times> string) list \<Rightarrow> string list" where
  "hash_label_keys m = sort (filter (\<lambda>k. k \<noteq> ''io.rancher.os.hash'') (map fst m))"

fun hash_value_text :: "hash_value \<Rightarrow> string" where
  "hash_value_text (HashMap m) =
     concat (map (\<lambda>k. k @ ''='' @ the (map_of m k) @ '', '') (hash_label_keys m))"
| "hash_value_text (HashParts ss) = hash_parts ss"
| "hash_value_text (HashSorted ss) = hash_parts (sort ss)"
| "hash_value_text (HashOther t) = t"

text \<open>\<open>%v\<close> of a boolean and of a map.\<close>

definition show_bool :: "bool \<Rightarrow> string" where
  "show_bool b = (if b then ''true'' else ''false'')"

definition show_map :: "(string \<times> string) list \<Rightarrow> string" where
  "show_map m = ''map['' @ join '' '' (map (\<lambda>(k, v). k @ '':'' @ v) m) @ '']''"

text \<open>The fields with their names, in the order of the struct.\<close>

definition hash_fields :: "((string \<times> string) list \<Rightarrow> (string \<times> string) list) \<Rightarrow> ServiceConfig \<Rightarrow> (string \<times> hash_value) list" where
  "hash_fields order c =
     [(''Build'', HashOther (sc_Build c)), (''CapAdd'', HashSorted (sc_CapAdd c)), (''CapDrop'', HashSorted (sc_CapDrop c)),
      (''CPUSet'', HashOther (sc_CPUSet c)), (''CPUShares'', HashOther (show_int (sc_CPUShares c))),
      (''Command'', HashParts (Command_Slice (sc_Command c))), (''ContainerName'', HashOther (sc_ContainerName c)),
      (''Devices'', HashSorted (sc_Devices c)), (''DNS'', HashSorted (Stringorslice_Slice (Some (sc_DNS c)))),
      (''DNSSearch'', HashSorted (Stringorslice_Slice (Some (sc_DNSSearch c)))), (''Dockerfile'', HashOther (sc_Dockerfile c)),
      (''DomainName'', HashOther (sc_DomainName c)), (''Entrypoint'', HashParts (Command_Slice (sc_Entrypoint c))),
      (''EnvFile'', HashSorted (Stringorslice_Slice (Some (sc_EnvFile c)))),
      (''Environment'', HashParts (MaporEqualSlice_Slice (sc_Environment c))), (''Hostname'', HashOther (sc_Hostname c)),
      (''Image'', HashOther (sc_Image c)), (''Labels'', HashMap (SliceorMap_MapParts (Some (sc_Labels c)))),
      (''Links'', HashParts (MaporColonSlice_Slice (sc_Links c))), (''LogDriver'', HashOther (sc_LogDriver c)),
      (''MemLimit'', HashOther (show_int (sc_MemLimit c))), (''MemSwapLimit'', HashOther (show_int (sc_MemSwapLimit c))),
      (''Name'', HashOther (sc_Name c)), (''Net'', HashOther (sc_Net c)), (''Pid'', HashOther (sc_Pid c)),
      (''Uts'', HashOther (sc_Uts c)), (''Ipc'', HashOther (sc_Ipc c)), (''Ports'', HashSorted (sc_Ports c)),
      (''Privileged'', HashOther (show_bool (sc_Privileged c))), (''Restart'', HashOther (sc_Restart c)),
      (''ReadOnly'', HashOther (show_bool (sc_ReadOnly c))), (''StdinOpen'', HashOther (show_bool (sc_StdinOpen c))),
      (''SecurityOpt'', HashSorted (sc_SecurityOpt c)), (''Tty'', HashOther (show_bool (sc_Tty c))),
      (''User'', HashOther (sc_User c)), (''VolumeDriver'', HashOther (sc_VolumeDriver c)),
      (''Volumes'', HashSorted (sc_Volumes c)), (''VolumesFrom'', HashSorted (sc_VolumesFrom c)),
      (''WorkingDir'', HashOther (sc_WorkingDir c)), (''Expose'', HashSorted (sc_Expose c)),
      (''ExternalLinks'', HashSorted (sc_ExternalLinks c)), (''LogOpt'', HashOther (show_map (order (sc_LogOpt c)))),
      (''ExtraHosts'', HashSorted (sc_ExtraHosts c))]"

text \<open>The name is written by \<open>Sprintln\<close>; the keys are sorted before they are written.\<close>

definition hash_text :: "((string \<times> string) list \<Rightarrow> (string \<times> string) list) \<Rightarrow> string \<Rightarrow> ServiceConfig \<Rightarrow> string" where
  "hash_text order name c =
     (let unsortedKeyValue = map_of (hash_fields order c); serviceKeys = sort (map fst (hash_fields order c))
      in name @ [CHR 0x0A] @
         concat (map (\<lambda>k. [CHR 0x0A] @ ''  '' @ k @ '': '' @ hash_value_text (the (unsortedKeyValue k))) serviceKeys))"

section \<open>The configuration afterwards\<close>

text \<open>
  \<open>sort.Strings\<close> sorts the slice in place, and the slice is the one of the configuration: the fields that are
  sorted for the hash are sorted in the configuration too.
\<close>

definition sorted_strings :: "Stringorslice \<Rightarrow> Stringorslice" where
  "sorted_strings s = \<lparr>sos_parts = sort (sos_parts s)\<rparr>"

definition config_sorted :: "ServiceConfig \<Rightarrow> ServiceConfig" where
  "config_sorted c = c\<lparr>sc_CapAdd := sort (sc_CapAdd c), sc_CapDrop := sort (sc_CapDrop c), sc_Devices := sort (sc_Devices c),
     sc_DNS := sorted_strings (sc_DNS c), sc_DNSSearch := sorted_strings (sc_DNSSearch c),
     sc_EnvFile := sorted_strings (sc_EnvFile c), sc_Ports := sort (sc_Ports c), sc_SecurityOpt := sort (sc_SecurityOpt c),
     sc_Volumes := sort (sc_Volumes c), sc_VolumesFrom := sort (sc_VolumesFrom c), sc_Expose := sort (sc_Expose c),
     sc_ExternalLinks := sort (sc_ExternalLinks c), sc_ExtraHosts := sort (sc_ExtraHosts c)\<rparr>"

text \<open>\<open>hex.EncodeToString\<close>.\<close>

definition hex_digit :: "nat \<Rightarrow> char" where
  "hex_digit n = ''0123456789abcdef'' ! n"

definition hex_encode :: "string \<Rightarrow> string" where
  "hex_encode s = concat (map (\<lambda>c. [hex_digit (of_char c div 16), hex_digit (of_char c mod 16)]) s)"

definition GetServiceHash :: "(string \<Rightarrow> string) \<Rightarrow> ((string \<times> string) list \<Rightarrow> (string \<times> string) list) \<Rightarrow> string \<Rightarrow> ServiceConfig \<Rightarrow>
    string \<times> ServiceConfig" where
  "GetServiceHash sha1 order name c = (hex_encode (sha1 (hash_text order name c)), config_sorted c)"

section \<open>Laws\<close>

lemma sort_sort [simp]: "sort (sort xs) = sort (xs :: 'a :: linorder list)"
  by (intro properties_for_sort) auto

lemma sorted_strings_twice [simp]: "sorted_strings (sorted_strings s) = sorted_strings s"
  by (simp add: sorted_strings_def)

lemma config_sorted_twice [simp]: "config_sorted (config_sorted c) = config_sorted c"
  by (simp add: config_sorted_def)

text \<open>The text depends on the fields only through what is written of each.\<close>

lemma hash_text_cong:
  assumes "list_all2 (\<lambda>(k, v) (k', v'). k = k' \<and> hash_value_text v = hash_value_text v') (hash_fields order c) (hash_fields order' c')"
  shows "hash_text order name c = hash_text order' name c'"
proof -
  have entries: "map fst fs = map fst fs' \<and> (\<forall>k. rel_option (\<lambda>v v'. hash_value_text v = hash_value_text v') (map_of fs k) (map_of fs' k))"
    if "list_all2 (\<lambda>(k, v) (k', v'). k = k' \<and> hash_value_text v = hash_value_text v') fs fs'" for fs fs'
    using that by (induction rule: list_all2_induct) auto
  have "hash_value_text (the (map_of (hash_fields order c) k)) = hash_value_text (the (map_of (hash_fields order' c') k))" for k
    using conjunct2 [OF entries [OF assms], THEN spec, of k]
    by (cases "map_of (hash_fields order c) k"; cases "map_of (hash_fields order' c') k") simp_all
  then show ?thesis
    unfolding hash_text_def Let_def using entries [OF assms] by simp
qed

lemma hash_value_eqI:
  "sort ss = sort ss' \<Longrightarrow> hash_value_text (HashSorted ss) = hash_value_text (HashSorted ss')"
  by simp

lemma hash_labels_eqI:
  assumes "distinct (map fst m)" "distinct (map fst m')" "\<And>k. k \<noteq> ''io.rancher.os.hash'' \<Longrightarrow> map_of m k = map_of m' k"
  shows "hash_value_text (HashMap m) = hash_value_text (HashMap m')"
proof -
  have "set (filter (\<lambda>k. k \<noteq> ''io.rancher.os.hash'') (map fst m)) = set (filter (\<lambda>k. k \<noteq> ''io.rancher.os.hash'') (map fst m'))"
    using assms(3) by (auto simp: map_of_eq_None_iff set_eq_iff simp flip: dom_map_of_conv_image_fst)
  with assms(1,2) have "hash_label_keys m = hash_label_keys m'"
    unfolding hash_label_keys_def by (metis distinct_filter sorted_list_of_set_sort_remdups distinct_remdups_id)
  moreover have "map_of m k = map_of m' k" if "k \<in> set (hash_label_keys m)" for k
    using that assms(3) by (auto simp: hash_label_keys_def)
  ultimately show ?thesis by (auto intro!: arg_cong [of _ _ concat] map_cong)
qed

text \<open>What the hash distinguishes: not the order of the sorted fields, nor the label that holds a hash.\<close>

definition same_for_hash :: "ServiceConfig \<Rightarrow> ServiceConfig \<Rightarrow> bool" where
  "same_for_hash c c' \<longleftrightarrow>
     (config_sorted c)\<lparr>sc_Labels := NewSliceorMap []\<rparr> = (config_sorted c')\<lparr>sc_Labels := NewSliceorMap []\<rparr> \<and>
     distinct (map fst (som_parts (sc_Labels c))) \<and> distinct (map fst (som_parts (sc_Labels c'))) \<and>
     (\<forall>k. k \<noteq> ''io.rancher.os.hash'' \<longrightarrow> map_of (som_parts (sc_Labels c)) k = map_of (som_parts (sc_Labels c')) k)"

lemma same_for_hash_text:
  assumes "same_for_hash c c'"
  shows "hash_text order name c = hash_text order name c'"
proof (rule hash_text_cong)
  have labels: "hash_value_text (HashMap (som_parts (sc_Labels c))) = hash_value_text (HashMap (som_parts (sc_Labels c')))"
    by (rule hash_labels_eqI) (use assms in \<open>auto simp: same_for_hash_def\<close>)
  have fields: "(config_sorted c)\<lparr>sc_Labels := NewSliceorMap []\<rparr> = (config_sorted c')\<lparr>sc_Labels := NewSliceorMap []\<rparr>"
    using assms by (simp add: same_for_hash_def)
  then show "list_all2 (\<lambda>(k, v) (k', v'). k = k' \<and> hash_value_text v = hash_value_text v') (hash_fields order c) (hash_fields order c')"
    using labels unfolding hash_fields_def
    by (cases c; cases c') (simp add: config_sorted_def sorted_strings_def SliceorMap_MapParts_def Stringorslice_Slice_def
      del: hash_value_text.simps(1))
qed

lemma same_for_hash_sorted: "same_for_hash c c' \<Longrightarrow> same_for_hash (config_sorted c) c"
  by (simp add: same_for_hash_def) (simp add: config_sorted_def)

section \<open>Properties\<close>



text \<open>
  The concatenation is not injective: a part with a comma and a space reads as two.
\<close>

lemma hash_text_collision:
  "hash_text order name (c\<lparr>sc_Command := NewCommand [''a, b'']\<rparr>) = hash_text order name (c\<lparr>sc_Command := NewCommand [''a'', ''b'']\<rparr>)"
  by (rule hash_text_cong) (simp add: hash_fields_def Command_Slice_def NewCommand_def hash_parts_def)

text \<open>
  A map of log options is printed in any order, so the hash of one configuration need not be the same twice.
\<close>

lemma log_options_unstable:
  "hash_text id ''web'' (ServiceConfig_zero\<lparr>sc_LogOpt := [(''a'', ''1''), (''b'', ''2'')]\<rparr>) \<noteq>
   hash_text rev ''web'' (ServiceConfig_zero\<lparr>sc_LogOpt := [(''a'', ''1''), (''b'', ''2'')]\<rparr>)"
  by code_simp

end
