(* ===== verification/Interpolation.thy ===== *)
theory Interpolation
  imports Project_Types
begin

text \<open>
  Environment lookups and variable interpolation.  The contract of \<open>project.EnvironmentLookup\<close> is a
  locale; its implementations are \<open>lookup/env.go\<close> of the executor (\<open>MapEnvLookup\<close>) and
  \<open>libcompose/lookup/simple_env.go\<close> (\<open>OsEnvLookup\<close>).  \<open>libcompose/project/interpolation.go\<close> scans
  strings by position; it is modelled with the positions, and shown equal to a reference
  definition that consumes the text from the left.
\<close>

section \<open>Environment lookups\<close>

type_synonym env_lookup = "string \<Rightarrow> string \<Rightarrow> ServiceConfig option \<Rightarrow> string list"

text \<open>The contract: every answer is \<open>key=value\<close> for the key that was asked.\<close>

locale environment_lookup =
  fixes lookup :: "string \<Rightarrow> string \<Rightarrow> 'c \<Rightarrow> string list"
  assumes lookup_keyed: "v \<in> set (lookup key service config) \<Longrightarrow> \<exists>x. v = key @ CHR ''='' # x"
begin

lemma lookup_split:
  assumes "CHR ''='' \<notin> set key" and "lookup key service config = v # vs"
  shows "\<exists>x. split2 (CHR ''='') v = [key, x] \<and> v = key @ CHR ''='' # x"
  using lookup_keyed [of v key service config] assms by (auto simp: split2_sep)

end

text \<open>
  \<open>MapEnvLookup\<close> holds the environment of a stack, a JSON object; \<open>fmt_v\<close> is the rendering of a
  value by the \<open>%v\<close> verb of \<open>fmt.Sprintf\<close>.
\<close>

record 'v MapEnvLookup =
  Env :: "string \<rightharpoonup> 'v"

definition MapEnvLookup_Lookup :: "('v \<Rightarrow> string) \<Rightarrow> 'v MapEnvLookup \<Rightarrow> env_lookup" where
  "MapEnvLookup_Lookup fmt_v m key serviceName config = (case Env m key of
     Some v \<Rightarrow> [key @ ''='' @ fmt_v v]
   | None \<Rightarrow> [])"

text \<open>\<open>OsEnvLookup\<close>; \<open>getenv\<close> gives the empty string for an unset variable.\<close>

definition OsEnvLookup_Lookup :: "(string \<Rightarrow> string) \<Rightarrow> env_lookup" where
  "OsEnvLookup_Lookup getenv key serviceName config =
     (let ret = getenv key in if ret = [] then [] else [key @ ''='' @ ret])"

interpretation map_env: environment_lookup "MapEnvLookup_Lookup fmt_v m" for fmt_v m
  by unfold_locales (auto simp: MapEnvLookup_Lookup_def split: option.splits)

interpretation os_env: environment_lookup "OsEnvLookup_Lookup getenv" for getenv
  by unfold_locales (auto simp: OsEnvLookup_Lookup_def Let_def split: if_splits)

section \<open>Scanning a string\<close>

definition isNum :: "char \<Rightarrow> bool" where
  "isNum c \<longleftrightarrow> is_digit c"

definition validVariableNameChar :: "char \<Rightarrow> bool" where
  "validVariableNameChar c \<longleftrightarrow> c = CHR ''_'' \<or> is_upper c \<or> is_lower c \<or> isNum c"

function parseVariable_loop :: "string \<Rightarrow> nat \<Rightarrow> string \<Rightarrow> (string \<Rightarrow> string go) \<Rightarrow>
    (string \<times> nat \<times> bool) go" where
  "parseVariable_loop line pos buffer mapping =
     (if pos < length line then
        (let c = line ! pos
         in if validVariableNameChar c then parseVariable_loop line (pos + 1) (buffer @ [c]) mapping
            else go_bind (mapping buffer) (\<lambda>s. Ok (s, pos - 1, True)))
      else go_bind (mapping buffer) (\<lambda>s. Ok (s, pos, True)))"
  by pat_completeness auto
termination
  by (relation "measure (\<lambda>(line, pos, _, _). length line - pos)") auto

definition parseVariable :: "string \<Rightarrow> nat \<Rightarrow> (string \<Rightarrow> string go) \<Rightarrow> (string \<times> nat \<times> bool) go" where
  "parseVariable line pos mapping = parseVariable_loop line pos [] mapping"

function parseVariableWithBraces_loop :: "string \<Rightarrow> nat \<Rightarrow> string \<Rightarrow> (string \<Rightarrow> string go) \<Rightarrow>
    (string \<times> nat \<times> bool) go" where
  "parseVariableWithBraces_loop line pos buffer mapping =
     (if pos < length line then
        (let c = line ! pos
         in if c = CHR ''}'' then
              (if buffer = [] then Ok ([], 0, False)
               else go_bind (mapping buffer) (\<lambda>s. Ok (s, pos, True)))
            else if validVariableNameChar c then
              parseVariableWithBraces_loop line (pos + 1) (buffer @ [c]) mapping
            else Ok ([], 0, False))
      else Ok ([], 0, False))"
  by pat_completeness auto
termination
  by (relation "measure (\<lambda>(line, pos, _, _). length line - pos)") auto

definition parseVariableWithBraces :: "string \<Rightarrow> nat \<Rightarrow> (string \<Rightarrow> string go) \<Rightarrow>
    (string \<times> nat \<times> bool) go" where
  "parseVariableWithBraces line pos mapping = parseVariableWithBraces_loop line pos [] mapping"

declare parseVariable_loop.simps [simp del] parseVariableWithBraces_loop.simps [simp del]

text \<open>The index expression \<open>line[pos]\<close> panics past the end of the line.\<close>

definition parseInterpolationExpression :: "string \<Rightarrow> nat \<Rightarrow> (string \<Rightarrow> string go) \<Rightarrow>
    (string \<times> nat \<times> bool) go" where
  "parseInterpolationExpression line pos mapping =
     (if \<not> pos < length line then Panic
      else let c = line ! pos
           in if c = CHR ''$'' then Ok (''$'', pos, True)
              else if c = CHR ''{'' then parseVariableWithBraces line (pos + 1) mapping
              else if \<not> isNum c \<and> validVariableNameChar c then parseVariable line pos mapping
              else Ok ([], 0, False))"

lemma parseVariable_loop_pos:
  "parseVariable_loop line pos buffer mapping = Ok (s, pos', True) \<Longrightarrow> pos \<le> Suc pos'"
proof (induction line pos buffer mapping rule: parseVariable_loop.induct)
  case (1 line pos buffer mapping)
  from "1.prems" show ?case
    by (subst (asm) parseVariable_loop.simps)
      (auto simp: go_bind_Ok_iff Let_def split: if_splits dest: "1.IH" [OF _ refl])
qed

lemma parseVariable_pos:
  assumes "parseVariable line pos mapping = Ok (s, pos', True)"
    and "pos < length line" "validVariableNameChar (line ! pos)"
  shows "pos \<le> pos'"
  using assms parseVariable_loop_pos [of line "Suc pos"]
  by (force simp: parseVariable_def parseVariable_loop.simps [of line pos])

lemma parseVariableWithBraces_loop_pos:
  "parseVariableWithBraces_loop line pos buffer mapping = Ok (s, pos', True) \<Longrightarrow> pos \<le> pos'"
proof (induction line pos buffer mapping rule: parseVariableWithBraces_loop.induct)
  case (1 line pos buffer mapping)
  from "1.prems" show ?case
    by (subst (asm) parseVariableWithBraces_loop.simps)
      (auto simp: go_bind_Ok_iff Let_def split: if_splits dest: "1.IH" [OF _ refl])
qed

lemma parseInterpolationExpression_pos:
  "parseInterpolationExpression line pos mapping = Ok (s, pos', True) \<Longrightarrow> pos \<le> pos'"
  by (auto simp: parseInterpolationExpression_def Let_def parseVariableWithBraces_def
      split: if_splits dest: parseVariable_pos parseVariableWithBraces_loop_pos)

function parseLine_loop :: "string \<Rightarrow> nat \<Rightarrow> string \<Rightarrow> (string \<Rightarrow> string go) \<Rightarrow> (string \<times> bool) go" where
  "parseLine_loop line pos buffer mapping =
     (if pos < length line then
        (let c = line ! pos
         in if c = CHR ''$'' then
              (case parseInterpolationExpression line (pos + 1) mapping of
                 Ok (replaced, pos', success) \<Rightarrow>
                   if \<not> success then Ok ([], False)
                   else parseLine_loop line (pos' + 1) (buffer @ replaced) mapping
               | Err e \<Rightarrow> Err e
               | Panic \<Rightarrow> Panic)
            else parseLine_loop line (pos + 1) (buffer @ [c]) mapping)
      else Ok (buffer, True))"
  by pat_completeness auto
termination
  by (relation "measure (\<lambda>(line, pos, _, _). length line - pos)")
    (auto dest!: parseInterpolationExpression_pos)

declare parseLine_loop.simps [simp del]

definition parseLine :: "string \<Rightarrow> (string \<Rightarrow> string go) \<Rightarrow> (string \<times> bool) go" where
  "parseLine line mapping = parseLine_loop line 0 [] mapping"

section \<open>Interpolating a configuration\<close>

text \<open>
  A decoded YAML value, Go's \<open>interface{}\<close>: a map is the list of its entries in iteration order, a
  float carries its text.
\<close>

datatype yval = YNull | YBool bool | YInt int | YFloat string | YStr string
  | YSeq "yval list" | YMap "(yval \<times> yval) list"

type_synonym RawService = "(string \<times> yval) list"
type_synonym RawServiceMap = "(string \<times> RawService) list"

definition invalid_interpolation :: "string \<Rightarrow> string \<Rightarrow> string \<Rightarrow> string" where
  "invalid_interpolation option service typedData =
     ''Invalid interpolation format for '' @ [CHR 0x22] @ option @ [CHR 0x22] @ '' option in service ''
       @ [CHR 0x22] @ service @ [CHR 0x22] @ '': '' @ [CHR 0x22] @ typedData @ [CHR 0x22]"

fun parseConfig :: "string \<Rightarrow> string \<Rightarrow> (string \<Rightarrow> string go) \<Rightarrow> yval \<Rightarrow> yval go" where
  "parseConfig option service mapping (YStr typedData) =
     go_bind (parseLine typedData mapping) (\<lambda>(interpolatedLine, success).
       if \<not> success then Err (invalid_interpolation option service typedData)
       else Ok (case atoi interpolatedLine of
                  Some lineAsInteger \<Rightarrow> YInt lineAsInteger
                | None \<Rightarrow> YStr interpolatedLine))"
| "parseConfig option service mapping (YSeq typedData) =
     go_bind (go_map (\<lambda>v. parseConfig option service mapping v) typedData) (\<lambda>vs. Ok (YSeq vs))"
| "parseConfig option service mapping (YMap typedData) =
     go_bind (go_map (\<lambda>kv. go_bind (parseConfig option service mapping (snd kv))
                        (\<lambda>v. Ok (fst kv, v))) typedData) (\<lambda>kvs. Ok (YMap kvs))"
| "parseConfig option service mapping v = Ok v"

text \<open>The mapping function of \<open>Interpolate\<close>: the first answer, past its first equals sign.\<close>

definition interpolate_mapping :: "env_lookup \<Rightarrow> string \<Rightarrow> string \<Rightarrow> string go" where
  "interpolate_mapping environmentLookup k s = (case environmentLookup s k None of
     [] \<Rightarrow> Ok []
   | value # _ \<Rightarrow>
       (let parts = split2 (CHR ''='') value
        in if length parts > 1 then Ok (parts ! 1) else Panic))"

definition Interpolate_service :: "env_lookup \<Rightarrow> string \<Rightarrow> RawService \<Rightarrow> RawService go" where
  "Interpolate_service environmentLookup k v =
     go_map (\<lambda>(k2, v2). go_bind (parseConfig k2 k (interpolate_mapping environmentLookup k) v2)
               (\<lambda>v2'. Ok (k2, v2'))) v"

definition Interpolate :: "env_lookup \<Rightarrow> RawServiceMap \<Rightarrow> RawServiceMap go" where
  "Interpolate environmentLookup config =
     go_map (\<lambda>(k, v). go_bind (Interpolate_service environmentLookup k v) (\<lambda>v'. Ok (k, v'))) config"

section \<open>The reference definition\<close>

text \<open>
  Interpolation as a function of the text alone: a dollar sign is followed by a dollar sign, by a
  braced name, or by a name that does not start with a digit.  \<open>None\<close> is a malformed expression.
\<close>

fun prepend :: "string \<Rightarrow> string option go \<Rightarrow> string option go" where
  "prepend a (Ok (Some b)) = Ok (Some (a @ b))"
| "prepend a r = r"

function interp :: "(string \<Rightarrow> string go) \<Rightarrow> string \<Rightarrow> string option go" where
  "interp m [] = Ok (Some [])"
| "interp m (c # rest) =
     (if c \<noteq> CHR ''$'' then prepend [c] (interp m rest)
      else case rest of
        [] \<Rightarrow> Panic
      | d # ds \<Rightarrow>
          if d = CHR ''$'' then prepend ''$'' (interp m ds)
          else if d = CHR ''{'' then
            (let name = takeWhile validVariableNameChar ds
             in case dropWhile validVariableNameChar ds of
                  [] \<Rightarrow> Ok None
                | e # after \<Rightarrow>
                    if e \<noteq> CHR ''}'' \<or> name = [] then Ok None
                    else go_bind (m name) (\<lambda>s. prepend s (interp m after)))
          else if \<not> isNum d \<and> validVariableNameChar d then
            go_bind (m (takeWhile validVariableNameChar rest))
              (\<lambda>s. prepend s (interp m (dropWhile validVariableNameChar rest)))
          else Ok None)"
  by pat_completeness auto

lemma length_dropWhile_Cons: "dropWhile P xs = y # ys \<Longrightarrow> length ys < length xs"
  by (metis length_Cons length_dropWhile_le less_eq_Suc_le)

termination interp
  by (relation "measure (\<lambda>(_, s). length s)")
    (auto simp: less_Suc_eq_le length_dropWhile_le le_SucI dest!: length_dropWhile_Cons)

declare interp.simps(2) [simp del]

text \<open>The result of \<open>parseLine\<close> that stands for an outcome of the reference.\<close>

fun as_line :: "string option go \<Rightarrow> (string \<times> bool) go" where
  "as_line (Ok (Some s)) = Ok (s, True)"
| "as_line (Ok None) = Ok ([], False)"
| "as_line (Err e) = Err e"
| "as_line Panic = Panic"

lemma prepend_prepend [simp]: "prepend a (prepend b r) = prepend (a @ b) r"
  by (cases r rule: as_line.cases) auto

lemma prepend_Nil [simp]: "prepend [] r = r"
  by (cases r rule: as_line.cases) auto

lemma prepend_bind: "prepend a (go_bind m f) = go_bind m (\<lambda>x. prepend a (f x))"
  by (cases m) auto

lemma as_line_bind: "as_line (go_bind m f) = go_bind m (\<lambda>x. as_line (f x))"
  by (cases m) auto

lemma brace_not_valid [simp]: "\<not> validVariableNameChar (CHR ''}'')"
  by (simp add: validVariableNameChar_def is_upper_def is_lower_def isNum_def is_digit_def)

declare dropWhile_eq_Nil_conv [simp del]

text \<open>The two name scanners, in terms of the text after the position.\<close>

lemma parseVariable_loop_eq:
  "parseVariable_loop line pos buffer m =
     (let name = takeWhile validVariableNameChar (drop pos line); n = length name
      in go_bind (m (buffer @ name))
           (\<lambda>s. Ok (s, if pos + n < length line then pos + n - 1 else max pos (length line), True)))"
proof (induction line pos buffer m rule: parseVariable_loop.induct)
  case (1 line pos buffer m)
  show ?case
  proof (cases "pos < length line \<and> validVariableNameChar (line ! pos)")
    case True
    then have d: "drop pos line = line ! pos # drop (Suc pos) line"
      by (simp add: Cons_nth_drop_Suc)
    have "parseVariable_loop line pos buffer m
        = parseVariable_loop line (pos + 1) (buffer @ [line ! pos]) m"
      using True by (subst parseVariable_loop.simps) simp
    with "1.IH" [OF _ refl] True d show ?thesis
      by (simp add: Let_def max_def)
  next
    case False
    then show ?thesis
      by (subst parseVariable_loop.simps)
        (auto simp: Let_def Cons_nth_drop_Suc [symmetric] max_def)
  qed
qed

lemma parseVariableWithBraces_loop_eq:
  "parseVariableWithBraces_loop line pos buffer m =
     (let name = takeWhile validVariableNameChar (drop pos line); n = length name
      in case dropWhile validVariableNameChar (drop pos line) of
           [] \<Rightarrow> Ok ([], 0, False)
         | e # _ \<Rightarrow>
             if e \<noteq> CHR ''}'' \<or> buffer @ name = [] then Ok ([], 0, False)
             else go_bind (m (buffer @ name)) (\<lambda>s. Ok (s, pos + n, True)))"
proof (induction line pos buffer m rule: parseVariableWithBraces_loop.induct)
  case (1 line pos buffer m)
  show ?case
  proof (cases "pos < length line")
    case True
    then have d: "drop pos line = line ! pos # drop (Suc pos) line"
      by (simp add: Cons_nth_drop_Suc)
    show ?thesis
    proof (cases "validVariableNameChar (line ! pos)")
      case valid: True
      then have "line ! pos \<noteq> CHR ''}''" by auto
      then have "parseVariableWithBraces_loop line pos buffer m
          = parseVariableWithBraces_loop line (pos + 1) (buffer @ [line ! pos]) m"
        using True valid by (subst parseVariableWithBraces_loop.simps) simp
      with "1.IH" [OF True refl] \<open>line ! pos \<noteq> CHR ''}''\<close> valid d show ?thesis
        by (auto simp: Let_def split: list.split)
    next
      case False
      with True d show ?thesis
        by (subst parseVariableWithBraces_loop.simps) (auto simp: Let_def)
    qed
  next
    case False
    then show ?thesis
      by (subst parseVariableWithBraces_loop.simps) simp
  qed
qed

text \<open>An expression after a dollar sign, on the position and on the text.\<close>

definition expr_text :: "(string \<Rightarrow> string go) \<Rightarrow> string \<Rightarrow> (string \<times> string) option go" where
  "expr_text m rest = (case rest of
     [] \<Rightarrow> Panic
   | d # ds \<Rightarrow>
       if d = CHR ''$'' then Ok (Some (''$'', ds))
       else if d = CHR ''{'' then
         (let name = takeWhile validVariableNameChar ds
          in case dropWhile validVariableNameChar ds of
               [] \<Rightarrow> Ok None
             | e # after \<Rightarrow>
                 if e \<noteq> CHR ''}'' \<or> name = [] then Ok None
                 else go_bind (m name) (\<lambda>s. Ok (Some (s, after))))
       else if \<not> isNum d \<and> validVariableNameChar d then
         go_bind (m (takeWhile validVariableNameChar rest))
           (\<lambda>s. Ok (Some (s, dropWhile validVariableNameChar rest)))
       else Ok None)"

lemma interp_expr:
  "interp m (c # rest) =
     (if c \<noteq> CHR ''$'' then prepend [c] (interp m rest)
      else go_bind (expr_text m rest) (\<lambda>r. case r of
             None \<Rightarrow> Ok None | Some (s, after) \<Rightarrow> prepend s (interp m after)))"
  by (subst interp.simps(2)) (auto simp: expr_text_def Let_def split: list.split)

lemma drop_dropWhile: "drop (length (takeWhile P xs)) xs = dropWhile P xs"
  by (metis append_eq_conv_conj takeWhile_dropWhile_id)

lemma dropWhile_Cons_drop: "dropWhile P xs = y # ys \<Longrightarrow> drop (Suc (length (takeWhile P xs))) xs = ys"
  by (metis drop_Suc drop_dropWhile list.sel(3) tl_drop)

lemma takeWhile_all_drop: "length (takeWhile P xs) = length xs \<Longrightarrow> dropWhile P xs = []"
  by (metis drop_all drop_dropWhile order_refl)

lemma dropWhile_braces:
  "dropWhile validVariableNameChar (drop p line) = y # ys \<Longrightarrow>
     drop (Suc (p + length (takeWhile validVariableNameChar (drop p line)))) line = ys"
  using dropWhile_Cons_drop [of validVariableNameChar "drop p line" y ys]
  by (simp add: add.commute)

lemma parseVariable_text:
  assumes pos: "pos < length line" and v: "validVariableNameChar (line ! pos)"
  shows "go_bind (parseVariable line pos m) (\<lambda>(s, p, ok). Ok (if ok then Some (s, drop (Suc p) line) else None))
       = go_bind (m (takeWhile validVariableNameChar (drop pos line)))
           (\<lambda>s. Ok (Some (s, dropWhile validVariableNameChar (drop pos line))))"
proof -
  let ?t = "takeWhile validVariableNameChar (drop pos line)"
  have d: "drop pos line = line ! pos # drop (Suc pos) line"
    using pos by (simp add: Cons_nth_drop_Suc)
  then have n: "0 < length ?t" using v by simp
  have le: "length ?t \<le> length line - pos"
    using length_takeWhile_le [of validVariableNameChar "drop pos line"] by simp
  have "drop (length ?t) (drop pos line) = dropWhile validVariableNameChar (drop pos line)"
    by (rule drop_dropWhile)
  then have "drop (Suc (pos + length ?t - 1)) line = dropWhile validVariableNameChar (drop pos line)"
    using n by (simp add: add.commute)
  moreover have "dropWhile validVariableNameChar (drop pos line) = []"
    if "\<not> pos + length ?t < length line"
    using that le pos by (intro takeWhile_all_drop) simp
  ultimately show ?thesis
    by (simp add: parseVariable_def parseVariable_loop_eq Let_def)
qed

lemma parseInterpolationExpression_text:
  "go_bind (parseInterpolationExpression line pos m)
     (\<lambda>(s, p, ok). Ok (if ok then Some (s, drop (Suc p) line) else None)) = expr_text m (drop pos line)"
proof (cases "pos < length line")
  case True
  then have d: "drop pos line = line ! pos # drop (Suc pos) line"
    by (simp add: Cons_nth_drop_Suc)
  show ?thesis
    unfolding parseInterpolationExpression_def expr_text_def
    using True parseVariable_text [OF True, of m]
    by (auto simp: d Let_def parseVariableWithBraces_def parseVariableWithBraces_loop_eq
        dest: dropWhile_braces split: list.split)
qed (simp add: parseInterpolationExpression_def expr_text_def)

lemma parseLine_loop_eq:
  "parseLine_loop line pos buffer m = as_line (prepend buffer (interp m (drop pos line)))"
proof (induction line pos buffer m rule: parseLine_loop.induct)
  case (1 line pos buffer m)
  show ?case
  proof (cases "pos < length line")
    case True
    then have d: "drop pos line = line ! pos # drop (Suc pos) line"
      by (simp add: Cons_nth_drop_Suc)
    note step = parseLine_loop.simps [of line pos buffer m]
    show ?thesis
    proof (cases "line ! pos = CHR ''$''")
      case dollar: True
      have e: "expr_text m (drop (Suc pos) line) = go_bind (parseInterpolationExpression line (pos + 1) m)
          (\<lambda>(s, p, ok). Ok (if ok then Some (s, drop (Suc p) line) else None))"
        by (simp add: parseInterpolationExpression_text)
      show ?thesis
      proof (cases "parseInterpolationExpression line (pos + 1) m")
        case (Ok r)
        obtain s p ok where r: "r = (s, p, ok)" by (cases r)
        with Ok True dollar d e step "1.IH"(1) [OF True refl] show ?thesis
          by (cases ok) (simp_all add: interp_expr)
      qed (use True dollar d e step in \<open>simp_all add: interp_expr\<close>)
    next
      case False
      then show ?thesis
        using True d step "1.IH"(2) [OF True refl] by (simp add: interp_expr)
    qed
  next
    case False
    then show ?thesis by (subst parseLine_loop.simps) simp
  qed
qed

lemma parseLine_eq: "parseLine line m = as_line (interp m line)"
  by (simp add: parseLine_def parseLine_loop_eq)

section \<open>Properties\<close>

text \<open>
  C17: the position-based scanner computes the reference interpolation. For every line and every
  mapping \<open>parseLine\<close> returns the text the left-to-right definition gives, reports failure exactly
  when that finds a malformed expression, and panics exactly when it does.
\<close>

theorem parseLine_equiv_reference: "parseLine line m = as_line (interp m line)"
  by (rule parseLine_eq)

lemma interp_plain_append: "CHR ''$'' \<notin> set a \<Longrightarrow> interp m (a @ b) = prepend a (interp m b)"
  by (induction a) (auto simp: interp_expr)

lemma interp_plain: "CHR ''$'' \<notin> set a \<Longrightarrow> interp m a = Ok (Some a)"
  using interp_plain_append [of a m "[]"] by simp

definition dollar_escape :: "string \<Rightarrow> string" where
  "dollar_escape s = concat (map (\<lambda>c. if c = CHR ''$'' then ''$$'' else [c]) s)"

text \<open>
  C18: doubling the dollar signs of a text quotes it. Interpolating the quoted text gives back the
  text itself, in every environment.
\<close>

theorem parseLine_escape_roundtrip: "parseLine (dollar_escape s) m = Ok (s, True)"
proof -
  have "interp m (dollar_escape s) = Ok (Some s)"
    by (induction s) (auto simp: dollar_escape_def interp_expr expr_text_def)
  then show ?thesis by (simp add: parseLine_eq)
qed

lemma takeWhile_append_stop:
  "(b \<noteq> [] \<Longrightarrow> \<not> P (hd b)) \<Longrightarrow> takeWhile P (a @ b) = takeWhile P a \<and> dropWhile P (a @ b) = dropWhile P a @ b"
  by (induction a) (cases b; auto)+

lemma expr_text_append:
  assumes "expr_text m a = Ok (Some (s, after))" "b \<noteq> [] \<Longrightarrow> \<not> validVariableNameChar (hd b)"
  shows "expr_text m (a @ b) = Ok (Some (s, after @ b))"
proof -
  obtain d ds where a: "a = d # ds"
    using assms(1) by (cases a) (auto simp: expr_text_def)
  have t: "takeWhile validVariableNameChar (ds @ b) = takeWhile validVariableNameChar ds"
    "dropWhile validVariableNameChar (ds @ b) = dropWhile validVariableNameChar ds @ b"
    using takeWhile_append_stop [of b validVariableNameChar ds] assms(2) by auto
  show ?thesis
    using assms(1) unfolding a expr_text_def
    by (auto simp: t Let_def go_bind_Ok_iff split: if_splits list.splits)
qed

lemma interp_append:
  assumes "b \<noteq> [] \<Longrightarrow> \<not> validVariableNameChar (hd b)"
  shows "interp m a = Ok (Some s) \<Longrightarrow> interp m (a @ b) = prepend s (interp m b)"
proof (induction a arbitrary: s rule: length_induct)
  case (1 a)
  show ?case
  proof (cases a)
    case (Cons c rest)
    show ?thesis
    proof (cases "c = CHR ''$''")
      case True
      with "1.prems" Cons obtain s1 after where
        e: "expr_text m rest = Ok (Some (s1, after))" and p: "prepend s1 (interp m after) = Ok (Some s)"
        by (auto simp: interp_expr go_bind_Ok_iff split: option.splits)
      from p obtain s2 where s: "interp m after = Ok (Some s2)" "s = s1 @ s2"
        by (cases "interp m after" rule: as_line.cases) auto
      have "length after < length a"
        using e Cons
        by (auto simp: expr_text_def Let_def go_bind_Ok_iff less_Suc_eq_le length_dropWhile_le le_SucI
            split: if_splits list.splits dest!: length_dropWhile_Cons)
      with "1.IH" s have "interp m (after @ b) = prepend s2 (interp m b)" by blast
      with expr_text_append [OF e assms] Cons True s show ?thesis
        by (simp add: interp_expr)
    next
      case False
      with "1.prems" Cons obtain s2 where s: "interp m rest = Ok (Some s2)" "s = c # s2"
        by (cases "interp m rest" rule: as_line.cases) (auto simp: interp_expr)
      with "1.IH" Cons have "interp m (rest @ b) = prepend s2 (interp m b)" by auto
      with Cons False s show ?thesis by (simp add: interp_expr)
    qed
  qed (use 1 in simp)
qed

text \<open>
  a trailing dollar sign crashes the interpolation. Whenever a line is accepted, the same line
  with one more dollar sign at its end makes \<open>parseInterpolationExpression\<close> index past the end of
  the string, a run-time panic instead of an error.
\<close>

theorem parseLine_trailing_dollar_panics:
  assumes "parseLine line m = Ok (s, True)"
  shows "parseLine (line @ ''$'') m = Panic"
proof -
  from assms obtain r where r: "interp m line = Ok (Some r)"
    by (cases "interp m line" rule: as_line.cases) (auto simp: parseLine_eq)
  have "\<not> validVariableNameChar (CHR ''$'')"
    by (simp add: validVariableNameChar_def is_upper_def is_lower_def isNum_def is_digit_def)
  with interp_append [OF _ r, of "''$''"] show ?thesis
    by (simp add: parseLine_eq interp_expr expr_text_def)
qed

theorem parseLine_trailing_dollar_panics_witness: "parseLine ''cost: 5$'' (\<lambda>_. Ok []) = Panic"
  using parseLine_trailing_dollar_panics [of "''cost: 5''" "\<lambda>_. Ok []" "''cost: 5''"]
  by (simp add: parseLine_eq interp_plain)

lemma valid_no_equals:
  "\<forall>c \<in> set n. validVariableNameChar c \<Longrightarrow> CHR ''='' \<notin> set n"
proof
  assume "\<forall>c \<in> set n. validVariableNameChar c" "CHR ''='' \<in> set n"
  then have "validVariableNameChar (CHR ''='')" by blast
  then show False
    by (simp add: validVariableNameChar_def is_upper_def is_lower_def isNum_def is_digit_def)
qed

text \<open>Only names of valid characters are ever looked up.\<close>

lemma takeWhile_valid: "\<forall>c \<in> set (takeWhile P xs). P c"
  by (auto dest: set_takeWhileD)

lemma interp_mapping_Ok:
  assumes "\<And>n. \<forall>c \<in> set n. validVariableNameChar c \<Longrightarrow> m n = Ok (f n)"
  shows "interp m line = interp (\<lambda>n. Ok (f n)) line"
proof (induction line rule: length_induct)
  case (1 line)
  show ?case
  proof (cases line)
    case (Cons c rest)
    have t: "m (takeWhile validVariableNameChar xs) = Ok (f (takeWhile validVariableNameChar xs))" for xs
      by (rule assms [OF takeWhile_valid])
    have t': "m (d # takeWhile validVariableNameChar ds) = Ok (f (d # takeWhile validVariableNameChar ds))"
      if "validVariableNameChar d" for d ds
      using t [of "d # ds"] that by simp
    have e: "expr_text m rest = expr_text (\<lambda>n. Ok (f n)) rest"
      by (cases rest) (simp_all add: expr_text_def Let_def t t' cong: list.case_cong if_cong)
    have "length after < length line" if "expr_text m rest = Ok (Some (s, after))" for s after
      using that Cons
      by (auto simp: expr_text_def Let_def go_bind_Ok_iff less_Suc_eq_le length_dropWhile_le le_SucI
          split: if_splits list.splits dest!: length_dropWhile_Cons)
    with "1.IH" Cons e show ?thesis
      by (cases "expr_text (\<lambda>n. Ok (f n)) rest") (auto simp: interp_expr split: option.split)
  qed simp
qed

text \<open>With a lookup that keeps its contract the mapping function never panics.\<close>

definition looked_up :: "env_lookup \<Rightarrow> string \<Rightarrow> string \<Rightarrow> string" where
  "looked_up lookup k s = (case lookup s k None of
     [] \<Rightarrow> []
   | v # _ \<Rightarrow> drop (Suc (length s)) v)"

lemma interpolate_mapping_Ok:
  assumes "environment_lookup lookup" and "CHR ''='' \<notin> set s"
  shows "interpolate_mapping lookup k s = Ok (looked_up lookup k s)"
proof (cases "lookup s k None")
  case (Cons v vs)
  with environment_lookup.lookup_split [OF assms, of k None v vs] show ?thesis
    by (auto simp: interpolate_mapping_def looked_up_def)
qed (simp add: interpolate_mapping_def looked_up_def)

lemma interp_lookup:
  assumes "environment_lookup lookup"
  shows "interp (interpolate_mapping lookup k) line = interp (\<lambda>n. Ok (looked_up lookup k n)) line"
  by (rule interp_mapping_Ok) (use interpolate_mapping_Ok [OF assms] valid_no_equals in blast)

fun outcome :: "string option go \<Rightarrow> bool option" where
  "outcome (Ok r) = Some (r \<noteq> None)"
| "outcome _ = None"

lemma expr_text_shape:
  "expr_text (\<lambda>n. Ok (f n)) rest = Panic \<and> expr_text (\<lambda>n. Ok (g n)) rest = Panic
   \<or> expr_text (\<lambda>n. Ok (f n)) rest = Ok None \<and> expr_text (\<lambda>n. Ok (g n)) rest = Ok None
   \<or> (\<exists>s s' after. expr_text (\<lambda>n. Ok (f n)) rest = Ok (Some (s, after)) \<and>
        expr_text (\<lambda>n. Ok (g n)) rest = Ok (Some (s', after)) \<and> length after \<le> length rest)"
proof (cases rest)
  case (Cons d ds)
  show ?thesis
  proof (cases "dropWhile validVariableNameChar ds")
    case (Cons e after)
    then have "length after \<le> length ds"
      using length_dropWhile_Cons [of validVariableNameChar ds e after] by simp
    then show ?thesis
      using Cons \<open>rest = d # ds\<close> length_dropWhile_le [of validVariableNameChar ds]
      by (simp add: expr_text_def Let_def le_SucI)
  qed (simp add: \<open>rest = d # ds\<close> expr_text_def Let_def)
qed (simp add: expr_text_def)

lemma interp_outcome:
  "outcome (interp (\<lambda>n. Ok (f n)) line) = outcome (interp (\<lambda>n. Ok (g n)) line)
     \<and> (\<forall>e. interp (\<lambda>n. Ok (f n)) line \<noteq> Err e)"
proof (induction line rule: length_induct)
  case (1 line)
  have prep: "outcome (prepend a r) = outcome r" "prepend a r = Err x \<longleftrightarrow> r = Err x" for a r x
    by (cases r rule: as_line.cases; simp)+
  show ?case
  proof (cases line)
    case (Cons c rest)
    show ?thesis
      using expr_text_shape [of f rest g] "1.IH" Cons prep
      by (auto simp: interp_expr less_Suc_eq_le)
  qed simp
qed

text \<open>
  whether a line is accepted, refused or crashes the process does not depend on the stack's
  environment. For two environments of the stack, with any values and any rendering of them,
  interpolating a line panics in both or in neither, and is reported malformed in both or in
  neither.
\<close>

theorem parseLine_outcome_env_independent:
  fixes f :: "'v \<Rightarrow> string" and f' :: "'w \<Rightarrow> string" and line k k' :: string
    and e :: "'v MapEnvLookup" and e' :: "'w MapEnvLookup"
  defines "r \<equiv> parseLine line (interpolate_mapping (MapEnvLookup_Lookup f e) k)"
    and "r' \<equiv> parseLine line (interpolate_mapping (MapEnvLookup_Lookup f' e') k')"
  shows "(r = Panic \<longleftrightarrow> r' = Panic) \<and> ((\<exists>s. r = Ok (s, False)) \<longleftrightarrow> (\<exists>s. r' = Ok (s, False)))"
proof -
  let ?i = "interp (\<lambda>n. Ok (looked_up (MapEnvLookup_Lookup f e) k n)) line"
  let ?i' = "interp (\<lambda>n. Ok (looked_up (MapEnvLookup_Lookup f' e') k' n)) line"
  have r: "r = as_line ?i" "r' = as_line ?i'"
    by (simp_all add: r_def r'_def parseLine_eq interp_lookup [OF map_env.environment_lookup_axioms])
  have "outcome ?i = outcome ?i'" "\<And>x. ?i \<noteq> Err x" "\<And>x. ?i' \<noteq> Err x"
    using interp_outcome by metis+
  then show ?thesis
    unfolding r by (cases ?i rule: as_line.cases; cases ?i' rule: as_line.cases) auto
qed

text \<open>
  variables are replaced by the stack's values. In a text with no other dollar sign, a braced
  variable is replaced by the rendered value of the environment, and by nothing when it is not set.
\<close>

theorem parseLine_substitutes:
  assumes "CHR ''$'' \<notin> set a" and "CHR ''$'' \<notin> set b"
    and "name \<noteq> []" and "\<forall>c \<in> set name. validVariableNameChar c"
  shows "parseLine (a @ ''${'' @ name @ ''}'' @ b) (interpolate_mapping (MapEnvLookup_Lookup fmt_v e) k)
       = Ok (a @ (case Env e name of None \<Rightarrow> [] | Some v \<Rightarrow> fmt_v v) @ b, True)"
proof -
  let ?m = "interpolate_mapping (MapEnvLookup_Lookup fmt_v e) k"
  have t: "takeWhile validVariableNameChar (name @ CHR ''}'' # b) = name"
    "dropWhile validVariableNameChar (name @ CHR ''}'' # b) = CHR ''}'' # b"
    using assms(4) by (auto simp: takeWhile_append2 dropWhile_append2)
  have m: "?m name = Ok (case Env e name of None \<Rightarrow> [] | Some v \<Rightarrow> fmt_v v)"
    using split2_sep [OF valid_no_equals [OF assms(4)]]
    by (simp add: interpolate_mapping_def MapEnvLookup_Lookup_def split: option.split)
  show ?thesis
    using assms(3) m t by (simp add: parseLine_eq interp_plain_append [OF assms(1)]
        interp_expr expr_text_def interp_plain [OF assms(2)])
qed

theorem parseLine_substitutes_witness:
  "parseLine ''img:${TAG}'' (interpolate_mapping (MapEnvLookup_Lookup id \<lparr>Env = [''TAG'' \<mapsto> ''v1'']\<rparr>) ''web'')
     = Ok (''img:v1'', True)"
proof -
  have "\<forall>c \<in> set ''TAG''. validVariableNameChar c"
    by (simp add: validVariableNameChar_def is_upper_def)
  from parseLine_substitutes [OF _ _ _ this, of "''img:''" "[]" id "\<lparr>Env = [''TAG'' \<mapsto> ''v1'']\<rparr>" "''web''"]
  show ?thesis by simp
qed

section \<open>Whole configurations\<close>

lemma show_nat_not_dollar: "CHR ''$'' \<notin> set (show_nat n)"
  using show_nat_digits [of "CHR ''$''" n] by (auto simp: is_digit_def)

lemma digits_val_leading_zero: "digits_val 0 (CHR ''0'' # s) = digits_val 0 s"
  by (simp add: is_digit_def)

text \<open>
  turning digit strings into integers loses leading zeros. A string value such as \<open>"0755"\<close> is
  replaced by the integer 755, and the text go-yaml converts that integer back into is not the
  string that was written.
\<close>

theorem parseConfig_drops_leading_zero:
  assumes "int n < 2 ^ 63"
  shows "parseConfig opt service m (YStr (CHR ''0'' # show_nat n)) = Ok (YInt (int n))
       \<and> show_int (int n) \<noteq> CHR ''0'' # show_nat n"
proof -
  let ?s = "CHR ''0'' # show_nat n"
  have "parseLine ?s m = Ok (?s, True)"
    using show_nat_not_dollar by (simp add: parseLine_eq interp_plain)
  moreover have "atoi ?s = Some (int n)"
    using assms digits_val_leading_zero [of "show_nat n"] digits_val_show_nat [of n]
    by (simp add: atoi_def parse_nat_def del: digits_val.simps)
  ultimately show ?thesis
    by (simp add: show_int_def)
qed

theorem parseConfig_drops_leading_zero_witness:
  "parseConfig ''command'' ''web'' (\<lambda>_. Ok []) (YStr (CHR ''0'' # show_nat 755)) = Ok (YInt 755)
     \<and> show_int 755 \<noteq> CHR ''0'' # show_nat 755"
  using parseConfig_drops_leading_zero [of 755 "''command''" "''web''" "\<lambda>_. Ok []"] by simp

text \<open>
  interpolation changes values only. When \<open>Interpolate\<close> succeeds, the services are the same, in
  the same order, and each has the same options.
\<close>

theorem Interpolate_keeps_keys:
  assumes "Interpolate lookup cfg = Ok cfg'"
  shows "map (\<lambda>(k, v). (k, map fst v)) cfg' = map (\<lambda>(k, v). (k, map fst v)) cfg"
proof -
  have svc: "map fst v' = map fst v" if "Interpolate_service lookup k v = Ok v'" for k v v'
    using that unfolding Interpolate_service_def go_map_Ok_list_all2
    by (induction v v' rule: list_all2_induct) (auto simp: go_bind_Ok_iff split: prod.splits)
  show ?thesis
    using assms unfolding Interpolate_def go_map_Ok_list_all2
    by (induction cfg cfg' rule: list_all2_induct) (auto simp: go_bind_Ok_iff split: prod.splits dest: svc)
qed

theorem Interpolate_keeps_keys_witness:
  "map (\<lambda>(k, v). (k, map fst v)) [(''web'', [(''image'', YStr ''nginx'')])]
     = map (\<lambda>(k, v). (k, map fst v)) [(''web'', [(''image'', YStr ''nginx'')])]"
proof (rule Interpolate_keeps_keys)
  show "Interpolate (MapEnvLookup_Lookup id \<lparr>Env = Map.empty\<rparr>) [(''web'', [(''image'', YStr ''nginx'')])]
      = Ok [(''web'', [(''image'', YStr ''nginx'')])]"
    by (simp add: Interpolate_def Interpolate_service_def parseLine_eq interp_plain atoi_def
        parse_nat_def is_digit_def)
qed

end
