(* ===== verification/Go_Path.thy ===== *)
theory Go_Path
  imports Go_Prelude
begin

text \<open>
  Go's \<open>path\<close> package as far as the modelled code uses it (\<open>Clean\<close>, \<open>Join\<close>, \<open>Dir\<close>, \<open>Base\<close>), with the
  facts the components need: a cleaned path is a normal form.
\<close>

definition path_dot :: string where "path_dot = ''.''"
definition path_up :: string where "path_up = ''..''"

lemma path_dot_facts [simp]: "path_dot \<noteq> []" "path_up \<noteq> []" "path_dot \<noteq> path_up" "path_up \<noteq> path_dot"
  "CHR ''/'' \<notin> set path_dot" "CHR ''/'' \<notin> set path_up"
  by (simp_all add: path_dot_def path_up_def)

text \<open>\<open>Clean\<close> works through the elements between slashes, with the cleaned prefix as a stack.\<close>

definition clean_step :: "bool \<Rightarrow> string list \<Rightarrow> string \<Rightarrow> string list" where
  "clean_step rooted acc c =
     (if c = [] \<or> c = path_dot then acc
      else if c = path_up then
        (if acc \<noteq> [] \<and> last acc \<noteq> path_up then butlast acc
         else if rooted then acc else acc @ [c])
      else acc @ [c])"

definition path_rooted :: "string \<Rightarrow> bool" where
  "path_rooted s \<longleftrightarrow> has_prefix s ''/''"

definition path_elements :: "string \<Rightarrow> string list" where
  "path_elements s = foldl (clean_step (path_rooted s)) [] (split_on (CHR ''/'') s)"

definition path_Clean :: "string \<Rightarrow> string" where
  "path_Clean s =
     (let out = (if path_rooted s then ''/'' else []) @ join ''/'' (path_elements s)
      in if out = [] then path_dot else out)"

definition path_Join :: "string list \<Rightarrow> string" where
  "path_Join elems = (case dropWhile (\<lambda>e. e = []) elems of
     [] \<Rightarrow> []
   | es \<Rightarrow> path_Clean (join ''/'' es))"

text \<open>\<open>Split\<close> cuts after the last slash.\<close>

definition path_Dir :: "string \<Rightarrow> string" where
  "path_Dir s = path_Clean (rev (dropWhile (\<lambda>c. c \<noteq> CHR ''/'') (rev s)))"

definition path_Base :: "string \<Rightarrow> string" where
  "path_Base s =
     (if s = [] then path_dot
      else let s = rev (dropWhile (\<lambda>c. c = CHR ''/'') (rev s));
               s = rev (takeWhile (\<lambda>c. c \<noteq> CHR ''/'') (rev s))
           in if s = [] then ''/'' else s)"

section \<open>Cleaned paths\<close>

text \<open>The elements of a cleaned path: no empty and no dot element, and \<open>..\<close> only in front.\<close>

definition clean_elems :: "bool \<Rightarrow> string list \<Rightarrow> bool" where
  "clean_elems rooted es \<longleftrightarrow>
     (\<forall>e \<in> set es. e \<noteq> [] \<and> e \<noteq> path_dot \<and> CHR ''/'' \<notin> set e) \<and>
     path_up \<notin> set (dropWhile (\<lambda>e. e = path_up) es) \<and> (rooted \<longrightarrow> path_up \<notin> set es)"

lemma clean_elems_Nil [simp]: "clean_elems rooted []"
  by (simp add: clean_elems_def)

lemma clean_elems_snoc:
  "clean_elems rooted (es @ [e]) \<longleftrightarrow> clean_elems rooted es \<and> e \<noteq> [] \<and> e \<noteq> path_dot \<and> CHR ''/'' \<notin> set e \<and>
     (e = path_up \<longrightarrow> \<not> rooted \<and> (\<forall>x \<in> set es. x = path_up))"
proof -
  have all: "(\<forall>x \<in> set es. x = path_up) \<Longrightarrow> dropWhile (\<lambda>e. e = path_up) es = []" by simp
  show ?thesis
  proof (cases "\<forall>x \<in> set es. x = path_up")
    case True
    then show ?thesis by (auto simp: clean_elems_def dropWhile_append all)
  next
    case False
    then have "set (dropWhile (\<lambda>e. e = path_up) es) \<noteq> {}" by auto
    with False show ?thesis by (auto simp: clean_elems_def dropWhile_append)
  qed
qed

lemma clean_elems_one [simp]: "clean_elems rooted [e] \<longleftrightarrow> e \<noteq> [] \<and> e \<noteq> path_dot \<and> CHR ''/'' \<notin> set e \<and>
    (e = path_up \<longrightarrow> \<not> rooted)"
  by (auto simp: clean_elems_def)

lemma clean_elems_last_up:
  "clean_elems rooted es \<Longrightarrow> last es = path_up \<Longrightarrow> es \<noteq> [] \<Longrightarrow> \<not> rooted \<and> (\<forall>x \<in> set es. x = path_up)"
  by (cases es rule: rev_cases) (auto simp: clean_elems_snoc)

lemma clean_elems_butlast: "clean_elems rooted es \<Longrightarrow> clean_elems rooted (butlast es)"
  by (cases es rule: rev_cases) (auto simp: clean_elems_snoc)

lemma clean_step_elems:
  "clean_elems rooted acc \<Longrightarrow> CHR ''/'' \<notin> set c \<Longrightarrow> clean_elems rooted (clean_step rooted acc c)"
  using clean_elems_last_up [of rooted acc]
  by (cases "acc = []") (auto simp: clean_step_def clean_elems_snoc clean_elems_butlast)

lemma path_elements_clean: "clean_elems (path_rooted s) (path_elements s)"
proof -
  have "clean_elems r (foldl (clean_step r) acc ps)"
    if "clean_elems r acc" "\<forall>p \<in> set ps. CHR ''/'' \<notin> set p" for r acc ps
    using that by (induction ps arbitrary: acc) (auto intro: clean_step_elems)
  then show ?thesis by (simp add: path_elements_def split_on_parts)
qed

text \<open>Folding over clean elements changes nothing.\<close>

lemma foldl_clean_step: "clean_elems rooted es \<Longrightarrow> foldl (clean_step rooted) [] es = es"
proof (induction es rule: rev_induct)
  case (snoc e es)
  then have e: "clean_elems rooted es" "e \<noteq> []" "e \<noteq> path_dot"
    and up: "e = path_up \<Longrightarrow> \<not> rooted \<and> (\<forall>x \<in> set es. x = path_up)"
    by (simp_all add: clean_elems_snoc)
  have "clean_step rooted es e = es @ [e]"
  proof (cases "e = path_up")
    case True
    then have "es = [] \<or> last es = path_up" "\<not> rooted" using up last_in_set by blast+
    with True show ?thesis by (auto simp: clean_step_def)
  qed (simp add: clean_step_def e)
  with snoc.IH [OF e(1)] show ?case by simp
qed simp

lemma clean_elems_join_not_rooted: "clean_elems rooted es \<Longrightarrow> \<not> path_rooted (join ''/'' es)"
proof (cases es)
  case (Cons e rest)
  assume "clean_elems rooted es"
  with Cons have "e \<noteq> []" "CHR ''/'' \<notin> set e" by (auto simp: clean_elems_def)
  then obtain c cs where "e = c # cs" "c \<noteq> CHR ''/''" by (cases e) auto
  with Cons show ?thesis by (cases rest) (auto simp: path_rooted_def has_prefix_def)
qed (simp add: path_rooted_def has_prefix_def)

lemma path_elements_join:
  assumes "clean_elems r es" "path_rooted ((if r then ''/'' else []) @ join ''/'' es) = r"
  shows "path_elements ((if r then ''/'' else []) @ join ''/'' es) = es"
proof -
  have "foldl (clean_step r) [] (split_on (CHR ''/'') (join ''/'' es)) = es"
  proof (cases "es = []")
    case False
    then have "split_on (CHR ''/'') (join ''/'' es) = es"
      using assms(1) by (intro split_on_join) (auto simp: clean_elems_def)
    then show ?thesis using foldl_clean_step [OF assms(1)] by simp
  qed (simp add: clean_step_def)
  then show ?thesis
    unfolding path_elements_def assms(2) by (cases r) (simp_all add: clean_step_def)
qed

text \<open>Cleaning is idempotent.\<close>

lemma path_Clean_idem [simp]: "path_Clean (path_Clean s) = path_Clean s"
proof (cases "path_Clean s = path_dot")
  case True
  have "path_Clean path_dot = path_dot"
    by (simp add: path_Clean_def path_elements_def clean_step_def path_rooted_def has_prefix_def path_dot_def)
  with True show ?thesis by simp
next
  case False
  let ?r = "path_rooted s" and ?es = "path_elements s"
  let ?t = "(if ?r then ''/'' else []) @ join ''/'' ?es"
  have t: "path_Clean s = ?t" using False by (auto simp: path_Clean_def Let_def split: if_splits)
  have r: "path_rooted ?t = ?r"
    using clean_elems_join_not_rooted [OF path_elements_clean [of s]]
    by (auto simp: path_rooted_def has_prefix_def)
  have "path_elements ?t = ?es" by (rule path_elements_join [OF path_elements_clean r])
  moreover have "?t \<noteq> []" using t by (auto simp: path_Clean_def Let_def split: if_splits)
  ultimately show ?thesis unfolding t path_Clean_def [of ?t] r by (simp add: Let_def)
qed

end
