(* ===== verification/Compose_Merge.thy ===== *)
theory Compose_Merge
  imports Interpolation Go_Path
begin

text \<open>
  \<open>libcompose/project/merge.go\<close> and \<open>libcompose/lookup/file.go\<close>: from the bytes of a compose file to
  the service configurations, with \<open>env_file\<close>, \<open>build\<close> and \<open>extends\<close> resolved.

  Parameters here: \<open>yaml.Unmarshal\<close> into raw services, which \<open>Yaml_Decode\<close> models as \<open>yaml_RawServiceMap\<close>, and
  \<open>utils.Convert\<close>, which marshals to YAML and back into structs.
\<close>

section \<open>Looking up files\<close>

type_synonym config_lookup = "string \<Rightarrow> string \<Rightarrow> (string \<times> string) go"

text \<open>\<open>FileConfigLookup\<close>, over \<open>ioutil.ReadFile\<close>: the content and the name of the file it read.\<close>

definition FileConfigLookup_Lookup :: "(string \<Rightarrow> string go) \<Rightarrow> config_lookup" where
  "FileConfigLookup_Lookup ReadFile file relativeTo =
     (if has_prefix file ''/''
      then go_bind (ReadFile file) (\<lambda>bytes. Ok (bytes, file))
      else (let fileName = path_Join [path_Dir relativeTo, file]
            in go_bind (ReadFile fileName) (\<lambda>bytes. Ok (bytes, fileName))))"

text \<open>
  What \<open>parse\<close> is given besides the services: \<open>ce_yaml\<close> is \<open>yaml.Unmarshal\<close> into a \<open>RawServiceMap\<close>,
  \<open>ce_convert\<close> is \<open>utils.Convert\<close> of one service, \<open>ce_convert_all\<close> of all; the configuration lookup may
  be nil.
\<close>

record compose_env =
  ce_yaml :: "string \<Rightarrow> RawServiceMap go"
  ce_convert :: "RawService \<Rightarrow> ServiceConfig go"
  ce_convert_all :: "RawServiceMap \<Rightarrow> (string \<times> ServiceConfig) list go"
  ce_configLookup :: "config_lookup option"
  ce_environmentLookup :: env_lookup

section \<open>One service\<close>

definition ValidRemotes :: "string list" where
  "ValidRemotes = [''git://'', ''git@github.com:'', ''github.com'', ''http:'', ''https:'']"

definition noMerge :: "string list" where
  "noMerge = [''links'', ''volumes_from'']"

fun asString :: "yval option \<Rightarrow> string" where
  "asString (Some (YStr v)) = v"
| "asString _ = []"

text \<open>
  The lines a \<open>bufio.Scanner\<close> yields: without the line feed and a carriage return before it, no empty
  last line, and an error for a line that does not fit its buffer of 64 KB.
\<close>

definition drop_cr :: "string \<Rightarrow> string" where
  "drop_cr l = (if l \<noteq> [] \<and> last l = CHR 0x0D then butlast l else l)"

definition scan_lines :: "string \<Rightarrow> string list go" where
  "scan_lines content =
     (let ls = split_on (CHR 0x0A) content;
          ls = (if last ls = [] then butlast ls else ls)
      in if \<exists>l \<in> set ls. 65536 \<le> length l then Err ''bufio.Scanner: token too long''
         else Ok (map drop_cr ls))"

text \<open>\<open>strings.SplitAfter(line, "=")[0]\<close>: the name with the equals sign, or the whole line.\<close>

definition env_key :: "string \<Rightarrow> string" where
  "env_key line = (let parts = split2 (CHR ''='') line
     in if length parts > 1 then parts ! 0 @ ''='' else line)"

definition add_env_line :: "string \<Rightarrow> string list \<Rightarrow> string list" where
  "add_env_line text vars =
     (let line = trim_space text;
          key = env_key line
      in if list_ex (\<lambda>v. has_prefix v key) vars then vars else vars @ [line])"

definition add_env_file :: "config_lookup \<Rightarrow> string \<Rightarrow> string \<Rightarrow> string list \<Rightarrow> string list go" where
  "add_env_file configLookup inFile envFile vars =
     go_bind (configLookup envFile inFile) (\<lambda>(content, _).
       go_bind (scan_lines content) (\<lambda>ls. Ok (fold add_env_line ls vars)))"

definition readEnvFile :: "compose_env \<Rightarrow> string \<Rightarrow> RawService \<Rightarrow> RawService go" where
  "readEnvFile ce inFile serviceData =
     go_bind (ce_convert ce serviceData) (\<lambda>config.
       let files = Stringorslice_Slice (Some (sc_EnvFile config))
       in if length files = 0 then Ok serviceData
          else (case ce_configLookup ce of
              None \<Rightarrow> Err (''Can not use env_file in file '' @ inFile @ '' no mechanism provided to load files'')
            | Some configLookup \<Rightarrow>
                go_bind (go_fold (add_env_file configLookup inFile) (rev files)
                    (MaporEqualSlice_Slice (sc_Environment config)))
                  (\<lambda>vars. Ok (alist_delete ''env_file''
                      (alist_set ''environment'' (YSeq (map YStr vars)) serviceData)))))"

definition resolveBuild :: "string \<Rightarrow> RawService \<Rightarrow> RawService" where
  "resolveBuild inFile serviceData =
     (let build = asString (map_of serviceData ''build'')
      in if build = [] then serviceData
         else if list_ex (\<lambda>remote. has_prefix build remote) ValidRemotes then serviceData
         else (let current = path_Dir inFile;
                   current = (if build = ''.'' then current else path_Join [current, build])
               in alist_set ''build'' (YStr current) serviceData))"

text \<open>\<open>merge\<close>: sequences are appended, maps merged, everything else is replaced.\<close>

fun merge :: "yval \<Rightarrow> yval \<Rightarrow> yval" where
  "merge (YSeq left) (YSeq right) = YSeq (left @ right)"
| "merge (YMap left) (YMap right) = YMap (fold (\<lambda>(k, v). alist_set k v) right left)"
| "merge existing value = value"

text \<open>The loop at the end of \<open>parse\<close>: one entry of the extending service into the base.\<close>

definition merge_entry :: "string \<times> yval \<Rightarrow> RawService \<Rightarrow> RawService" where
  "merge_entry = (\<lambda>(k, v) baseService.
     (let baseService = (if k = ''image'' then alist_delete ''build'' baseService
            else if k = ''build'' then alist_delete ''image'' baseService else baseService)
      in case map_of baseService k of
           Some existing \<Rightarrow> alist_set k (merge existing v) baseService
         | None \<Rightarrow> alist_set k v baseService))"

definition noMerge_error :: "string \<Rightarrow> string \<Rightarrow> string \<Rightarrow> string" where
  "noMerge_error service source k =
     ''Cannot extend service '' @ [CHR 0x27] @ service @ [CHR 0x27] @ '' in '' @ source @ '': services with ''
       @ [CHR 0x27] @ k @ [CHR 0x27] @ '' cannot be extended''"

definition extend_service :: "string \<Rightarrow> string \<Rightarrow> string \<Rightarrow> RawService \<Rightarrow> RawService \<Rightarrow> RawService go" where
  "extend_service inFile file service baseService serviceData =
     (case find (\<lambda>k. map_of baseService k \<noteq> None) noMerge of
        Some k \<Rightarrow> Err (noMerge_error service (if file = [] then inFile else file) k)
      | None \<Rightarrow> Ok (fold merge_entry serviceData baseService))"

text \<open>
  What \<open>parse\<close> reads of the \<open>extends\<close> entry: \<open>None\<close> where the service is returned as it is, else the
  file and the service to extend.
\<close>

definition extends_of :: "RawService \<Rightarrow> (string \<times> string) option" where
  "extends_of serviceData = (case map_of serviceData ''extends'' of
     Some (YMap mapValue) \<Rightarrow>
       Some (asString (map_of mapValue (YStr ''file'')), asString (map_of mapValue (YStr ''service'')))
   | _ \<Rightarrow> None)"

section \<open>parse\<close>

text \<open>
  A service is a Go map, so \<open>readEnvFile\<close> and \<open>resolveBuild\<close> change the entry of \<open>datas\<close> it was taken
  from: \<open>parse\<close> takes the name of the entry and returns \<open>datas\<close> as it leaves it.  The fuel bounds the
  nesting of the calls for \<open>extends\<close>; \<open>None\<close> is fuel exhausted.
\<close>

fun parse :: "nat \<Rightarrow> compose_env \<Rightarrow> string \<Rightarrow> string \<Rightarrow> RawServiceMap \<Rightarrow> (RawService \<times> RawServiceMap) go option" where
  "parse 0 ce inFile name datas = None"
| "parse (Suc n) ce inFile name datas =
     (case map_of datas name of
        None \<Rightarrow> Some Panic
      | Some serviceData \<Rightarrow>
        (case readEnvFile ce inFile serviceData of
           Err e \<Rightarrow> Some (Err e)
         | Panic \<Rightarrow> Some Panic
         | Ok serviceData \<Rightarrow>
           (let serviceData = resolveBuild inFile serviceData;
                datas = alist_set name serviceData datas
            in case extends_of serviceData of
                 None \<Rightarrow> Some (Ok (serviceData, datas))
               | Some (file, service) \<Rightarrow>
                 (case ce_configLookup ce of
                    None \<Rightarrow> Some (Err (''Can not use extends in file '' @ inFile @ '' no mechanism provided to files''))
                  | Some configLookup \<Rightarrow>
                    if service = [] then Some (Ok (serviceData, datas))
                    else if file = [] then
                      (if map_of datas service = None then
                         Some (Err (''Failed to find service '' @ service @ '' to extend''))
                       else
                         map_option (\<lambda>base. go_bind base (\<lambda>(baseService, datas).
                             go_bind (extend_service inFile file service baseService serviceData)
                               (\<lambda>merged. Ok (merged, datas))))
                           (parse n ce inFile service datas))
                    else
                      (case configLookup file inFile of
                         Err e \<Rightarrow> Some (Err e)
                       | Panic \<Rightarrow> Some Panic
                       | Ok (bytes, resolved) \<Rightarrow>
                         (case go_bind (ce_yaml ce bytes) (Interpolate (ce_environmentLookup ce)) of
                            Err e \<Rightarrow> Some (Err e)
                          | Panic \<Rightarrow> Some Panic
                          | Ok baseRawServices \<Rightarrow>
                            if map_of baseRawServices service = None then
                              Some (Err (''Failed to find service '' @ service @ '' in file '' @ file))
                            else
                              (case parse n ce resolved service baseRawServices of
                                 None \<Rightarrow> None
                               | Some Panic \<Rightarrow> Some Panic
                               | Some base \<Rightarrow>
                                 (let baseService = (case base of Ok (b, _) \<Rightarrow> b | _ \<Rightarrow> [])
                                  in Some (go_bind (extend_service inFile file service baseService serviceData)
                                        (\<lambda>merged. Ok (merged, datas)))))))))))"

section \<open>mergeProject\<close>

text \<open>
  The loop over the services, in an order of Go's map iteration: the result of \<open>parse\<close> replaces the entry.
\<close>

fun parse_all :: "nat \<Rightarrow> compose_env \<Rightarrow> string \<Rightarrow> string list \<Rightarrow> RawServiceMap \<Rightarrow> RawServiceMap go option" where
  "parse_all n ce inFile [] datas = Some (Ok datas)"
| "parse_all n ce inFile (name # names) datas =
     (case parse n ce inFile name datas of
        None \<Rightarrow> None
      | Some (Err e) \<Rightarrow> Some (Err e)
      | Some Panic \<Rightarrow> Some Panic
      | Some (Ok (data, datas)) \<Rightarrow> parse_all n ce inFile names (alist_set name data datas))"

definition adjustValues :: "(string \<times> ServiceConfig) list \<Rightarrow> (string \<times> ServiceConfig) list" where
  "adjustValues configs =
     map (\<lambda>(n, v). (n, if sc_Restart v = ''false'' then v\<lparr>sc_Restart := ''no''\<rparr> else v)) configs"

text \<open>\<open>order\<close> is the order in which the loop visits the names of the decoded map.\<close>

definition mergeProject :: "nat \<Rightarrow> compose_env \<Rightarrow> string \<Rightarrow> (string list \<Rightarrow> string list) \<Rightarrow> string \<Rightarrow>
    (string \<times> ServiceConfig) list go option" where
  "mergeProject n ce file order bytes =
     (case go_bind (ce_yaml ce bytes) (Interpolate (ce_environmentLookup ce)) of
        Err e \<Rightarrow> Some (Err e)
      | Panic \<Rightarrow> Some Panic
      | Ok datas \<Rightarrow>
        map_option (\<lambda>r. go_bind r (\<lambda>datas.
            go_bind (ce_convert_all ce datas) (\<lambda>configs. Ok (adjustValues configs))))
          (parse_all n ce file (order (map fst datas)) datas))"

section \<open>Extending a service\<close>

lemma merge_entry_lookup:
  "map_of (merge_entry (k, v) base) x =
     (if x = k then (case map_of base k of Some b \<Rightarrow> Some (merge b v) | None \<Rightarrow> Some v)
      else if (x = ''build'' \<and> k = ''image'') \<or> (x = ''image'' \<and> k = ''build'') then None
      else map_of base x)"
  by (auto simp: merge_entry_def Let_def split: option.splits)

lemma fold_merge_entry_lookup:
  assumes "distinct (map fst child)" "\<not> (''image'' \<in> fst ` set child \<and> ''build'' \<in> fst ` set child)"
  shows "map_of (fold merge_entry child base) x =
    (case map_of child x of
       Some v \<Rightarrow> (case map_of base x of Some b \<Rightarrow> Some (merge b v) | None \<Rightarrow> Some v)
     | None \<Rightarrow> if (x = ''build'' \<and> ''image'' \<in> fst ` set child) \<or> (x = ''image'' \<and> ''build'' \<in> fst ` set child)
               then None else map_of base x)"
  using assms
proof (induction child arbitrary: base)
  case (Cons kv child)
  obtain k v where kv: "kv = (k, v)" by fastforce
  have new: "map_of child k = None" using Cons.prems(1) kv by (simp add: map_of_eq_None_iff)
  have IH: "map_of (fold merge_entry child (merge_entry (k, v) base)) x =
    (case map_of child x of
       Some v' \<Rightarrow> (case map_of (merge_entry (k, v) base) x of Some b \<Rightarrow> Some (merge b v') | None \<Rightarrow> Some v')
     | None \<Rightarrow> if (x = ''build'' \<and> ''image'' \<in> fst ` set child) \<or> (x = ''image'' \<and> ''build'' \<in> fst ` set child)
               then None else map_of (merge_entry (k, v) base) x)"
    using Cons.prems by (intro Cons.IH) auto
  show ?case
  proof (cases "x = k")
    case True
    have "\<not> ((k = ''build'' \<and> ''image'' \<in> fst ` set child) \<or> (k = ''image'' \<and> ''build'' \<in> fst ` set child))"
      using Cons.prems(2) kv by auto
    with True IH new kv show ?thesis by (simp add: merge_entry_lookup)
  next
    case False
    show ?thesis
    proof (cases "map_of child x")
      case None
      with False IH kv show ?thesis
        by (cases "x = ''build''"; cases "x = ''image''"; simp add: merge_entry_lookup)
    next
      case (Some v')
      then have "x \<in> fst ` set child" by (metis domI dom_map_of_conv_image_fst)
      then have "\<not> ((x = ''build'' \<and> k = ''image'') \<or> (x = ''image'' \<and> k = ''build''))"
        using Cons.prems(2) by (intro notI, elim disjE conjE) (simp_all add: kv)
      with Some False IH kv show ?thesis by (simp add: merge_entry_lookup)
    qed
  qed
qed simp

section \<open>Reading environment files\<close>

definition env_first_wins :: "nat \<Rightarrow> string list \<Rightarrow> bool" where
  "env_first_wins n vars \<longleftrightarrow>
     (\<forall>j. n \<le> j \<and> j < length vars \<longrightarrow> (\<forall>i < j. \<not> has_prefix (vars ! i) (env_key (vars ! j))))"

lemma add_env_line_inv:
  "env_first_wins n vars \<Longrightarrow> env_first_wins n (add_env_line l vars) \<and> prefix vars (add_env_line l vars)"
  by (auto simp: add_env_line_def Let_def env_first_wins_def nth_append list_ex_iff less_Suc_eq)

lemma fold_add_env_line_inv:
  "env_first_wins n vars \<Longrightarrow>
     env_first_wins n (fold add_env_line ls vars) \<and> prefix vars (fold add_env_line ls vars)"
proof (induction ls arbitrary: vars)
  case (Cons l ls)
  with add_env_line_inv [of n vars l] show ?case by (auto intro: prefix_order.trans)
qed simp

lemma env_files_inv:
  "go_fold (add_env_file configLookup inFile) files vars = Ok vars' \<Longrightarrow>
     env_first_wins n vars \<Longrightarrow> env_first_wins n vars' \<and> prefix vars vars'"
proof (induction files arbitrary: vars)
  case (Cons f fs)
  then obtain vars1 where f: "add_env_file configLookup inFile f vars = Ok vars1"
    "go_fold (add_env_file configLookup inFile) fs vars1 = Ok vars'"
    by (auto simp: go_bind_Ok_iff)
  from f(1) obtain ls where "vars1 = fold add_env_line ls vars"
    by (auto simp: go_bind_Ok_iff add_env_file_def)
  with Cons.IH [OF f(2)] fold_add_env_line_inv [OF Cons.prems(2), of ls] show ?case
    by (blast intro: prefix_order.trans)
qed simp

section \<open>Resolving the build directory\<close>

lemma resolveBuild_other: "k \<noteq> ''build'' \<Longrightarrow> map_of (resolveBuild inFile s) k = map_of s k"
  by (simp add: resolveBuild_def Let_def)

lemma path_Join_dot: "b \<noteq> [] \<Longrightarrow> path_Join [path_dot, b] = path_Clean (path_dot @ ''/'' @ b)"
  by (simp add: path_Join_def)

lemma path_elements_dot: "path_elements (path_dot @ ''/'' @ b) = foldl (clean_step False) [] (split_on (CHR ''/'') b)"
  by (simp add: path_elements_def path_rooted_def has_prefix_def clean_step_def split_on_sep)
    (simp add: path_dot_def)

lemma path_Clean_dot_join:
  assumes "path_Clean (path_dot @ ''/'' @ b) \<noteq> path_dot"
  shows "path_Clean (path_dot @ ''/'' @ path_Clean (path_dot @ ''/'' @ b)) = path_Clean (path_dot @ ''/'' @ b)"
proof -
  let ?es = "path_elements (path_dot @ ''/'' @ b)"
  have nr: "\<not> path_rooted (path_dot @ ''/'' @ x)" for x
    by (simp add: path_rooted_def has_prefix_def path_dot_def)
  have es: "clean_elems False ?es" using path_elements_clean [of "path_dot @ ''/'' @ b"] nr by simp
  have c: "path_Clean (path_dot @ ''/'' @ b) = join ''/'' ?es" "join ''/'' ?es \<noteq> []"
    using assms nr by (auto simp: path_Clean_def Let_def split: if_splits)
  then have "?es \<noteq> []" by auto
  then have "split_on (CHR ''/'') (join ''/'' ?es) = ?es"
    using es by (intro split_on_join) (auto simp: clean_elems_def)
  then have "path_elements (path_dot @ ''/'' @ join ''/'' ?es) = ?es"
    using foldl_clean_step [OF es] by (simp add: path_elements_dot [of "join ''/'' ?es", simplified])
  then show ?thesis using nr c by (simp add: path_Clean_def Let_def)
qed

section \<open>Properties\<close>



text \<open>
  Environment files.  \<open>readEnvFile\<close> keeps every variable the service sets itself, in front, and a
  line of a file is added only when no variable before it starts with the line's name: what is
  defined first wins, and the files are read from the last to the first.
\<close>

theorem readEnvFile_first_wins:
  assumes "readEnvFile ce inFile serviceData = Ok result" "ce_convert ce serviceData = Ok config"
    "map_of result ''environment'' = Some (YSeq (map YStr vars))" "Stringorslice_Slice (Some (sc_EnvFile config)) \<noteq> []"
  shows "prefix (MaporEqualSlice_Slice (sc_Environment config)) vars \<and>
    env_first_wins (length (MaporEqualSlice_Slice (sc_Environment config))) vars \<and>
    map_of result ''env_file'' = None \<and>
    (\<forall>k. k \<noteq> ''environment'' \<longrightarrow> k \<noteq> ''env_file'' \<longrightarrow> map_of result k = map_of serviceData k)"
proof -
  let ?env = "MaporEqualSlice_Slice (sc_Environment config)"
  from assms obtain configLookup where cl: "ce_configLookup ce = Some configLookup"
    by (auto simp: readEnvFile_def Let_def split: option.splits)
  with assms obtain vars' where
    fold: "go_fold (add_env_file configLookup inFile)
       (rev (Stringorslice_Slice (Some (sc_EnvFile config)))) ?env = Ok vars'"
    and res: "result = alist_delete ''env_file'' (alist_set ''environment'' (YSeq (map YStr vars')) serviceData)"
    by (simp add: readEnvFile_def Let_def go_bind_Ok_iff) blast
  have "map YStr vars' = map YStr vars" using assms(3) res by simp
  then have "vars' = vars" by (simp add: inj_map_eq_map inj_def)
  moreover have "env_first_wins (length ?env) ?env" by (auto simp: env_first_wins_def)
  ultimately show ?thesis using env_files_inv [OF fold] res by auto
qed

definition sample_env :: compose_env where
  "sample_env = \<lparr>ce_yaml = (\<lambda>_. Ok []),
     ce_convert = (\<lambda>s. Ok (ServiceConfig_zero\<lparr>sc_EnvFile := NewStringorslice [''app.env''],
        sc_Environment := NewMaporEqualSlice [''MODE=dev'']\<rparr>)),
     ce_convert_all = (\<lambda>_. Ok []),
     ce_configLookup = Some (FileConfigLookup_Lookup (\<lambda>_. Ok ''MODE=prod'')),
     ce_environmentLookup = (\<lambda>_ _ _. [])\<rparr>"

theorem readEnvFile_first_wins_witness: "env_first_wins 1 [''MODE=dev'']"
proof -
  have "readEnvFile sample_env ''docker-compose.yml'' [] = Ok [(''environment'', YSeq [YStr ''MODE=dev''])]"
    by (simp add: readEnvFile_def sample_env_def Stringorslice_Slice_def NewStringorslice_def
        MaporEqualSlice_Slice_def NewMaporEqualSlice_def FileConfigLookup_Lookup_def has_prefix_def scan_lines_def
        add_env_file_def
        add_env_line_def trim_space_def is_space_def env_key_def split2_def alist_delete_def drop_cr_def Let_def)
  from readEnvFile_first_wins [OF this, of _ "[''MODE=dev'']"] show ?thesis
    by (simp add: sample_env_def Stringorslice_Slice_def NewStringorslice_def MaporEqualSlice_Slice_def
        NewMaporEqualSlice_def)
qed

text \<open>
  A build directory relative to the current directory is resolved once and for all: when the compose
  file lies in the current directory, resolving again changes nothing, so it does not matter that
  \<open>parse\<close> visits a service once for itself and once for each service that extends it.
\<close>

theorem resolveBuild_idem:
  assumes "path_Dir inFile = path_dot"
  shows "resolveBuild inFile (resolveBuild inFile s) = resolveBuild inFile s"
proof -
  let ?build = "asString (map_of s ''build'')"
  let ?set = "\<lambda>b. alist_set ''build'' (YStr b) s"
  have again: "resolveBuild inFile (?set path_dot) = ?set path_dot"
    by (simp add: resolveBuild_def assms Let_def path_dot_def alist_set_twice ValidRemotes_def has_prefix_def)
  show ?thesis
  proof (cases "?build = [] \<or> list_ex (\<lambda>remote. has_prefix ?build remote) ValidRemotes")
    case True
    then show ?thesis by (auto simp: resolveBuild_def Let_def)
  next
    case False
    define b where "b = (if ?build = ''.'' then path_dot else path_Clean (path_dot @ ''/'' @ ?build))"
    have r: "resolveBuild inFile s = ?set b"
      using False by (simp add: resolveBuild_def Let_def assms path_Join_dot b_def)
    show ?thesis
    proof (cases "b = path_dot")
      case True
      then show ?thesis using again unfolding r by simp
    next
      case b: False
      then have "b = path_Clean (path_dot @ ''/'' @ ?build)" by (auto simp: b_def)
      then have "path_Clean (path_dot @ ''/'' @ b) = b"
        using path_Clean_dot_join [of ?build] b by metis
      moreover have "b \<noteq> ''.''" using b by (simp add: path_dot_def)
      ultimately have "resolveBuild inFile (?set b) = ?set b"
        by (simp add: resolveBuild_def [of inFile "?set b"] Let_def assms path_Join_dot)
      then show ?thesis unfolding r .
    qed
  qed
qed

theorem resolveBuild_idem_witness:
  "resolveBuild ''docker-compose.yml'' (resolveBuild ''docker-compose.yml'' [(''build'', YStr ''web/../web'')]) =
     resolveBuild ''docker-compose.yml'' [(''build'', YStr ''web/../web'')]"
  by (rule resolveBuild_idem)
    (simp add: path_Dir_def path_Clean_def path_elements_def clean_step_def path_rooted_def has_prefix_def)

text \<open>
  A compose file in the current directory cannot build from an absolute directory: the leading slash
  is lost, the path is taken relative to the current directory.
\<close>

theorem resolveBuild_absolute_lost:
  assumes "path_Dir inFile = path_dot" "map_of s ''build'' = Some (YStr (CHR ''/'' # b))"
  shows "\<exists>p. map_of (resolveBuild inFile s) ''build'' = Some (YStr p) \<and> \<not> path_rooted p"
proof -
  have "\<not> path_rooted (path_Clean (path_dot @ ''/'' @ CHR ''/'' # b))"
  proof -
    let ?t = "path_dot @ ''/'' @ CHR ''/'' # b"
    have nr: "\<not> path_rooted ?t" by (simp add: path_rooted_def has_prefix_def path_dot_def)
    have "\<not> path_rooted (join ''/'' (path_elements ?t))"
      by (rule clean_elems_join_not_rooted [OF path_elements_clean])
    with nr show ?thesis
      by (simp add: path_Clean_def Let_def) (simp add: path_rooted_def has_prefix_def path_dot_def)
  qed
  then show ?thesis
    using assms by (simp add: resolveBuild_def Let_def ValidRemotes_def has_prefix_def path_Join_dot)
qed

theorem resolveBuild_absolute_lost_witness:
  "\<exists>p. map_of (resolveBuild ''docker-compose.yml'' [(''build'', YStr ''/opt/app'')]) ''build'' = Some (YStr p) \<and>
     \<not> path_rooted p"
  by (rule resolveBuild_absolute_lost [of _ _ "''opt/app''"])
    (simp_all add: path_Dir_def path_Clean_def path_elements_def clean_step_def path_rooted_def has_prefix_def)

section \<open>Termination of extends\<close>

text \<open>
  A service that extends a service of its own file of a smaller rank, or none; no service is extended
  across files.
\<close>

definition extends_within :: "compose_env \<Rightarrow> string \<Rightarrow> RawServiceMap \<Rightarrow> (string \<Rightarrow> nat) \<Rightarrow> bool" where
  "extends_within ce inFile datas rank \<longleftrightarrow>
     (\<forall>(name, s) \<in> set datas. case extends_of s of
        None \<Rightarrow> True
      | Some (file, service) \<Rightarrow> file = [] \<and> rank service < rank name)"

lemma extends_of_resolveBuild [simp]: "extends_of (resolveBuild inFile s) = extends_of s"
  by (simp add: extends_of_def resolveBuild_other)

lemma readEnvFile_extends: "readEnvFile ce inFile s = Ok s' \<Longrightarrow> extends_of s' = extends_of s"
  by (auto simp: readEnvFile_def go_bind_Ok_iff Let_def extends_of_def split: option.splits if_splits)

lemma set_alist_set: "(x, y) \<in> set (alist_set k v xs) \<Longrightarrow> (x, y) \<in> set xs \<or> (x = k \<and> y = v)"
  by (induction k v xs rule: alist_set.induct) (auto split: if_splits)

lemma extends_within_set:
  assumes "extends_within ce inFile datas rank" "map_of datas name = Some s" "extends_of s' = extends_of s"
  shows "extends_within ce inFile (alist_set name s' datas) rank"
  using assms map_of_SomeD [OF assms(2)] set_alist_set [of _ _ name s' datas]
  unfolding extends_within_def by fastforce

lemma parse_returns:
  "extends_within ce inFile datas rank \<Longrightarrow> rank name < n \<Longrightarrow> \<exists>r. parse n ce inFile name datas = Some r"
proof (induction n arbitrary: name datas)
  case (Suc n)
  show ?case
  proof (cases "map_of datas name")
    case None
    then show ?thesis by simp
  next
    case (Some s)
    show ?thesis
    proof (cases "readEnvFile ce inFile s")
      case (Ok s')
      let ?s = "resolveBuild inFile s'" and ?datas = "alist_set name (resolveBuild inFile s') datas"
      have ext: "extends_of ?s = extends_of s" using readEnvFile_extends [OF Ok] by simp
      have within: "extends_within ce inFile ?datas rank"
        by (rule extends_within_set [OF Suc.prems(1) Some ext])
      show ?thesis
      proof (cases "extends_of s")
        case None
        with Some Ok ext show ?thesis by (simp add: Let_def)
      next
        case e: (Some fs)
        obtain f service where fs: "fs = (f, service)" by fastforce
        have "f = []" "rank service < rank name"
          using Suc.prems(1) map_of_SomeD [OF Some] e fs unfolding extends_within_def by fastforce+
        moreover obtain r where "parse n ce inFile service ?datas = Some r"
          using Suc.IH [OF within, of service] calculation(2) Suc.prems(2) by auto
        ultimately show ?thesis using Some Ok ext e fs by (auto simp: Let_def split: option.splits)
      qed
    qed (use Some in simp_all)
  qed
qed simp


definition extends_entry :: "string \<Rightarrow> string \<times> yval" where
  "extends_entry service = (''extends'', YMap [(YStr ''service'', YStr service)])"


text \<open>
  Nothing else stops the recursion: a service that extends itself is parsed for ever, the fuel never
  suffices (the process overflows its stack).
\<close>

theorem parse_self_extends_diverges:
  assumes "map_of datas name = Some s" "\<And>d. readEnvFile ce inFile d = Ok d" "extends_of s = Some ([], name)"
    "name \<noteq> []" "ce_configLookup ce \<noteq> None"
  shows "parse n ce inFile name datas = None"
  using assms(1,3)
proof (induction n arbitrary: s datas)
  case (Suc n)
  from assms(5) obtain cl where cl: "ce_configLookup ce = Some cl" by blast
  have "parse n ce inFile name (alist_set name (resolveBuild inFile s) datas) = None"
    by (rule Suc.IH [of _ "resolveBuild inFile s"]) (simp_all add: Suc.prems)
  with Suc.prems assms(2,4) cl show ?case by (simp add: Let_def)
qed simp

definition plain_env :: compose_env where
  "plain_env = sample_env\<lparr>ce_convert := (\<lambda>_. Ok ServiceConfig_zero)\<rparr>"

lemma plain_env_readEnvFile [simp]: "readEnvFile plain_env inFile s = Ok s"
  by (simp add: readEnvFile_def plain_env_def ServiceConfig_zero_def Stringorslice_Slice_def)

theorem parse_self_extends_diverges_witness:
  "parse 1000 plain_env [] ''web'' [(''web'', [extends_entry ''web''])] = None"
  by (rule parse_self_extends_diverges [of _ _ "[extends_entry ''web'']"])
    (simp add: extends_entry_def, simp, simp add: extends_entry_def extends_of_def, simp,
     simp add: plain_env_def sample_env_def)

text \<open>
  An error in a service that is extended from another file is lost: the error variable is shadowed, so
  \<open>parse\<close> goes on as if the base service were empty and returns the extending service alone.
\<close>

theorem parse_foreign_error_lost:
  assumes "map_of datas name = Some s" "readEnvFile ce inFile s = Ok s'" "extends_of s' = Some (file, service)"
    "file \<noteq> []" "service \<noteq> []" "ce_configLookup ce = Some configLookup"
    "configLookup file inFile = Ok (bytes, resolved)" "ce_yaml ce bytes = Ok raw"
    "Interpolate (ce_environmentLookup ce) raw = Ok base" "map_of base service \<noteq> None"
    "parse n ce resolved service base = Some (Err e)"
  shows "parse (Suc n) ce inFile name datas =
    Some (Ok (fold merge_entry (resolveBuild inFile s') [], alist_set name (resolveBuild inFile s') datas))"
proof -
  have "find (\<lambda>k. False) noMerge = None" by (simp add: noMerge_def)
  with assms show ?thesis by (simp add: Let_def extend_service_def)
qed

text \<open>A base file whose service extends a service that is not there.\<close>

definition broken_env :: compose_env where
  "broken_env = plain_env\<lparr>ce_yaml := (\<lambda>_. Ok [(''base'', [extends_entry ''gone''])])\<rparr>"

theorem parse_foreign_error_lost_witness:
  "parse 2 broken_env [] ''web'' [(''web'', [(''extends'', YMap [(YStr ''file'', YStr ''common.yml''),
      (YStr ''service'', YStr ''base'')]), (''image'', YStr ''nginx'')])] =
    Some (Ok ([(''extends'', YMap [(YStr ''file'', YStr ''common.yml''), (YStr ''service'', YStr ''base'')]),
        (''image'', YStr ''nginx'')],
      [(''web'', [(''extends'', YMap [(YStr ''file'', YStr ''common.yml''), (YStr ''service'', YStr ''base'')]),
        (''image'', YStr ''nginx'')])]))"
proof -
  let ?s = "[(''extends'', YMap [(YStr ''file'', YStr ''common.yml''), (YStr ''service'', YStr ''base'')]),
        (''image'', YStr ''nginx'')]"
  have conv: "readEnvFile broken_env f x = Ok x" for f x
    by (simp add: readEnvFile_def broken_env_def plain_env_def ServiceConfig_zero_def Stringorslice_Slice_def)
  have base: "resolveBuild f [extends_entry ''gone''] = [extends_entry ''gone'']" for f
    by (simp add: resolveBuild_def extends_entry_def)
  have "parse (Suc 1) broken_env [] ''web'' [(''web'', ?s)] =
      Some (Ok (fold merge_entry (resolveBuild [] ?s) [], alist_set ''web'' (resolveBuild [] ?s) [(''web'', ?s)]))"
  proof (rule parse_foreign_error_lost [where s = ?s and n = 1])
    show "ce_configLookup broken_env = Some (FileConfigLookup_Lookup (\<lambda>_. Ok ''MODE=prod''))"
      by (simp add: broken_env_def plain_env_def sample_env_def)
    show "FileConfigLookup_Lookup (\<lambda>_. Ok ''MODE=prod'') ''common.yml'' [] = Ok (''MODE=prod'', path_Join [path_Dir [], ''common.yml''])"
      by (simp add: FileConfigLookup_Lookup_def has_prefix_def)
    show "ce_yaml broken_env ''MODE=prod'' = Ok [(''base'', [extends_entry ''gone''])]"
      by (simp add: broken_env_def)
    have lit: "parseConfig a b m (YStr ''gone'') = Ok (YStr ''gone'')" for a b m
      by (simp add: parseLine_equiv_reference interp.simps is_digit_def atoi_def parse_nat_def)
    then show "Interpolate (ce_environmentLookup broken_env) [(''base'', [extends_entry ''gone''])] =
        Ok [(''base'', [extends_entry ''gone''])]"
      by (simp add: Interpolate_def Interpolate_service_def extends_entry_def del: parseConfig.simps(1))
    show "parse 1 broken_env (path_Join [path_Dir [], ''common.yml'']) ''base'' [(''base'', [extends_entry ''gone''])] =
        Some (Err ''Failed to find service gone to extend'')"
      by (simp add: conv base Let_def) (simp add: extends_entry_def extends_of_def broken_env_def plain_env_def sample_env_def)
  qed (simp_all add: conv, simp add: extends_of_def)
  then show ?thesis
    by (simp add: resolveBuild_def merge_entry_def alist_delete_def numeral_2_eq_2 del: parse.simps)
qed

definition chain_services :: RawServiceMap where
  "chain_services =
     [(''a'', [(''ports'', YSeq [YInt 80])]), (''b'', [extends_entry ''a'']), (''c'', [extends_entry ''b''])]"

definition ports_of :: "string \<Rightarrow> RawServiceMap go option \<Rightarrow> yval option" where
  "ports_of name r = (case r of
     Some (Ok datas) \<Rightarrow> (case map_of datas name of Some s \<Rightarrow> map_of s ''ports'' | None \<Rightarrow> None)
   | _ \<Rightarrow> None)"

lemma chain_eval:
  "resolveBuild [] [(''ports'', p)] = [(''ports'', p)]"
  "resolveBuild [] [extends_entry x] = [extends_entry x]"
  "resolveBuild [] [(''ports'', p), extends_entry x] = [(''ports'', p), extends_entry x]"
  "extends_of [(''ports'', p)] = None" "extends_of [extends_entry x] = Some ([], x)"
  "extends_of [(''ports'', p), extends_entry x] = Some ([], x)"
  "ce_configLookup plain_env = Some (FileConfigLookup_Lookup (\<lambda>_. Ok ''MODE=prod''))"
  "extend_service [] [] s [(''ports'', YSeq l)] [extends_entry x] = Ok [(''ports'', YSeq l), extends_entry x]"
  "extend_service [] [] s [(''ports'', YSeq l)] [(''ports'', YSeq r), extends_entry x] =
     Ok [(''ports'', YSeq (l @ r)), extends_entry x]"
  "extend_service [] [] s [(''ports'', YSeq l), extends_entry y] [extends_entry x] =
     Ok [(''ports'', YSeq l), extends_entry x]"
  by (simp_all add: resolveBuild_def extends_entry_def extends_of_def plain_env_def sample_env_def
      extend_service_def noMerge_def merge_entry_def)

text \<open>
  The order of Go's map iteration shows in the result.  A merged service keeps its \<open>extends\<close> entry
  and replaces its entry while the loop goes on, so it is merged again when another service extends it:
  a service at the end of a chain of three gets the first one's ports twice, or once, by the order.
\<close>

theorem parse_all_order_dependent:
  "ports_of ''c'' (parse_all 3 plain_env [] [''a'', ''b'', ''c''] chain_services) = Some (YSeq [YInt 80, YInt 80]) \<and>
   ports_of ''c'' (parse_all 3 plain_env [] [''c'', ''b'', ''a''] chain_services) = Some (YSeq [YInt 80])"
  by (simp add: chain_services_def ports_of_def chain_eval numeral_3_eq_3 Let_def)

end
