(* ===== verification/Traverse.thy ===== *)
theory Traverse
  imports Project_Types
begin

text \<open>
  How a project runs an operation over its services: the depth-first launch of
  \<open>libcompose/project/project.go\<close> (\<open>startService\<close>, \<open>traverse\<close>) and the goroutines it spawns
  (\<open>service-wrapper.go\<close>).  The launch is a function; the goroutines, which run in any order, are a
  step relation over it.
\<close>

section \<open>The depth-first launch\<close>

text \<open>
  What the launch reads: the loaded wrappers, the relationships each wrapper's service reports, the
  selected services (none selected means all), and the cycle action, if there is one, which
  returns nil or an error for the service it is called on.
\<close>

record launch_env =
  le_wrappers :: "string set"
  le_deps :: "string \<Rightarrow> ServiceRelationship list"
  le_selected :: "string set"
  le_cycleAction :: "(string \<Rightarrow> string option) option"

text \<open>
  What it writes: the \<open>launched\<close> map, the \<open>ignored\<close> maps of the wrappers, the wrappers it has handed
  on in that order (with a flag: the action was spawned, or the wrapper was ignored), and the
  services the cycle action was called on.
\<close>

record launch_state =
  ls_launched :: "string set"
  ls_ignored :: "(string \<times> string) set"
  ls_started :: "(string \<times> bool) list"
  ls_cycled :: "string list"

definition isSelected :: "string \<Rightarrow> string set \<Rightarrow> bool" where
  "isSelected name selected \<longleftrightarrow> selected = {} \<or> name \<in> selected"

definition IgnoreDep :: "string \<Rightarrow> string \<Rightarrow> launch_state \<Rightarrow> launch_state" where
  "IgnoreDep wrapper name st = st\<lparr>ls_ignored := insert (wrapper, name) (ls_ignored st)\<rparr>"

definition Contains :: "string list \<Rightarrow> string \<Rightarrow> bool" where
  "Contains collection key \<longleftrightarrow> list_ex (\<lambda>value. value = key) collection"

definition cycle_error :: "string list \<Rightarrow> string \<Rightarrow> string" where
  "cycle_error history target = ''Cycle detected in path '' @ join ''->'' (history @ [target])"

text \<open>
  \<open>startService\<close> and its loop over the dependencies.  The first argument is fuel for the nesting of
  calls; \<open>None\<close> is fuel exhausted, and \<open>startService_returns\<close> shows how much is enough.
\<close>

fun startService :: "nat \<Rightarrow> launch_env \<Rightarrow> string list \<Rightarrow> string \<Rightarrow> launch_state \<Rightarrow>
    (string option \<times> launch_state) option"
and startDeps :: "nat \<Rightarrow> launch_env \<Rightarrow> string list \<Rightarrow> string \<Rightarrow> ServiceRelationship list \<Rightarrow> launch_state \<Rightarrow>
    (string option \<times> launch_state) option" where
  "startService 0 env history wrapper st = None"
| "startService (Suc n) env history wrapper st =
     (if wrapper \<in> ls_launched st then Some (None, st)
      else
        (case startDeps n env (history @ [wrapper]) wrapper (le_deps env wrapper)
                (st\<lparr>ls_launched := insert wrapper (ls_launched st)\<rparr>) of
           None \<Rightarrow> None
         | Some (Some err, st') \<Rightarrow> Some (Some err, st')
         | Some (None, st') \<Rightarrow>
             Some (None, st'\<lparr>ls_started := ls_started st' @ [(wrapper, isSelected wrapper (le_selected env))]\<rparr>)))"
| "startDeps n env history wrapper [] st = Some (None, st)"
| "startDeps n env history wrapper (dep # deps) st =
     (if rel_Target dep \<notin> le_wrappers env then startDeps n env history wrapper deps st
      else if Contains history (rel_Target dep) then
        (if rel_Optional dep then
           (let st' = IgnoreDep wrapper (rel_Target dep) st
            in case le_cycleAction env of
                 None \<Rightarrow> startDeps n env history wrapper deps st'
               | Some cycleAction \<Rightarrow>
                   (let st'' = st'\<lparr>ls_cycled := ls_cycled st' @ [rel_Target dep]\<rparr>
                    in case cycleAction (rel_Target dep) of
                         Some err \<Rightarrow> Some (Some err, st'')
                       | None \<Rightarrow> startDeps n env history wrapper deps st''))
         else Some (Some (cycle_error history (rel_Target dep)), st))
      else
        (case startService n env history (rel_Target dep) st of
           None \<Rightarrow> None
         | Some (Some err, st') \<Rightarrow> Some (Some err, st')
         | Some (None, st') \<Rightarrow> startDeps n env history wrapper deps st'))"

definition launch_init :: launch_state where
  "launch_init = \<lparr>ls_launched = {}, ls_ignored = {}, ls_started = [], ls_cycled = []\<rparr>"

text \<open>
  The loop of \<open>traverse\<close> over the wrappers, in the order Go's map iteration gives.  The error that
  \<open>startService\<close> returns is dropped there; the model keeps the errors beside the state to say so.
\<close>

fun startAll :: "nat \<Rightarrow> launch_env \<Rightarrow> string list \<Rightarrow> launch_state \<Rightarrow> (string list \<times> launch_state) option" where
  "startAll n env [] st = Some ([], st)"
| "startAll n env (wrapper # ws) st =
     (case startService n env [] wrapper st of
        None \<Rightarrow> None
      | Some (err, st') \<Rightarrow>
          map_option (\<lambda>(errs, st''). ((case err of None \<Rightarrow> errs | Some e \<Rightarrow> e # errs), st''))
            (startAll n env ws st'))"

definition launch :: "launch_env \<Rightarrow> string list \<Rightarrow> (string list \<times> launch_state) option" where
  "launch env ws = startAll (Suc (card (le_wrappers env))) env ws launch_init"

section \<open>Inversion of the launch\<close>

lemma Contains_iff [simp]: "Contains xs x \<longleftrightarrow> x \<in> set xs"
  by (auto simp: Contains_def list_ex_iff)

lemma startService_SucE:
  assumes "startService (Suc n) env history w st = Some (e, st')"
  obtains (already) "w \<in> ls_launched st" "e = None" "st' = st"
  | (failed) err where "w \<notin> ls_launched st" "e = Some err"
      "startDeps n env (history @ [w]) w (le_deps env w)
         (st\<lparr>ls_launched := insert w (ls_launched st)\<rparr>) = Some (Some err, st')"
  | (started) st1 where "w \<notin> ls_launched st" "e = None"
      "startDeps n env (history @ [w]) w (le_deps env w)
         (st\<lparr>ls_launched := insert w (ls_launched st)\<rparr>) = Some (None, st1)"
      "st' = st1\<lparr>ls_started := ls_started st1 @ [(w, isSelected w (le_selected env))]\<rparr>"
  using assms by (auto split: if_splits option.splits)

lemma startDeps_ConsE:
  assumes "startDeps n env history w (dep # deps) st = Some (e, st')"
  obtains (missing) "rel_Target dep \<notin> le_wrappers env" "startDeps n env history w deps st = Some (e, st')"
  | (ignored) st1 where "rel_Target dep \<in> set history" "rel_Optional dep"
      "ls_launched st1 = ls_launched st" "ls_started st1 = ls_started st"
      "ls_ignored st1 = insert (w, rel_Target dep) (ls_ignored st)"
      "startDeps n env history w deps st1 = Some (e, st')"
  | (cycle_action) err where "rel_Target dep \<in> set history" "rel_Optional dep" "e = Some err"
      "ls_launched st' = ls_launched st" "ls_started st' = ls_started st"
      "ls_ignored st' = insert (w, rel_Target dep) (ls_ignored st)" "le_cycleAction env \<noteq> None"
  | (cycle) "rel_Target dep \<in> set history" "\<not> rel_Optional dep" "st' = st"
      "e = Some (cycle_error history (rel_Target dep))"
  | (dep_failed) err where "rel_Target dep \<in> le_wrappers env" "rel_Target dep \<notin> set history" "e = Some err"
      "startService n env history (rel_Target dep) st = Some (Some err, st')"
  | (dep_ok) st1 where "rel_Target dep \<in> le_wrappers env" "rel_Target dep \<notin> set history"
      "startService n env history (rel_Target dep) st = Some (None, st1)"
      "startDeps n env history w deps st1 = Some (e, st')"
proof (cases "rel_Target dep \<in> le_wrappers env \<and> rel_Target dep \<in> set history \<and> rel_Optional dep")
  case True
  let ?st = "st\<lparr>ls_ignored := insert (w, rel_Target dep) (ls_ignored st)\<rparr>"
  show ?thesis
  proof (cases "le_cycleAction env")
    case None
    with assms True ignored [of ?st] show ?thesis by (simp add: Let_def IgnoreDep_def)
  next
    case (Some act)
    with assms True ignored [of "?st\<lparr>ls_cycled := ls_cycled st @ [rel_Target dep]\<rparr>"] cycle_action
    show ?thesis
      by (cases "act (rel_Target dep)") (simp_all add: Let_def IgnoreDep_def, metis launch_state.ext_inject launch_state.surjective launch_state.update_convs)
  qed
qed (use assms missing cycle dep_failed dep_ok in \<open>auto split: if_splits option.splits\<close>)

lemma startDeps_NoneE:
  assumes "startDeps n env history w (dep # deps) st = None"
  obtains (later) st1 where "ls_launched st1 = ls_launched st" "startDeps n env history w deps st1 = None"
  | (dep_none) "rel_Target dep \<in> le_wrappers env" "rel_Target dep \<notin> set history"
      "startService n env history (rel_Target dep) st = None"
  | (after_dep) st1 where "startService n env history (rel_Target dep) st = Some (None, st1)"
      "startDeps n env history w deps st1 = None"
proof (cases "rel_Target dep \<in> le_wrappers env \<and> rel_Target dep \<in> set history \<and> rel_Optional dep")
  case True
  let ?st = "st\<lparr>ls_ignored := insert (w, rel_Target dep) (ls_ignored st)\<rparr>"
  show ?thesis
    using assms True later [of ?st] later [of "?st\<lparr>ls_cycled := ls_cycled st @ [rel_Target dep]\<rparr>"]
    by (auto simp: Let_def IgnoreDep_def split: option.splits)
qed (use assms later [of st] dep_none after_dep in \<open>auto split: if_splits option.splits\<close>)

declare startService.simps(2) [simp del]

text \<open>
  A property of \<open>startDeps\<close> at some fuel follows from the property of \<open>startService\<close> at that fuel,
  by induction on the dependencies; the property of \<open>startService\<close> then by induction on the fuel.
\<close>

lemma startDeps_mono:
  assumes "\<And>h u st e st'. startService n env h u st = Some (e, st') \<Longrightarrow>
      ls_launched st \<subseteq> ls_launched st' \<and> ls_ignored st \<subseteq> ls_ignored st'"
  shows "startDeps n env history w deps st = Some (e, st') \<Longrightarrow>
      ls_launched st \<subseteq> ls_launched st' \<and> ls_ignored st \<subseteq> ls_ignored st'"
proof (induction deps arbitrary: st)
  case (Cons dep deps)
  from Cons.prems show ?case
  proof (cases rule: startDeps_ConsE)
    case (ignored st1)
    with Cons.IH [of st1] show ?thesis by auto
  next
    case (dep_ok st1)
    with assms [OF dep_ok(3)] Cons.IH [of st1] show ?thesis by auto
  qed (use Cons.IH assms in auto)
qed simp

lemma startService_mono:
  "startService n env history w st = Some (e, st') \<Longrightarrow>
     ls_launched st \<subseteq> ls_launched st' \<and> ls_ignored st \<subseteq> ls_ignored st'"
proof (induction n arbitrary: history w st e st')
  case (Suc n)
  have deps: "ls_launched s \<subseteq> ls_launched st' \<and> ls_ignored s \<subseteq> ls_ignored st'"
    if "startDeps n env h w ds s = Some (e', st')" for h ds s e' st'
    by (rule startDeps_mono [OF _ that]) (rule Suc.IH)
  from Suc.prems show ?case
  proof (cases rule: startService_SucE)
    case (failed err)
    from deps [OF failed(3)] show ?thesis by auto
  next
    case (started st1)
    from deps [OF started(3)] started(4) show ?thesis by auto
  qed auto
qed simp

section \<open>Termination of the launch\<close>

lemma startDeps_fuel:
  assumes "\<And>h u st. u \<in> le_wrappers env \<Longrightarrow> card (le_wrappers env - ls_launched st) < n \<Longrightarrow>
      startService n env h u st \<noteq> None" and "finite (le_wrappers env)"
  shows "card (le_wrappers env - ls_launched st) < n \<Longrightarrow> startDeps n env history w deps st \<noteq> None"
proof (induction deps arbitrary: st)
  case (Cons dep deps)
  show ?case
  proof
    assume "startDeps n env history w (dep # deps) st = None"
    then show False
    proof (cases rule: startDeps_NoneE)
      case (after_dep st1)
      then have "le_wrappers env - ls_launched st1 \<subseteq> le_wrappers env - ls_launched st"
        using startService_mono by blast
      then have "card (le_wrappers env - ls_launched st1) < n"
        using Cons.prems card_mono [of "le_wrappers env - ls_launched st"] assms(2)
        by (meson finite_Diff order_le_less_trans)
      with Cons.IH after_dep show False by blast
    qed (use Cons assms in auto)
  qed
qed simp

lemma startService_fuel:
  assumes "finite (le_wrappers env)"
  shows "w \<in> le_wrappers env \<Longrightarrow> card (le_wrappers env - ls_launched st) < n \<Longrightarrow>
      startService n env history w st \<noteq> None"
proof (induction n arbitrary: history w st)
  case (Suc n)
  show ?case
  proof (cases "w \<in> ls_launched st")
    case False
    let ?st = "st\<lparr>ls_launched := insert w (ls_launched st)\<rparr>"
    have "le_wrappers env - ls_launched ?st = (le_wrappers env - ls_launched st) - {w}" by auto
    then have "card (le_wrappers env - ls_launched ?st) < n"
      using False Suc.prems assms card_Suc_Diff1 [of "le_wrappers env - ls_launched st" w]
      by (simp add: less_Suc_eq_le)
    then have "startDeps n env (history @ [w]) w (le_deps env w) ?st \<noteq> None"
      using startDeps_fuel [OF _ assms] Suc.IH by blast
    then show ?thesis using False
      by (auto simp: startService.simps(2) split: option.splits)
  qed (simp add: startService.simps(2))
qed simp

lemma startAll_returns:
  assumes "finite (le_wrappers env)"
  shows "set ws \<subseteq> le_wrappers env \<Longrightarrow>
    startAll (Suc (card (le_wrappers env))) env ws st \<noteq> None"
proof (induction ws arbitrary: st)
  case (Cons w ws)
  have "card (le_wrappers env - ls_launched st) < Suc (card (le_wrappers env))"
    using assms by (simp add: card_mono less_Suc_eq_le)
  then have "startService (Suc (card (le_wrappers env))) env [] w st \<noteq> None"
    using startService_fuel [OF assms] Cons.prems by simp
  then obtain e st' where "startService (Suc (card (le_wrappers env))) env [] w st = Some (e, st')"
    by (metis option.exhaust surj_pair)
  moreover obtain r where "startAll (Suc (card (le_wrappers env))) env ws st' = Some r"
    using Cons.IH [of st'] Cons.prems by auto
  ultimately show ?case by (cases r) (auto simp del: startService.simps)
qed simp

section \<open>What an error-free launch has done\<close>

definition started_names :: "launch_state \<Rightarrow> string list" where
  "started_names st = map fst (ls_started st)"

definition dep_settled :: "launch_env \<Rightarrow> (string \<times> string) set \<Rightarrow> string set \<Rightarrow> string \<Rightarrow> ServiceRelationship \<Rightarrow> bool" where
  "dep_settled env ign before w dep \<longleftrightarrow>
     rel_Target dep \<notin> le_wrappers env \<or> (w, rel_Target dep) \<in> ign \<or> rel_Target dep \<in> before"

text \<open>Every wrapper comes after the wrappers it will wait for.\<close>

definition launch_ordered :: "launch_env \<Rightarrow> (string \<times> string) set \<Rightarrow> string list \<Rightarrow> bool" where
  "launch_ordered env ign ws \<longleftrightarrow>
     (\<forall>i < length ws. \<forall>dep \<in> set (le_deps env (ws ! i)). dep_settled env ign (set (take i ws)) (ws ! i) dep)"

definition launch_inv :: "launch_env \<Rightarrow> string set \<Rightarrow> launch_state \<Rightarrow> bool" where
  "launch_inv env H st \<longleftrightarrow>
     ls_launched st = set (started_names st) \<union> H \<and> set (started_names st) \<inter> H = {} \<and>
     distinct (started_names st) \<and> set (started_names st) \<subseteq> le_wrappers env \<and>
     launch_ordered env (ls_ignored st) (started_names st)"

lemma dep_settled_mono:
  "dep_settled env ign A w dep \<Longrightarrow> ign \<subseteq> ign' \<Longrightarrow> A \<subseteq> B \<Longrightarrow> dep_settled env ign' B w dep"
  by (auto simp: dep_settled_def)

lemma launch_ordered_mono:
  "launch_ordered env ign ws \<Longrightarrow> ign \<subseteq> ign' \<Longrightarrow> launch_ordered env ign' ws"
  unfolding launch_ordered_def by (meson dep_settled_mono order_refl)

lemma launch_ordered_snoc:
  assumes "launch_ordered env ign ws" "\<forall>dep \<in> set (le_deps env w). dep_settled env ign (set ws) w dep"
  shows "launch_ordered env ign (ws @ [w])"
  using assms by (auto simp: launch_ordered_def nth_append less_Suc_eq)

lemma launch_inv_ignore:
  assumes "launch_inv env H st" "ls_launched st' = ls_launched st" "ls_started st' = ls_started st"
    "ls_ignored st \<subseteq> ls_ignored st'"
  shows "launch_inv env H st'"
  using assms launch_ordered_mono by (auto simp: launch_inv_def started_names_def)

lemma startDeps_inv:
  assumes serv: "\<And>u st st'. u \<in> le_wrappers env \<Longrightarrow> u \<notin> set h \<Longrightarrow> launch_inv env (set h) st \<Longrightarrow>
      startService n env h u st = Some (None, st') \<Longrightarrow>
      launch_inv env (set h) st' \<and> u \<in> set (started_names st') \<and>
      set (started_names st) \<subseteq> set (started_names st')"
  shows "launch_inv env (set h) st \<Longrightarrow> startDeps n env h w deps st = Some (None, st') \<Longrightarrow>
      launch_inv env (set h) st' \<and> set (started_names st) \<subseteq> set (started_names st') \<and>
      ls_ignored st \<subseteq> ls_ignored st' \<and>
      (\<forall>dep \<in> set deps. dep_settled env (ls_ignored st') (set (started_names st')) w dep)"
proof (induction deps arbitrary: st)
  case (Cons dep deps)
  from Cons.prems(2) show ?case
  proof (cases rule: startDeps_ConsE)
    case missing
    with Cons show ?thesis by (simp add: dep_settled_def)
  next
    case (ignored st1)
    have inv1: "launch_inv env (set h) st1"
      by (rule launch_inv_ignore [OF Cons.prems(1)]) (use ignored in auto)
    note rest = Cons.IH [OF inv1 ignored(6)]
    moreover have "started_names st1 = started_names st"
      using ignored(4) by (simp add: started_names_def)
    moreover have "(w, rel_Target dep) \<in> ls_ignored st'" "ls_ignored st \<subseteq> ls_ignored st'"
      using ignored(5) rest by blast+
    ultimately show ?thesis by (simp add: dep_settled_def)
  next
    case (dep_ok st1)
    from serv [OF dep_ok(1,2) Cons.prems(1) dep_ok(3)]
    have inv1: "launch_inv env (set h) st1" and tgt: "rel_Target dep \<in> set (started_names st1)"
      and sub: "set (started_names st) \<subseteq> set (started_names st1)" by blast+
    note rest = Cons.IH [OF inv1 dep_ok(4)]
    moreover have "ls_ignored st \<subseteq> ls_ignored st'"
      using startService_mono [OF dep_ok(3)] rest by blast
    moreover have "dep_settled env (ls_ignored st') (set (started_names st')) w dep"
      using tgt rest unfolding dep_settled_def by blast
    ultimately show ?thesis using sub by (metis order_trans set_ConsD)
  qed auto
qed simp

lemma startService_inv:
  "w \<in> le_wrappers env \<Longrightarrow> w \<notin> set h \<Longrightarrow> launch_inv env (set h) st \<Longrightarrow>
     startService n env h w st = Some (None, st') \<Longrightarrow>
     launch_inv env (set h) st' \<and> w \<in> set (started_names st') \<and>
     set (started_names st) \<subseteq> set (started_names st')"
proof (induction n arbitrary: h w st st')
  case (Suc n)
  from Suc.prems(4) show ?case
  proof (cases rule: startService_SucE)
    case already
    with Suc.prems show ?thesis by (auto simp: launch_inv_def)
  next
    case (started st1)
    let ?st = "st\<lparr>ls_launched := insert w (ls_launched st)\<rparr>"
    have "launch_inv env (set (h @ [w])) ?st"
      using Suc.prems started(1) by (auto simp: launch_inv_def started_names_def)
    from startDeps_inv [OF _ this started(3)] Suc.IH
    have rest: "launch_inv env (set (h @ [w])) st1 \<and>
      set (started_names ?st) \<subseteq> set (started_names st1) \<and>
      ls_ignored ?st \<subseteq> ls_ignored st1 \<and>
      (\<forall>dep \<in> set (le_deps env w). dep_settled env (ls_ignored st1) (set (started_names st1)) w dep)"
      by metis
    then have inv1: "launch_inv env (set (h @ [w])) st1"
      and deps: "\<forall>dep \<in> set (le_deps env w). dep_settled env (ls_ignored st1) (set (started_names st1)) w dep"
      by blast+
    have sub: "set (started_names st) \<subseteq> set (started_names st1)"
      using rest by (simp add: started_names_def)
    have names: "started_names st' = started_names st1 @ [w]"
      and l: "ls_launched st' = ls_launched st1" "ls_ignored st' = ls_ignored st1"
      using started(4) by (simp_all add: started_names_def)
    have "launch_ordered env (ls_ignored st1) (started_names st1 @ [w])"
      using inv1 deps by (intro launch_ordered_snoc) (simp_all add: launch_inv_def)
    then have "launch_inv env (set h) st'"
      using inv1 Suc.prems(1,2) unfolding launch_inv_def names l by fastforce
    then show ?thesis using sub by (auto simp: names)
  qed auto
qed simp

lemma startAll_inv:
  "set ws \<subseteq> le_wrappers env \<Longrightarrow> launch_inv env {} st \<Longrightarrow> startAll n env ws st = Some ([], st') \<Longrightarrow>
     launch_inv env {} st' \<and> set ws \<subseteq> set (started_names st') \<and>
     set (started_names st) \<subseteq> set (started_names st')"
proof (induction ws arbitrary: st)
  case (Cons w ws)
  from Cons.prems(3) obtain st1 where
    "startService n env [] w st = Some (None, st1)" "startAll n env ws st1 = Some ([], st')"
    by (auto split: option.splits)
  moreover from this Cons.prems startService_inv [of w env "[]" st n st1]
  have "launch_inv env {} st1" "w \<in> set (started_names st1)"
    "set (started_names st) \<subseteq> set (started_names st1)" by auto
  ultimately show ?case using Cons.IH [of st1] Cons.prems(1) by (simp, blast)
qed simp

lemma launch_inv_init: "launch_inv env {} launch_init"
  by (simp add: launch_inv_def launch_init_def started_names_def launch_ordered_def)

lemma launch_clean:
  assumes "launch env ws = Some ([], st)" "set ws = le_wrappers env"
  shows "launch_inv env {} st" "set (started_names st) = le_wrappers env"
  using startAll_inv [OF _ launch_inv_init, of ws env "Suc (card (le_wrappers env))" st] assms
  by (auto simp: launch_def launch_inv_def)

text \<open>No error when every relationship is optional and the cycle action never fails.\<close>

definition cycle_tolerant :: "launch_env \<Rightarrow> bool" where
  "cycle_tolerant env \<longleftrightarrow> (\<forall>w \<in> le_wrappers env. \<forall>dep \<in> set (le_deps env w). rel_Optional dep) \<and>
     (\<forall>act. le_cycleAction env = Some act \<longrightarrow> (\<forall>w \<in> le_wrappers env. act w = None))"

lemma startDeps_no_error:
  assumes "\<And>u st e st'. u \<in> le_wrappers env \<Longrightarrow> startService n env h u st = Some (e, st') \<Longrightarrow> e = None"
    and "\<forall>act. le_cycleAction env = Some act \<longrightarrow> (\<forall>w \<in> le_wrappers env. act w = None)"
  shows "\<forall>dep \<in> set deps. rel_Optional dep \<Longrightarrow> startDeps n env h w deps st = Some (e, st') \<Longrightarrow> e = None"
proof (induction deps arbitrary: st)
  case (Cons dep deps)
  then show ?case using assms
    by (auto simp: Let_def IgnoreDep_def split: if_splits option.splits)
qed simp

lemma startService_no_error:
  assumes "cycle_tolerant env"
  shows "w \<in> le_wrappers env \<Longrightarrow> startService n env h w st = Some (e, st') \<Longrightarrow> e = None"
proof (induction n arbitrary: h w st e st')
  case (Suc n)
  from Suc.prems(2) show ?case
  proof (cases rule: startService_SucE)
    case (failed err)
    have "Some err = None"
      by (rule startDeps_no_error [OF Suc.IH _ _ failed(3)])
        (use assms Suc.prems(1) in \<open>auto simp: cycle_tolerant_def\<close>)
    then show ?thesis by simp
  qed auto
qed simp

lemma startAll_no_error:
  assumes "cycle_tolerant env"
  shows "set ws \<subseteq> le_wrappers env \<Longrightarrow> startAll n env ws st = Some (errs, st') \<Longrightarrow> errs = []"
proof (induction ws arbitrary: st errs)
  case (Cons w ws)
  then show ?case
    using startService_no_error [OF assms, of w n "[]" st] by (auto split: option.splits)
qed simp

text \<open>The flag of a started wrapper says whether it is selected.\<close>

definition flags_ok :: "launch_env \<Rightarrow> launch_state \<Rightarrow> bool" where
  "flags_ok env st \<longleftrightarrow> (\<forall>(w, b) \<in> set (ls_started st). b = isSelected w (le_selected env))"

lemma startDeps_flags:
  assumes "\<And>h u st e st'. startService n env h u st = Some (e, st') \<Longrightarrow> flags_ok env st \<Longrightarrow> flags_ok env st'"
  shows "startDeps n env history w deps st = Some (e, st') \<Longrightarrow> flags_ok env st \<Longrightarrow> flags_ok env st'"
proof (induction deps arbitrary: st)
  case (Cons dep deps)
  from Cons.prems(1) show ?case
  proof (cases rule: startDeps_ConsE)
    case (ignored st1)
    with Cons.IH [of st1] Cons.prems(2) show ?thesis by (simp add: flags_ok_def)
  next
    case cycle_action
    with Cons.prems(2) show ?thesis by (simp add: flags_ok_def)
  next
    case (dep_ok st1)
    with assms [OF dep_ok(3)] Cons.IH [of st1] Cons.prems(2) show ?thesis by blast
  qed (use Cons assms in blast)+
qed simp

lemma startService_flags:
  "startService n env history w st = Some (e, st') \<Longrightarrow> flags_ok env st \<Longrightarrow> flags_ok env st'"
proof (induction n arbitrary: history w st e st')
  case (Suc n)
  have deps: "flags_ok env s'" if "startDeps n env h u ds s = Some (x, s')" "flags_ok env s" for h u ds s x s'
    by (rule startDeps_flags [OF _ that]) (rule Suc.IH)
  have "flags_ok env (st\<lparr>ls_launched := insert w (ls_launched st)\<rparr>)"
    using Suc.prems(2) by (simp add: flags_ok_def)
  note d = deps [OF _ this]
  from Suc.prems(1) show ?case
  proof (cases rule: startService_SucE)
    case (started st1)
    with d [OF started(3)] show ?thesis by (auto simp: flags_ok_def)
  qed (use Suc.prems d in auto)
qed simp

lemma startAll_flags:
  "startAll n env ws st = Some (errs, st') \<Longrightarrow> flags_ok env st \<Longrightarrow> flags_ok env st'"
proof (induction ws arbitrary: st errs)
  case (Cons w ws)
  from Cons.prems(1) obtain e st1 errs1 where s1: "startService n env [] w st = Some (e, st1)"
    "startAll n env ws st1 = Some (errs1, st')" by (auto split: option.splits)
  from Cons.IH [OF s1(2) startService_flags [OF s1(1) Cons.prems(2)]] show ?case .
qed simp

lemma launch_flags:
  "launch env ws = Some (errs, st) \<Longrightarrow> (w, b) \<in> set (ls_started st) \<Longrightarrow> b = isSelected w (le_selected env)"
  using startAll_flags [of "Suc (card (le_wrappers env))" env ws launch_init errs st]
  by (auto simp: launch_def flags_ok_def launch_init_def)

end
