(* ===== verification/Service_Wrapper.thy ===== *)
theory Service_Wrapper
  imports Traverse
begin

text \<open>
  \<open>libcompose/project/service-wrapper.go\<close>: the wrapper that runs one operation on one service, and the
  goroutines \<open>traverse\<close> spawns for the wrappers (\<open>go action(wrapper, wrappers)\<close>).  The launcher and the
  goroutines interleave freely, so they are the steps of a transition relation; each step is a
  function of the state, \<open>None\<close> where the goroutine is blocked in a wait.
\<close>

section \<open>The wrapper\<close>

text \<open>
  Go errors the wrapper tells apart: nil, the value \<open>ErrRestart\<close>, and every other error.
\<close>

datatype werr = NoErr | ErrRestart | OtherErr string

datatype ServiceState = StateUnknown | StateExecuted

text \<open>What the wrapper reads of the \<open>Service\<close> interface besides the operation itself.\<close>

record service_view =
  sv_Name :: string
  sv_DependentServices :: "ServiceRelationship list"

record serviceWrapper =
  sw_name :: string
  sw_service :: service_view
  sw_done :: nat
  sw_state :: ServiceState
  sw_err :: werr
  sw_noWait :: bool
  sw_ignored :: "string set"

text \<open>
  \<open>Reset\<close> and \<open>newServiceWrapper\<close>.  The first argument is \<open>project.CreateService\<close>.
\<close>

definition wrapper_Reset :: "(string \<Rightarrow> service_view go) \<Rightarrow> serviceWrapper \<Rightarrow> serviceWrapper go" where
  "wrapper_Reset CreateService s =
     go_bind (if sw_state s \<noteq> StateExecuted
              then go_bind (CreateService (sw_name s)) (\<lambda>service. Ok (s\<lparr>sw_service := service\<rparr>))
              else Ok s)
       (\<lambda>s. let s = (if sw_err s = ErrRestart then s\<lparr>sw_err := NoErr\<rparr> else s)
            in Ok (s\<lparr>sw_done := sw_done s + 1\<rparr>))"

definition newServiceWrapper :: "(string \<Rightarrow> service_view go) \<Rightarrow> string \<Rightarrow> serviceWrapper go" where
  "newServiceWrapper CreateService name =
     wrapper_Reset CreateService
       \<lparr>sw_name = name, sw_service = \<lparr>sv_Name = [], sv_DependentServices = []\<rparr>, sw_done = 0,
        sw_state = StateUnknown, sw_err = NoErr, sw_noWait = False, sw_ignored = {}\<rparr>"

text \<open>\<open>Wait\<close>: \<open>None\<close> while the wait group is not down to zero.\<close>

definition wrapper_Wait :: "serviceWrapper \<Rightarrow> werr option" where
  "wrapper_Wait s = (if sw_done s = 0 then Some (sw_err s) else None)"

section \<open>The goroutines\<close>

text \<open>
  Where a goroutine is in \<open>Do\<close>: at its first statement, in the loop of \<open>waitForDeps\<close> with the
  relationships still to look at, in the action, or returned.
\<close>

datatype routine = Entered | Waiting "ServiceRelationship list" | Acting | Returned

record run_state =
  rs_wrappers :: "string \<rightharpoonup> serviceWrapper"
  rs_routines :: "string \<rightharpoonup> routine"
  rs_pending :: "(string \<times> bool) list"
  rs_events :: "(EventType \<times> string) list"

text \<open>The arguments of \<open>Do\<close>: whether the wrappers are passed or nil, the two events, the action.\<close>

record do_op =
  op_wait :: bool
  op_start :: EventType
  op_done :: EventType
  op_action :: "string \<Rightarrow> werr"

definition notify :: "EventType \<Rightarrow> string \<Rightarrow> run_state \<Rightarrow> run_state" where
  "notify ev name s = (if ev = NoEvent then s else s\<lparr>rs_events := rs_events s @ [(ev, name)]\<rparr>)"

definition set_wrapper :: "string \<Rightarrow> serviceWrapper \<Rightarrow> run_state \<Rightarrow> run_state" where
  "set_wrapper w wr s = s\<lparr>rs_wrappers := (rs_wrappers s)(w \<mapsto> wr)\<rparr>"

definition set_routine :: "string \<Rightarrow> routine \<Rightarrow> run_state \<Rightarrow> run_state" where
  "set_routine w r s = s\<lparr>rs_routines := (rs_routines s)(w \<mapsto> r)\<rparr>"

text \<open>\<open>Ignore\<close>: the launcher calls it for a service that is not selected.\<close>

definition wrapper_Ignore :: "string \<Rightarrow> serviceWrapper \<Rightarrow> run_state \<Rightarrow> run_state" where
  "wrapper_Ignore w wr s =
     set_wrapper w (wr\<lparr>sw_state := StateExecuted, sw_done := sw_done wr - 1\<rparr>)
       (notify EventServiceUpIgnored (sv_Name (sw_service wr)) s)"

text \<open>The launcher hands on the next wrapper: it spawns the goroutine or ignores the wrapper.\<close>

definition launcher_step :: "run_state \<Rightarrow> run_state option" where
  "launcher_step s = (case rs_pending s of
     [] \<Rightarrow> None
   | (w, selected) # rest \<Rightarrow>
       (let s = s\<lparr>rs_pending := rest\<rparr>
        in if selected then Some (set_routine w Entered s)
           else map_option (\<lambda>wr. wrapper_Ignore w wr s) (rs_wrappers s w)))"

text \<open>\<open>Do\<close> up to \<open>waitForDeps\<close>; the deferred \<open>done.Done()\<close> is in every way out.\<close>

definition do_return :: "string \<Rightarrow> serviceWrapper \<Rightarrow> run_state \<Rightarrow> run_state" where
  "do_return w wr s = set_routine w Returned (set_wrapper w (wr\<lparr>sw_done := sw_done wr - 1\<rparr>) s)"

definition do_enter :: "do_op \<Rightarrow> string \<Rightarrow> serviceWrapper \<Rightarrow> run_state \<Rightarrow> run_state" where
  "do_enter op w wr s =
     (if sw_state wr = StateExecuted then do_return w wr s
      else if op_wait op \<and> \<not> sw_noWait wr
        then set_routine w (Waiting (sv_DependentServices (sw_service wr))) s
        else set_routine w (Waiting []) s)"

text \<open>One round of the loop of \<open>waitForDeps\<close>.\<close>

definition waitForDeps_step :: "string \<Rightarrow> serviceWrapper \<Rightarrow> ServiceRelationship \<Rightarrow> ServiceRelationship list \<Rightarrow>
    run_state \<Rightarrow> run_state option" where
  "waitForDeps_step w wr dep deps s =
     (if rel_Target dep \<in> sw_ignored wr then Some (set_routine w (Waiting deps) s)
      else (case rs_wrappers s (rel_Target dep) of
          None \<Rightarrow> Some (set_routine w (Waiting deps) s)
        | Some target \<Rightarrow>
            (case wrapper_Wait target of
               None \<Rightarrow> None
             | Some err \<Rightarrow>
                 if err = ErrRestart
                 then Some (do_return w (wr\<lparr>sw_err := ErrRestart\<rparr>)
                        (notify EventProjectReload (sv_Name (sw_service target)) s))
                 else Some (set_routine w (Waiting deps) s))))"

text \<open>\<open>Do\<close> after \<open>waitForDeps\<close>: the state and the start event, then the action and what follows it.\<close>

definition do_begin :: "do_op \<Rightarrow> string \<Rightarrow> serviceWrapper \<Rightarrow> run_state \<Rightarrow> run_state" where
  "do_begin op w wr s =
     set_routine w Acting
       (notify (op_start op) (sv_Name (sw_service wr)) (set_wrapper w (wr\<lparr>sw_state := StateExecuted\<rparr>) s))"

definition do_action :: "do_op \<Rightarrow> string \<Rightarrow> serviceWrapper \<Rightarrow> run_state \<Rightarrow> run_state" where
  "do_action op w wr s =
     (let err = op_action op w;
          name = sv_Name (sw_service wr);
          s' = (case err of
                  ErrRestart \<Rightarrow> notify EventProjectReloadTrigger name (notify (op_done op) name s)
                | OtherErr _ \<Rightarrow> s
                | NoErr \<Rightarrow> notify (op_done op) name s)
      in do_return w (wr\<lparr>sw_err := err\<rparr>) s')"

definition routine_step :: "do_op \<Rightarrow> string \<Rightarrow> run_state \<Rightarrow> run_state option" where
  "routine_step op w s = (case rs_wrappers s w of
     None \<Rightarrow> None
   | Some wr \<Rightarrow> (case rs_routines s w of
       None \<Rightarrow> None
     | Some Entered \<Rightarrow> Some (do_enter op w wr s)
     | Some (Waiting []) \<Rightarrow> Some (do_begin op w wr s)
     | Some (Waiting (dep # deps)) \<Rightarrow> waitForDeps_step w wr dep deps s
     | Some Acting \<Rightarrow> Some (do_action op w wr s)
     | Some Returned \<Rightarrow> None))"

inductive run_step :: "do_op \<Rightarrow> run_state \<Rightarrow> run_state \<Rightarrow> bool" for op where
  launcher: "launcher_step s = Some s' \<Longrightarrow> run_step op s s'"
| goroutine: "routine_step op w s = Some s' \<Longrightarrow> run_step op s s'"

inductive_cases run_stepE: "run_step op s s'"

definition runs_to :: "do_op \<Rightarrow> run_state \<Rightarrow> run_state \<Rightarrow> bool" where
  "runs_to op = (run_step op)\<^sup>*\<^sup>*"

text \<open>The launch environment the wrappers make, and the state in which the launcher starts to spawn.\<close>

definition launch_env_of :: "(string \<rightharpoonup> serviceWrapper) \<Rightarrow> string set \<Rightarrow> (string \<Rightarrow> string option) option \<Rightarrow>
    launch_env" where
  "launch_env_of W selected cycleAction =
     \<lparr>le_wrappers = dom W,
      le_deps = (\<lambda>n. case W n of None \<Rightarrow> [] | Some wr \<Rightarrow> sv_DependentServices (sw_service wr)),
      le_selected = selected, le_cycleAction = cycleAction\<rparr>"

definition run_init :: "(string \<rightharpoonup> serviceWrapper) \<Rightarrow> launch_state \<Rightarrow> run_state" where
  "run_init W st =
     \<lparr>rs_wrappers = (\<lambda>n. map_option
         (\<lambda>wr. wr\<lparr>sw_ignored := sw_ignored wr \<union> {d. (n, d) \<in> ls_ignored st}\<rparr>) (W n)),
      rs_routines = Map.empty, rs_pending = ls_started st, rs_events = []\<rparr>"

definition finished :: "run_state \<Rightarrow> string \<Rightarrow> bool" where
  "finished s w \<longleftrightarrow> (\<exists>wr. rs_wrappers s w = Some wr \<and> sw_done wr = 0)"

text \<open>
  The error every wrapper ends with, as a function: the wrappers in the order of the launch, each from
  the errors of those before it.
\<close>

definition restarts :: "do_op \<Rightarrow> (string \<rightharpoonup> werr) \<Rightarrow> serviceWrapper \<Rightarrow> bool" where
  "restarts op m wr \<longleftrightarrow> op_wait op \<and> \<not> sw_noWait wr \<and>
     (\<exists>dep \<in> set (sv_DependentServices (sw_service wr)).
        rel_Target dep \<notin> sw_ignored wr \<and> m (rel_Target dep) = Some ErrRestart)"

definition wrapper_result :: "do_op \<Rightarrow> (string \<rightharpoonup> werr) \<Rightarrow> string \<Rightarrow> bool \<Rightarrow> serviceWrapper \<Rightarrow> werr" where
  "wrapper_result op m w selected wr =
     (if \<not> selected \<or> sw_state wr = StateExecuted then sw_err wr
      else if restarts op m wr then ErrRestart else op_action op w)"

fun run_results :: "do_op \<Rightarrow> (string \<rightharpoonup> serviceWrapper) \<Rightarrow> (string \<times> bool) list \<Rightarrow> (string \<rightharpoonup> werr) \<Rightarrow> (string \<rightharpoonup> werr)" where
  "run_results op W [] m = m"
| "run_results op W ((w, selected) # rest) m =
     run_results op W rest (case W w of None \<Rightarrow> m | Some wr \<Rightarrow> m(w \<mapsto> wrapper_result op m w selected wr))"

section \<open>The results are determined by the launch order\<close>

text \<open>What an error-free launch leaves: every wrapper once, after the wrappers it will wait for.\<close>

definition wait_ordered :: "(string \<rightharpoonup> serviceWrapper) \<Rightarrow> (string \<times> bool) list \<Rightarrow> bool" where
  "wait_ordered W started \<longleftrightarrow>
     (\<forall>xs w b ys wr. started = xs @ (w, b) # ys \<longrightarrow> W w = Some wr \<longrightarrow>
        (\<forall>dep \<in> set (sv_DependentServices (sw_service wr)).
           rel_Target dep \<in> sw_ignored wr \<or> W (rel_Target dep) = None \<or> rel_Target dep \<in> fst ` set xs))"

definition ready :: "(string \<rightharpoonup> serviceWrapper) \<Rightarrow> (string \<times> bool) list \<Rightarrow> bool" where
  "ready W started \<longleftrightarrow>
     distinct (map fst started) \<and> fst ` set started = dom W \<and>
     (\<forall>wr \<in> ran W. sw_done wr = 1) \<and> wait_ordered W started"

lemma readyD:
  assumes "ready W started"
  shows "distinct (map fst started)" "fst ` set started = dom W" "W w = Some wr \<Longrightarrow> sw_done wr = 1"
    "started = xs @ (w, b) # ys \<Longrightarrow> W w = Some wr \<Longrightarrow> dep \<in> set (sv_DependentServices (sw_service wr)) \<Longrightarrow>
       rel_Target dep \<notin> sw_ignored wr \<Longrightarrow> W (rel_Target dep) \<noteq> None \<Longrightarrow> rel_Target dep \<in> fst ` set xs"
proof -
  show "distinct (map fst started)" "fst ` set started = dom W" "W w = Some wr \<Longrightarrow> sw_done wr = 1"
    using assms by (auto simp: ready_def ran_def)
  have ord: "wait_ordered W started" using assms by (simp add: ready_def)
  show "rel_Target dep \<in> fst ` set xs"
    if "started = xs @ (w, b) # ys" "W w = Some wr" "dep \<in> set (sv_DependentServices (sw_service wr))"
      "rel_Target dep \<notin> sw_ignored wr" "W (rel_Target dep) \<noteq> None"
    using ord [unfolded wait_ordered_def, rule_format, OF that(1-3)] that(4,5) by simp
qed

lemma run_results_append:
  "run_results op W (xs @ ys) m = run_results op W ys (run_results op W xs m)"
  by (induction op W xs m rule: run_results.induct) auto

lemma run_results_other:
  "w \<notin> fst ` set xs \<Longrightarrow> run_results op W xs m w = m w"
  by (induction op W xs m rule: run_results.induct) (auto split: option.splits)

lemma run_results_missing: "W w = None \<Longrightarrow> run_results op W xs m w = m w"
  by (induction op W xs m rule: run_results.induct) (auto split: option.splits)

lemma run_results_eq:
  assumes "ready W started" "(w, b) \<in> set started" "W w = Some wr"
  shows "run_results op W started Map.empty w =
    Some (wrapper_result op (run_results op W started Map.empty) w b wr)"
proof -
  let ?E = "run_results op W started Map.empty"
  obtain xs ys where st: "started = xs @ (w, b) # ys" using assms(2) by (meson split_list)
  let ?m = "run_results op W xs Map.empty"
  have dist: "distinct (map fst (xs @ (w, b) # ys))" using readyD(1) [OF assms(1)] st by simp
  have E: "?E = run_results op W ys (?m(w \<mapsto> wrapper_result op ?m w b wr))"
    by (simp add: st run_results_append assms(3))
  have later: "?E x = ?m x" if "x \<in> fst ` set xs" for x
  proof -
    have "x \<notin> fst ` set ys" "x \<noteq> w" using dist that by auto
    then show ?thesis by (subst E) (simp add: run_results_other)
  qed
  have "restarts op ?E wr = restarts op ?m wr"
  proof -
    have "?E (rel_Target dep) = ?m (rel_Target dep)"
      if "dep \<in> set (sv_DependentServices (sw_service wr))" "rel_Target dep \<notin> sw_ignored wr" for dep
      using readyD(4) [OF assms(1) st assms(3) that] later
      by (cases "W (rel_Target dep)") (auto simp: run_results_missing)
    then show ?thesis by (auto simp: restarts_def)
  qed
  moreover have "?E w = Some (wrapper_result op ?m w b wr)"
    using dist by (subst E) (auto simp: run_results_other)
  ultimately show ?thesis by (simp add: wrapper_result_def)
qed

section \<open>The invariant of a run\<close>

definition dep_done :: "run_state \<Rightarrow> (string \<rightharpoonup> werr) \<Rightarrow> serviceWrapper \<Rightarrow> ServiceRelationship \<Rightarrow> bool" where
  "dep_done s E wr dep \<longleftrightarrow> rel_Target dep \<in> sw_ignored wr \<or> rs_wrappers s (rel_Target dep) = None \<or>
     (finished s (rel_Target dep) \<and> E (rel_Target dep) \<noteq> Some ErrRestart)"

definition to_wait :: "do_op \<Rightarrow> serviceWrapper \<Rightarrow> ServiceRelationship list" where
  "to_wait op wr = (if op_wait op \<and> \<not> sw_noWait wr then sv_DependentServices (sw_service wr) else [])"

text \<open>The state of one wrapper, by the place its goroutine is at; \<open>w0\<close> is the wrapper at the start.\<close>

fun routine_inv :: "do_op \<Rightarrow> (string \<rightharpoonup> werr) \<Rightarrow> run_state \<Rightarrow> string \<Rightarrow> bool \<Rightarrow> serviceWrapper \<Rightarrow> serviceWrapper \<Rightarrow>
    routine option \<Rightarrow> bool" where
  "routine_inv op E s w b w0 wr None \<longleftrightarrow>
     (if w \<in> fst ` set (rs_pending s) then wr = w0
      else \<not> b \<and> wr = w0\<lparr>sw_done := 0, sw_state := StateExecuted\<rparr>)"
| "routine_inv op E s w b w0 wr (Some Entered) \<longleftrightarrow>
     b \<and> w \<notin> fst ` set (rs_pending s) \<and> wr = w0"
| "routine_inv op E s w b w0 wr (Some (Waiting deps)) \<longleftrightarrow>
     b \<and> w \<notin> fst ` set (rs_pending s) \<and> wr = w0 \<and> sw_state w0 \<noteq> StateExecuted \<and>
     (\<exists>pre. to_wait op w0 = pre @ deps \<and> (\<forall>dep \<in> set pre. dep_done s E w0 dep))"
| "routine_inv op E s w b w0 wr (Some Acting) \<longleftrightarrow>
     b \<and> w \<notin> fst ` set (rs_pending s) \<and> wr = w0\<lparr>sw_state := StateExecuted\<rparr> \<and>
     sw_state w0 \<noteq> StateExecuted \<and> (\<forall>dep \<in> set (to_wait op w0). dep_done s E w0 dep)"
| "routine_inv op E s w b w0 wr (Some Returned) \<longleftrightarrow>
     b \<and> w \<notin> fst ` set (rs_pending s) \<and> sw_service wr = sw_service w0 \<and> sw_ignored wr = sw_ignored w0 \<and>
     sw_noWait wr = sw_noWait w0 \<and> sw_done wr = 0 \<and> Some (sw_err wr) = E w"

definition run_inv :: "do_op \<Rightarrow> (string \<rightharpoonup> serviceWrapper) \<Rightarrow> (string \<times> bool) list \<Rightarrow> run_state \<Rightarrow> bool" where
  "run_inv op W started s \<longleftrightarrow>
     (\<exists>pre. started = pre @ rs_pending s) \<and> dom (rs_wrappers s) = dom W \<and>
     (\<forall>w b w0. (w, b) \<in> set started \<longrightarrow> W w = Some w0 \<longrightarrow>
        (\<exists>wr. rs_wrappers s w = Some wr \<and>
           routine_inv op (run_results op W started Map.empty) s w b w0 wr (rs_routines s w)))"

lemma routine_inv_mono:
  assumes "routine_inv op E s w b w0 wr r"
    and "\<And>x. finished s x \<Longrightarrow> finished s' x"
    and "\<And>x. rs_wrappers s x = None \<Longrightarrow> rs_wrappers s' x = None"
    and "w \<in> fst ` set (rs_pending s') \<longleftrightarrow> w \<in> fst ` set (rs_pending s)"
  shows "routine_inv op E s' w b w0 wr r"
proof -
  have d: "dep_done s' E w0 dep" if "dep_done s E w0 dep" for dep
    using that assms(2,3) by (auto simp: dep_done_def)
  show ?thesis
    using assms(1,4) d by (cases "(op, E, s, w, b, w0, wr, r)" rule: routine_inv.cases) (auto, blast?)
qed

lemma routine_inv_pending:
  "routine_inv op E s w b w0 wr r \<Longrightarrow> w \<in> fst ` set (rs_pending s) \<Longrightarrow> r = None \<and> wr = w0"
  by (cases "(op, E, s, w, b, w0, wr, r)" rule: routine_inv.cases) (auto split: if_splits)

lemma run_state_sel [simp]:
  "rs_wrappers (notify ev n s) = rs_wrappers s" "rs_routines (notify ev n s) = rs_routines s"
  "rs_pending (notify ev n s) = rs_pending s"
  "rs_wrappers (set_wrapper w wr s) = (rs_wrappers s)(w \<mapsto> wr)"
  "rs_routines (set_wrapper w wr s) = rs_routines s" "rs_pending (set_wrapper w wr s) = rs_pending s"
  "rs_wrappers (set_routine w r s) = rs_wrappers s"
  "rs_routines (set_routine w r s) = (rs_routines s)(w \<mapsto> r)" "rs_pending (set_routine w r s) = rs_pending s"
  by (simp_all add: notify_def set_wrapper_def set_routine_def)

lemma run_inv_update:
  assumes inv: "run_inv op W started s" and w: "(w, b) \<in> set started" "W w = Some w0"
    and dist: "distinct (map fst started)"
    and wr: "rs_wrappers s w = Some wr" "sw_done wr \<noteq> 0"
    and s': "rs_wrappers s' = (rs_wrappers s)(w \<mapsto> wr')" "rs_routines s' = (rs_routines s)(w := r')"
    and pend: "\<exists>pre. started = pre @ rs_pending s'"
      "\<And>x. x \<noteq> w \<Longrightarrow> x \<in> fst ` set (rs_pending s') \<longleftrightarrow> x \<in> fst ` set (rs_pending s)"
    and r': "routine_inv op (run_results op W started Map.empty) s' w b w0 wr' r'"
  shows "run_inv op W started s'"
  unfolding run_inv_def
proof (intro conjI allI impI)
  show "\<exists>pre. started = pre @ rs_pending s'" by (rule pend)
  show "dom (rs_wrappers s') = dom W" using inv wr s' by (auto simp: run_inv_def)
  fix x c x0 assume x: "(x, c) \<in> set started" "W x = Some x0"
  show "\<exists>wr. rs_wrappers s' x = Some wr \<and>
    routine_inv op (run_results op W started Map.empty) s' x c x0 wr (rs_routines s' x)"
  proof (cases "x = w")
    case True
    with x w have "c = b" by (intro eq_key_imp_eq_value [OF dist, of w]) simp_all
    with True x w r' s' show ?thesis by simp
  next
    case False
    from inv x obtain xr where xr: "rs_wrappers s x = Some xr"
      "routine_inv op (run_results op W started Map.empty) s x c x0 xr (rs_routines s x)"
      unfolding run_inv_def by blast
    have "routine_inv op (run_results op W started Map.empty) s' x c x0 xr (rs_routines s x)"
      by (rule routine_inv_mono [OF xr(2)])
        (use wr s' False pend in \<open>auto simp: finished_def split: if_splits\<close>)
    with xr s' False show ?thesis by simp
  qed
qed

lemma run_inv_wrapper:
  assumes "run_inv op W started s" "ready W started" "rs_wrappers s w = Some wr"
  obtains b w0 where "(w, b) \<in> set started" "W w = Some w0"
    "routine_inv op (run_results op W started Map.empty) s w b w0 wr (rs_routines s w)"
proof -
  have "w \<in> dom W" using assms(1,3) by (auto simp: run_inv_def)
  then obtain b w0 where "(w, b) \<in> set started" "W w = Some w0"
    using readyD(2) [OF assms(2)] by fastforce
  with that assms show thesis unfolding run_inv_def by (metis option.inject)
qed

lemma launcher_inv:
  assumes inv: "run_inv op W started s" and rdy: "ready W started" and step: "launcher_step s = Some s'"
  shows "run_inv op W started s'"
proof -
  from step obtain w b rest where p: "rs_pending s = (w, b) # rest"
    by (auto simp: launcher_step_def split: list.splits)
  obtain pre where pre: "started = pre @ (w, b) # rest" and dom: "dom (rs_wrappers s) = dom W"
    using inv unfolding run_inv_def p by blast
  have "w \<in> fst ` set started" by (simp add: pre)
  then obtain wr where wr: "rs_wrappers s w = Some wr"
    unfolding readyD(2) [OF rdy] dom [symmetric] by blast
  from run_inv_wrapper [OF inv rdy wr] obtain c w0 where
    c: "(w, c) \<in> set started" "W w = Some w0" and
    r: "routine_inv op (run_results op W started Map.empty) s w c w0 wr (rs_routines s w)" .
  have dist: "distinct (map fst started)" by (rule readyD(1) [OF rdy])
  have cb: "c = b" by (rule eq_key_imp_eq_value [OF dist c(1)]) (simp add: pre)
  have new: "w \<notin> fst ` set rest" using dist pre by auto
  have r0: "rs_routines s w = None" "wr = w0"
    using routine_inv_pending [OF r] p by simp_all
  have d1: "sw_done wr = 1" using readyD(3) [OF rdy c(2)] r0 by simp
  show ?thesis
  proof (rule run_inv_update [OF inv c dist wr, of s' "if b then wr else wr\<lparr>sw_state := StateExecuted, sw_done := 0\<rparr>"
        "if b then Some Entered else None"])
    show "rs_wrappers s' = (rs_wrappers s)(w \<mapsto> if b then wr else wr\<lparr>sw_state := StateExecuted, sw_done := 0\<rparr>)"
      using step wr p d1 by (auto simp: launcher_step_def wrapper_Ignore_def fun_upd_idem)
    show "rs_routines s' = (rs_routines s)(w := if b then Some Entered else None)"
      using step wr p r0 by (auto simp: launcher_step_def wrapper_Ignore_def fun_upd_idem)
    have ps: "rs_pending s' = rest" using step wr p by (cases b) (auto simp: launcher_step_def wrapper_Ignore_def)
    show "\<exists>pre. started = pre @ rs_pending s'" using pre ps by (metis append_Cons append_Nil append_assoc)
    show "x \<in> fst ` set (rs_pending s') \<longleftrightarrow> x \<in> fst ` set (rs_pending s)" if "x \<noteq> w" for x
      using that ps p by auto
    show "routine_inv op (run_results op W started Map.empty) s' w c w0
       (if b then wr else wr\<lparr>sw_state := StateExecuted, sw_done := 0\<rparr>) (if b then Some Entered else None)"
      using ps new r0 cb by auto
  qed (use d1 in simp)
qed

text \<open>
  A goroutine's step changes its own wrapper and routine only, in one of six ways.
\<close>

inductive local_step :: "do_op \<Rightarrow> run_state \<Rightarrow> string \<Rightarrow> serviceWrapper \<Rightarrow> routine \<Rightarrow> serviceWrapper \<Rightarrow> routine \<Rightarrow> bool"
  for op s w where
  executed: "sw_state wr = StateExecuted \<Longrightarrow>
    local_step op s w wr Entered (wr\<lparr>sw_done := sw_done wr - 1\<rparr>) Returned"
| entered: "sw_state wr \<noteq> StateExecuted \<Longrightarrow> local_step op s w wr Entered wr (Waiting (to_wait op wr))"
| passed: "rel_Target dep \<in> sw_ignored wr \<or> rs_wrappers s (rel_Target dep) = None \<or>
      (\<exists>t. rs_wrappers s (rel_Target dep) = Some t \<and> sw_done t = 0 \<and> sw_err t \<noteq> ErrRestart) \<Longrightarrow>
    local_step op s w wr (Waiting (dep # deps)) wr (Waiting deps)"
| restarted: "rel_Target dep \<notin> sw_ignored wr \<Longrightarrow> rs_wrappers s (rel_Target dep) = Some t \<Longrightarrow> sw_done t = 0 \<Longrightarrow>
      sw_err t = ErrRestart \<Longrightarrow>
    local_step op s w wr (Waiting (dep # deps)) (wr\<lparr>sw_err := ErrRestart, sw_done := sw_done wr - 1\<rparr>) Returned"
| begun: "local_step op s w wr (Waiting []) (wr\<lparr>sw_state := StateExecuted\<rparr>) Acting"
| acted: "local_step op s w wr Acting (wr\<lparr>sw_err := op_action op w, sw_done := sw_done wr - 1\<rparr>) Returned"

lemma do_action_sel:
  "rs_pending (do_action op w wr s) = rs_pending s"
  "rs_wrappers (do_action op w wr s) =
     (rs_wrappers s)(w \<mapsto> wr\<lparr>sw_err := op_action op w, sw_done := sw_done wr - 1\<rparr>)"
  "rs_routines (do_action op w wr s) = (rs_routines s)(w \<mapsto> Returned)"
  by (simp_all add: do_action_def do_return_def Let_def split: werr.splits)

lemma routine_stepE:
  assumes "routine_step op w s = Some s'"
  obtains wr r wr' r' where "rs_wrappers s w = Some wr" "rs_routines s w = Some r"
    "rs_wrappers s' = (rs_wrappers s)(w \<mapsto> wr')" "rs_routines s' = (rs_routines s)(w \<mapsto> r')"
    "rs_pending s' = rs_pending s" "local_step op s w wr r wr' r'"
proof -
  from assms obtain wr r where wr: "rs_wrappers s w = Some wr" and r: "rs_routines s w = Some r"
    by (auto simp: routine_step_def split: option.splits)
  have same: "rs_wrappers s = (rs_wrappers s)(w \<mapsto> wr)" using wr by auto
  show thesis
  proof (cases r)
    case Entered
    show thesis
    proof (cases "sw_state wr = StateExecuted")
      case True
      with Entered assms wr r show thesis
        by (intro that [OF wr r _ _ _ local_step.executed [OF True, folded Entered]])
          (auto simp: routine_step_def do_enter_def do_return_def)
    next
      case False
      with Entered assms wr r same show thesis
        by (intro that [OF wr r _ _ _ local_step.entered [OF False, folded Entered]])
          (auto simp: routine_step_def do_enter_def to_wait_def)
    qed
  next
    case (Waiting deps)
    show thesis
    proof (cases deps)
      case Nil
      with Waiting assms wr r show thesis
        by (intro that [OF wr r _ _ _ local_step.begun [folded Nil, folded Waiting]])
          (auto simp: routine_step_def do_begin_def)
    next
      case (Cons dep ds)
      have step: "waitForDeps_step w wr dep ds s = Some s'"
        using assms Waiting Cons wr r by (simp add: routine_step_def)
      show thesis
      proof (cases "\<exists>t. rel_Target dep \<notin> sw_ignored wr \<and> rs_wrappers s (rel_Target dep) = Some t \<and>
          sw_done t = 0 \<and> sw_err t = ErrRestart")
        case True
        then obtain t where t: "rel_Target dep \<notin> sw_ignored wr" "rs_wrappers s (rel_Target dep) = Some t"
          "sw_done t = 0" "sw_err t = ErrRestart" by blast
        have ls: "local_step op s w wr r (wr\<lparr>sw_err := ErrRestart, sw_done := sw_done wr - 1\<rparr>) Returned"
          unfolding Waiting Cons by (rule local_step.restarted [OF t])
        with step t show thesis
          by (intro that [OF wr r _ _ _ ls]) (auto simp: waitForDeps_step_def wrapper_Wait_def do_return_def)
      next
        case False
        with step have "rel_Target dep \<in> sw_ignored wr \<or> rs_wrappers s (rel_Target dep) = None \<or>
            (\<exists>t. rs_wrappers s (rel_Target dep) = Some t \<and> sw_done t = 0 \<and> sw_err t \<noteq> ErrRestart)"
          "s' = set_routine w (Waiting ds) s"
          by (auto simp: waitForDeps_step_def wrapper_Wait_def split: if_splits option.splits)
        moreover have "local_step op s w wr r wr (Waiting ds)"
          unfolding Waiting Cons by (rule local_step.passed) fact
        ultimately show thesis using same by (intro that [OF wr r]) auto
      qed
    qed
  next
    case Acting
    with assms wr r have "s' = do_action op w wr s" by (simp add: routine_step_def)
    with Acting show thesis
      by (intro that [OF wr r _ _ _ local_step.acted [folded Acting]]) (simp_all add: do_action_sel)
  next
    case Returned
    with assms wr r show thesis by (simp add: routine_step_def)
  qed
qed

lemma dep_done_own:
  assumes "dep_done s E wr dep" "rs_wrappers s w = Some x" "sw_done x \<noteq> 0"
    "rs_wrappers s' = (rs_wrappers s)(w \<mapsto> y)"
  shows "dep_done s' E wr dep"
  using assms by (auto simp: dep_done_def finished_def)

lemma finished_result:
  assumes inv: "run_inv op W started s" and rdy: "ready W started"
    and t: "rs_wrappers s x = Some t" "sw_done t = 0"
  shows "run_results op W started Map.empty x = Some (sw_err t)"
proof -
  let ?E = "run_results op W started Map.empty"
  from run_inv_wrapper [OF inv rdy t(1)] obtain b w0 where
    b: "(x, b) \<in> set started" "W x = Some w0" and r: "routine_inv op ?E s x b w0 t (rs_routines s x)" .
  have "sw_done w0 = 1" by (rule readyD(3) [OF rdy b(2)])
  then have "(\<not> b \<and> sw_err t = sw_err w0) \<or> Some (sw_err t) = ?E x"
    using r t(2) by (cases "(op, ?E, s, x, b, w0, t, rs_routines s x)" rule: routine_inv.cases)
      (auto split: if_splits)
  then show ?thesis
    using run_results_eq [OF rdy b, of op] by (auto simp: wrapper_result_def)
qed

lemma run_inv_dom: "run_inv op W started s \<Longrightarrow> rs_wrappers s x = None \<longleftrightarrow> W x = None"
  unfolding run_inv_def by (metis domIff)

lemma goroutine_inv:
  assumes inv: "run_inv op W started s" and rdy: "ready W started" and step: "routine_step op w s = Some s'"
  shows "run_inv op W started s'"
proof -
  let ?E = "run_results op W started Map.empty"
  from step obtain wr r wr' r' where wr: "rs_wrappers s w = Some wr" and r: "rs_routines s w = Some r"
    and s': "rs_wrappers s' = (rs_wrappers s)(w \<mapsto> wr')" "rs_routines s' = (rs_routines s)(w \<mapsto> r')"
      "rs_pending s' = rs_pending s"
    and ls: "local_step op s w wr r wr' r'"
    by (rule routine_stepE)
  from run_inv_wrapper [OF inv rdy wr] obtain b w0 where
    b: "(w, b) \<in> set started" "W w = Some w0" and ri: "routine_inv op ?E s w b w0 wr (Some r)"
    unfolding r .
  have d0: "sw_done w0 = 1" by (rule readyD(3) [OF rdy b(2)])
  have d: "sw_done wr = 1" using ls ri d0 by (cases rule: local_step.cases) auto
  have own: "dep_done s E' x dep \<Longrightarrow> dep_done s' E' x dep" for E' x dep
    by (rule dep_done_own [OF _ wr]) (use d s' in auto)
  have E: "?E w = Some (wrapper_result op ?E w b w0)" by (rule run_results_eq [OF rdy b])
  have "routine_inv op ?E s' w b w0 wr' (Some r')"
    using ls
  proof (cases rule: local_step.cases)
    case executed
    with ri d s'(3) E show ?thesis by (auto simp: wrapper_result_def)
  next
    case entered
    with ri d s'(3) show ?thesis by auto
  next
    case (passed dep deps)
    have "dep_done s ?E wr dep"
      using passed(4) finished_result [OF inv rdy] by (auto simp: dep_done_def finished_def)
    moreover have w0: "wr = w0" using ri passed(1) by simp
    ultimately have dd: "dep_done s ?E w0 dep" by simp
    from ri passed(1) obtain pre where pre: "to_wait op w0 = pre @ dep # deps" "\<forall>x \<in> set pre. dep_done s ?E w0 x"
      by auto
    have "to_wait op w0 = (pre @ [dep]) @ deps" "\<forall>x \<in> set (pre @ [dep]). dep_done s' ?E w0 x"
      using pre dd own by auto
    then show ?thesis using ri passed(1-3) s'(3) w0 unfolding passed(3) routine_inv.simps by auto
  next
    case (restarted dep t deps)
    have w0: "wr = w0" using ri restarted(1) by simp
    from ri restarted(1) obtain pre where pre: "to_wait op w0 = pre @ dep # deps" by auto
    have "?E (rel_Target dep) = Some ErrRestart"
      using finished_result [OF inv rdy restarted(5,6)] restarted(7) by simp
    then have "restarts op ?E w0"
      using pre restarted(4) w0 by (auto simp: restarts_def to_wait_def split: if_splits intro!: bexI [of _ dep])
    with ri restarted(1-3) d s'(3) E w0 show ?thesis by (auto simp: wrapper_result_def)
  next
    case begun
    with ri s'(3) own show ?thesis by auto
  next
    case acted
    have "?E x = None" if "rs_wrappers s x = None" for x
      using that run_results_missing [of W x op started Map.empty] by (simp add: run_inv_dom [OF inv])
    then have "\<not> restarts op ?E w0"
      using ri acted(1) by (auto simp: restarts_def to_wait_def dep_done_def finished_def E)
    with ri acted d s'(3) E show ?thesis by (auto simp: wrapper_result_def)
  qed
  then show ?thesis
    by (intro run_inv_update [OF inv b readyD(1) [OF rdy] wr _ s'(1,2)])
      (use d inv s'(3) in \<open>auto simp: run_inv_def\<close>)
qed

lemma run_inv_step:
  "run_inv op W started s \<Longrightarrow> ready W started \<Longrightarrow> run_step op s s' \<Longrightarrow> run_inv op W started s'"
  by (erule run_stepE) (auto intro: launcher_inv goroutine_inv)

lemma run_inv_start:
  assumes "ready W started"
  shows "run_inv op W started \<lparr>rs_wrappers = W, rs_routines = Map.empty, rs_pending = started, rs_events = evs\<rparr>"
  using assms by (force simp: run_inv_def)

section \<open>Progress and termination\<close>

fun routine_weight :: "do_op \<Rightarrow> serviceWrapper \<Rightarrow> routine option \<Rightarrow> nat" where
  "routine_weight op wr (Some Entered) = length (to_wait op wr) + 3"
| "routine_weight op wr (Some (Waiting deps)) = length deps + 2"
| "routine_weight op wr (Some Acting) = 1"
| "routine_weight op wr (Some Returned) = 0"
| "routine_weight op wr None = 0"

definition wrapper_weight :: "do_op \<Rightarrow> run_state \<Rightarrow> string \<Rightarrow> nat" where
  "wrapper_weight op s w = (case rs_wrappers s w of None \<Rightarrow> 0 | Some wr \<Rightarrow>
     if w \<in> fst ` set (rs_pending s) then length (to_wait op wr) + 4 else routine_weight op wr (rs_routines s w))"

definition run_weight :: "do_op \<Rightarrow> (string \<times> bool) list \<Rightarrow> run_state \<Rightarrow> nat" where
  "run_weight op started s = sum_list (map (wrapper_weight op s \<circ> fst) started)"

lemma run_weight_less:
  assumes "\<And>x. x \<in> fst ` set started \<Longrightarrow> x \<noteq> w \<Longrightarrow> wrapper_weight op s' x = wrapper_weight op s x"
    and "w \<in> fst ` set started" "distinct (map fst started)"
    and "wrapper_weight op s' w < wrapper_weight op s w"
  shows "run_weight op started s' < run_weight op started s"
proof -
  from assms(2) obtain xs b ys where st: "started = xs @ (w, b) # ys" by (metis imageE prod.collapse split_list)
  have xs: "map (wrapper_weight op s' \<circ> fst) xs = map (wrapper_weight op s \<circ> fst) xs"
    using assms(1,3) by (auto simp: st intro!: assms(1) rev_image_eqI)
  have ys: "map (wrapper_weight op s' \<circ> fst) ys = map (wrapper_weight op s \<circ> fst) ys"
    using assms(1,3) by (auto simp: st intro!: assms(1) rev_image_eqI)
  show ?thesis using assms(4) unfolding run_weight_def st map_append list.map xs ys by simp
qed

lemma local_step_weight:
  "local_step op s w wr r wr' r' \<Longrightarrow> routine_weight op wr' (Some r') < routine_weight op wr (Some r)"
  by (erule local_step.cases) auto

lemma run_step_weight:
  assumes inv: "run_inv op W started s" and rdy: "ready W started" and step: "run_step op s s'"
  shows "run_weight op started s' < run_weight op started s"
  using step
proof (cases rule: run_step.cases)
  case launcher
  then obtain w b rest where p: "rs_pending s = (w, b) # rest"
    by (auto simp: launcher_step_def split: list.splits)
  obtain pre where pre: "started = pre @ (w, b) # rest"
    using inv unfolding run_inv_def p by blast
  have dist: "distinct (map fst started)" by (rule readyD(1) [OF rdy])
  have "w \<in> dom W" unfolding readyD(2) [OF rdy, symmetric] by (simp add: pre)
  then obtain wr where wr: "rs_wrappers s w = Some wr" using run_inv_dom [OF inv] by fastforce
  have new: "w \<notin> fst ` set rest" using dist pre by auto
  have wp: "w \<in> fst ` set (rs_pending s)" by (simp add: p)
  have "rs_routines s w = None"
    by (rule run_inv_wrapper [OF inv rdy wr]) (drule routine_inv_pending [OF _ wp], simp)
  with launcher p wr new have own: "wrapper_weight op s' w < wrapper_weight op s w"
    by (cases b) (auto simp: launcher_step_def wrapper_weight_def wrapper_Ignore_def)
  have other: "rs_wrappers s' x = rs_wrappers s x" "rs_routines s' x = rs_routines s x"
    "x \<in> fst ` set (rs_pending s') \<longleftrightarrow> x \<in> fst ` set (rs_pending s)" if "x \<noteq> w" for x
    using launcher p wr that by (cases b; force simp: launcher_step_def wrapper_Ignore_def)+
  show ?thesis
    by (rule run_weight_less [OF _ _ dist own]) (simp_all add: wrapper_weight_def other pre cong: option.case_cong if_cong)
next
  case (goroutine w)
  then obtain wr r wr' r' where
    wr: "rs_wrappers s w = Some wr" and r: "rs_routines s w = Some r"
    and s': "rs_wrappers s' = (rs_wrappers s)(w \<mapsto> wr')" "rs_routines s' = (rs_routines s)(w \<mapsto> r')"
      "rs_pending s' = rs_pending s"
    and ls: "local_step op s w wr r wr' r'"
    by (rule routine_stepE)
  have "w \<notin> fst ` set (rs_pending s)"
  proof
    assume wp: "w \<in> fst ` set (rs_pending s)"
    show False
      by (rule run_inv_wrapper [OF inv rdy wr]) (drule routine_inv_pending [OF _ wp], simp add: r)
  qed
  then have own: "wrapper_weight op s' w < wrapper_weight op s w"
    using local_step_weight [OF ls] by (simp add: wrapper_weight_def wr r s')
  have "w \<in> fst ` set started"
    using wr run_inv_dom [OF inv] unfolding readyD(2) [OF rdy] by (metis domIff option.distinct(1))
  then show ?thesis
    by (intro run_weight_less [OF _ _ readyD(1) [OF rdy] own])
      (simp_all add: wrapper_weight_def s' cong: option.case_cong if_cong)
qed

text \<open>A state without a step is one in which every wrapper is done: no deadlock.\<close>

lemma run_progress:
  assumes inv: "run_inv op W started s" and rdy: "ready W started" and stuck: "\<And>s'. \<not> run_step op s s'"
    and w: "W w \<noteq> None"
  shows "finished s w"
proof (rule ccontr)
  assume nf: "\<not> finished s w"
  have pend: "rs_pending s = []"
  proof (rule ccontr)
    assume "rs_pending s \<noteq> []"
    then obtain x b rest where p: "rs_pending s = (x, b) # rest" by (cases "rs_pending s") auto
    then have "x \<in> fst ` set started" using inv by (force simp: run_inv_def)
    then have "rs_wrappers s x \<noteq> None" using run_inv_dom [OF inv] readyD(2) [OF rdy] by blast
    with p have "launcher_step s \<noteq> None" by (cases b) (auto simp: launcher_step_def)
    with stuck run_step.launcher show False by blast
  qed
  have "w \<in> fst ` set started" using w unfolding readyD(2) [OF rdy] by auto
  with nf have "\<exists>p \<in> set started. \<not> finished s (fst p)" by auto
  then obtain pre p post where first: "started = pre @ p # post" "\<not> finished s (fst p)"
    "\<forall>q \<in> set pre. finished s (fst q)"
    using split_list_first_prop [of started "\<lambda>p. \<not> finished s (fst p)"] by blast
  obtain x b where p: "p = (x, b)" by fastforce
  have "x \<in> fst ` set started" by (simp add: first(1) p)
  then obtain w0 where w0: "W x = Some w0" unfolding readyD(2) [OF rdy] by blast
  then obtain wr where wr: "rs_wrappers s x = Some wr" using run_inv_dom [OF inv, of x] by auto
  have ri: "routine_inv op (run_results op W started Map.empty) s x b w0 wr (rs_routines s x)"
    using inv w0 wr unfolding run_inv_def by (simp add: first(1) p)
  have nd: "sw_done wr \<noteq> 0" using first(2) p wr by (simp add: finished_def)
  have "routine_step op x s \<noteq> None"
  proof (cases "rs_routines s x")
    case None
    with ri pend nd show ?thesis by simp
  next
    case (Some r)
    show ?thesis
    proof (cases r)
      case (Waiting deps)
      show ?thesis
      proof (cases deps)
        case (Cons dep ds)
        from ri Some Waiting Cons obtain l where l: "to_wait op w0 = l @ dep # ds" and "wr = w0" by auto
        then have dep: "dep \<in> set (sv_DependentServices (sw_service w0))"
          by (auto simp: to_wait_def split: if_splits)
        have "rel_Target dep \<in> sw_ignored w0 \<or> W (rel_Target dep) = None \<or> finished s (rel_Target dep)"
          using readyD(4) [OF rdy first(1) [unfolded p] w0 dep] first(3) by (metis imageE)
        then show ?thesis using Some Waiting Cons wr \<open>wr = w0\<close> run_inv_dom [OF inv, of "rel_Target dep"]
          by (auto simp: routine_step_def waitForDeps_step_def wrapper_Wait_def finished_def split: option.splits)
      qed (use Some Waiting wr in \<open>simp add: routine_step_def\<close>)
    qed (use Some wr ri nd in \<open>auto simp: routine_step_def\<close>)
  qed
  with stuck run_step.goroutine show False by blast
qed

section \<open>From the launch to the run\<close>

lemma launch_ready:
  assumes clean: "launch (launch_env_of W selected cycleAction) ws = Some ([], st)"
    and ws: "set ws = dom W" and one: "\<forall>wr \<in> ran W. sw_done wr = 1"
  shows "ready (rs_wrappers (run_init W st)) (rs_pending (run_init W st))"
proof -
  let ?env = "launch_env_of W selected cycleAction"
  have inv: "launch_inv ?env {} st" and names: "set (started_names st) = dom W"
    using launch_clean [OF clean] ws by (simp_all add: launch_env_of_def)
  have "wait_ordered (rs_wrappers (run_init W st)) (ls_started st)"
    unfolding wait_ordered_def
  proof (intro allI impI ballI)
    fix xs w b ys wr dep
    assume a: "ls_started st = xs @ (w, b) # ys" "rs_wrappers (run_init W st) w = Some wr"
      "dep \<in> set (sv_DependentServices (sw_service wr))"
    from a(2) obtain w0 where w0: "W w = Some w0"
      "wr = w0\<lparr>sw_ignored := sw_ignored w0 \<union> {d. (w, d) \<in> ls_ignored st}\<rparr>"
      by (auto simp: run_init_def)
    have n: "started_names st = map fst xs @ w # map fst ys" by (simp add: started_names_def a(1))
    have "\<forall>i < length (started_names st). \<forall>dep \<in> set (le_deps ?env (started_names st ! i)).
        dep_settled ?env (ls_ignored st) (set (take i (started_names st))) (started_names st ! i) dep"
      using inv by (simp add: launch_inv_def launch_ordered_def)
    from this [rule_format, of "length xs" dep]
    have "dep_settled ?env (ls_ignored st) (fst ` set xs) w dep"
      using a(3) w0 by (simp add: n nth_append launch_env_of_def)
    then show "rel_Target dep \<in> sw_ignored wr \<or> rs_wrappers (run_init W st) (rel_Target dep) = None \<or>
        rel_Target dep \<in> fst ` set xs"
      using w0 by (auto simp: dep_settled_def launch_env_of_def run_init_def)
  qed
  moreover have "\<forall>wr \<in> ran (rs_wrappers (run_init W st)). sw_done wr = 1"
    using one by (auto simp: run_init_def ran_def)
  ultimately show ?thesis
    using inv names by (auto simp: ready_def run_init_def launch_inv_def started_names_def dom_def)
qed

lemma run_inv_runs:
  assumes "ready W started" "runs_to op \<lparr>rs_wrappers = W, rs_routines = Map.empty, rs_pending = started, rs_events = evs\<rparr> s"
  shows "run_inv op W started s"
  using assms(2) unfolding runs_to_def
  by (induction rule: rtranclp_induct) (auto intro: run_inv_start run_inv_step assms(1))

lemma run_init_eta:
  "run_init W st = \<lparr>rs_wrappers = rs_wrappers (run_init W st), rs_routines = Map.empty,
     rs_pending = rs_pending (run_init W st), rs_events = []\<rparr>"
  by (simp add: run_init_def)

lemma run_inv_from_launch:
  assumes "launch (launch_env_of W selected cycleAction) ws = Some ([], st)"
    "set ws = dom W" "\<forall>wr \<in> ran W. sw_done wr = 1" "runs_to op (run_init W st) s"
  shows "run_inv op (rs_wrappers (run_init W st)) (ls_started st) s"
  using run_inv_runs [OF launch_ready [OF assms(1-3)], of op "[]" s] assms(4)
  by (simp add: run_init_eta [symmetric]) (simp add: run_init_def)

section \<open>A launch that reported an error\<close>

definition names_launched :: "launch_state \<Rightarrow> bool" where
  "names_launched st \<longleftrightarrow> set (started_names st) \<subseteq> ls_launched st"

text \<open>A launched wrapper that was not handed on is never handed on later.\<close>

definition left_behind :: "launch_state \<Rightarrow> string \<Rightarrow> bool" where
  "left_behind st x \<longleftrightarrow> x \<in> ls_launched st \<and> x \<notin> set (started_names st)"

lemma startDeps_left_behind:
  assumes "\<And>h u st e st'. startService n env h u st = Some (e, st') \<Longrightarrow> names_launched st \<Longrightarrow>
      names_launched st' \<and> (\<forall>x. left_behind st x \<longrightarrow> left_behind st' x)"
  shows "startDeps n env history w deps st = Some (e, st') \<Longrightarrow> names_launched st \<Longrightarrow>
      names_launched st' \<and> (\<forall>x. left_behind st x \<longrightarrow> left_behind st' x)"
proof (induction deps arbitrary: st)
  case (Cons dep deps)
  from Cons.prems(1) show ?case
  proof (cases rule: startDeps_ConsE)
    case (ignored st1)
    with Cons.IH [of st1] Cons.prems(2) show ?thesis
      by (simp add: left_behind_def names_launched_def started_names_def)
  next
    case cycle_action
    with Cons.prems(2) show ?thesis by (simp add: left_behind_def names_launched_def started_names_def)
  next
    case (dep_ok st1)
    with assms [OF dep_ok(3)] Cons.IH [of st1] Cons.prems(2) show ?thesis by blast
  qed (use Cons assms in blast)+
qed simp

lemma startService_left_behind:
  "startService n env history w st = Some (e, st') \<Longrightarrow> names_launched st \<Longrightarrow>
     names_launched st' \<and> (\<forall>x. left_behind st x \<longrightarrow> left_behind st' x) \<and> (e \<noteq> None \<longrightarrow> left_behind st' w)"
proof (induction n arbitrary: history w st e st')
  case (Suc n)
  let ?st = "st\<lparr>ls_launched := insert w (ls_launched st)\<rparr>"
  have deps: "names_launched st1 \<and> (\<forall>x. left_behind s x \<longrightarrow> left_behind st1 x)"
    if "startDeps n env h w ds s = Some (e', st1)" "names_launched s" for h ds s e' st1
    by (rule startDeps_left_behind [OF _ that]) (use Suc.IH in blast)
  have n1: "names_launched ?st" and l1: "left_behind st x \<Longrightarrow> left_behind ?st x" for x
    using Suc.prems(2) by (auto simp: names_launched_def left_behind_def started_names_def)
  from Suc.prems(1) show ?case
  proof (cases rule: startService_SucE)
    case already
    with Suc.prems show ?thesis by simp
  next
    case (failed err)
    have "left_behind ?st w"
      using failed(1) Suc.prems(2) by (auto simp: names_launched_def left_behind_def started_names_def)
    with deps [OF failed(3) n1] l1 show ?thesis by blast
  next
    case (started st1)
    have d: "names_launched st1" "left_behind st x \<Longrightarrow> left_behind st1 x" for x
      using deps [OF started(3) n1] l1 by blast+
    moreover have "w \<in> ls_launched st1" using startService_mono [OF Suc.prems(1)] deps started(3)
      startDeps_mono [OF startService_mono started(3)] by simp
    moreover have "\<not> left_behind st w" using started(1) by (simp add: left_behind_def)
    ultimately show ?thesis using started(1,2,4)
      by (auto simp: names_launched_def left_behind_def started_names_def)
  qed
qed simp

lemma startAll_left_behind:
  "startAll n env ws st = Some (errs, st') \<Longrightarrow> names_launched st \<Longrightarrow>
     (\<forall>x. left_behind st x \<longrightarrow> left_behind st' x) \<and> (errs \<noteq> [] \<longrightarrow> (\<exists>x \<in> set ws. left_behind st' x))"
proof (induction ws arbitrary: st errs)
  case (Cons w ws)
  from Cons.prems(1) obtain e st1 errs1 where
    s1: "startService n env [] w st = Some (e, st1)" "startAll n env ws st1 = Some (errs1, st')"
    and errs: "errs = (case e of None \<Rightarrow> errs1 | Some x \<Rightarrow> x # errs1)"
    by (auto split: option.splits)
  note a = startService_left_behind [OF s1(1) Cons.prems(2)]
  with Cons.IH [OF s1(2)] errs show ?case by (cases e) auto
qed simp

text \<open>A wrapper that was never handed on stays as it was, so a wait for it never returns.\<close>

lemma step_keeps_unstarted:
  assumes "run_step op s s'" "rs_routines s x = None" "x \<notin> fst ` set (rs_pending s)"
  shows "rs_wrappers s' x = rs_wrappers s x \<and> rs_routines s' x = None \<and> x \<notin> fst ` set (rs_pending s')"
  using assms(1)
proof (cases rule: run_step.cases)
  case launcher
  with assms(2,3) show ?thesis
    by (auto simp: launcher_step_def wrapper_Ignore_def Let_def split: list.splits if_splits; force)
next
  case (goroutine w)
  then show ?thesis by (rule routine_stepE) (use assms(2,3) in auto)
qed

lemma runs_keep_unstarted:
  assumes "runs_to op s s'" "rs_routines s x = None" "x \<notin> fst ` set (rs_pending s)"
  shows "rs_wrappers s' x = rs_wrappers s x"
proof -
  have "rs_wrappers s' x = rs_wrappers s x \<and> rs_routines s' x = None \<and> x \<notin> fst ` set (rs_pending s')"
    using assms(1) unfolding runs_to_def
    by (induction rule: rtranclp_induct) (use assms(2,3) step_keeps_unstarted in auto)
  then show ?thesis by blast
qed

section \<open>Properties of the launch and of the run\<close>

definition sample_service :: "string \<Rightarrow> (string \<times> bool) list \<Rightarrow> serviceWrapper" where
  "sample_service name deps =
     \<lparr>sw_name = name,
      sw_service = \<lparr>sv_Name = name, sv_DependentServices =
        map (\<lambda>(t, opt). \<lparr>rel_Target = t, rel_Alias = t, rel_Type = RelTypeLink, rel_Optional = opt\<rparr>) deps\<rparr>,
      sw_done = 1, sw_state = StateUnknown, sw_err = NoErr, sw_noWait = False, sw_ignored = {}\<rparr>"

text \<open>Two services that link to each other, as the compose file of a web server and its database.\<close>

definition sample_wrappers :: "bool \<Rightarrow> string \<rightharpoonup> serviceWrapper" where
  "sample_wrappers opt =
     [''web'' \<mapsto> sample_service ''web'' [(''db'', opt)], ''db'' \<mapsto> sample_service ''db'' [(''web'', opt)]]"

definition sample_op :: do_op where
  "sample_op = \<lparr>op_wait = True, op_start = EventServiceUpStart, op_done = EventServiceUp,
     op_action = (\<lambda>w. if w = ''db'' then ErrRestart else NoErr)\<rparr>"

definition sample_launched :: launch_state where
  "sample_launched = \<lparr>ls_launched = {''web'', ''db''}, ls_ignored = {(''db'', ''web'')},
     ls_started = [(''db'', True), (''web'', True)], ls_cycled = []\<rparr>"

lemma sample_wrappers_dom: "dom (sample_wrappers opt) = {''web'', ''db''}"
  by (auto simp: sample_wrappers_def)

lemma sample_wrappers_one: "\<forall>wr \<in> ran (sample_wrappers opt). sw_done wr = 1"
  by (auto simp: sample_wrappers_def ran_def sample_service_def)

lemma sample_launch:
  "launch (launch_env_of (sample_wrappers True) {} None) [''web'', ''db''] =
     Some ([], sample_launched)"
  by (auto simp: launch_def launch_env_of_def sample_wrappers_dom)
    (simp add: sample_wrappers_def sample_service_def sample_launched_def launch_init_def startService.simps(2) IgnoreDep_def
      isSelected_def numeral_2_eq_2 insert_commute)

text \<open>A scheduler to run the steps in a chosen order: \<open>None\<close> is the launcher, a name its goroutine.\<close>

fun run_schedule :: "do_op \<Rightarrow> string option list \<Rightarrow> run_state \<Rightarrow> run_state option" where
  "run_schedule op [] s = Some s"
| "run_schedule op (c # cs) s =
     (case (case c of None \<Rightarrow> launcher_step s | Some w \<Rightarrow> routine_step op w s) of
        None \<Rightarrow> None | Some s' \<Rightarrow> run_schedule op cs s')"

lemma run_schedule_steps:
  "run_schedule op cs s = Some s' \<Longrightarrow> (run_step op ^^ length cs) s s'"
proof (induction cs arbitrary: s)
  case (Cons c cs)
  then obtain s1 where "run_step op s s1" "run_schedule op cs s1 = Some s'"
    by (auto split: option.splits intro: run_step.intros)
  with Cons.IH show ?case by (auto simp: relpowp_Suc_left simp del: relpowp.simps)
qed simp

lemma run_schedule_runs_to: "run_schedule op cs s = Some s' \<Longrightarrow> runs_to op s s'"
  unfolding runs_to_def using run_schedule_steps relpowp_imp_rtranclp by metis

lemmas run_eval = run_init_def launcher_step_def routine_step_def do_enter_def do_begin_def do_action_def
  do_return_def waitForDeps_step_def wrapper_Wait_def wrapper_Ignore_def sample_op_def Let_def
  sample_wrappers_def sample_launched_def sample_service_def set_wrapper_def set_routine_def notify_def

text \<open>
  The depth-first launch always returns: with fuel one more than the number of wrappers, whatever
  cycles the relationships have, and whatever order the map iteration takes.
\<close>

theorem launch_terminates:
  assumes "finite (dom W)" "set ws \<subseteq> dom W"
  shows "\<exists>errs st. launch (launch_env_of W selected cycleAction) ws = Some (errs, st)"
  using startAll_returns [of "launch_env_of W selected cycleAction" ws launch_init] assms
  by (auto simp: launch_def launch_env_of_def)

theorem launch_terminates_witness:
  "\<exists>errs st. launch (launch_env_of (sample_wrappers False) {} None) [''db'', ''web''] = Some (errs, st)"
  by (rule launch_terminates) (simp_all add: sample_wrappers_dom)

text \<open>
  When every relationship is optional and the cycle action does not fail, the launch reports no
  error and hands on every wrapper exactly once, each after all the wrappers it will wait for, even
  when the relationships have cycles.
\<close>

theorem launch_hands_on_each_once:
  assumes "finite (dom W)" "set ws = dom W" "cycle_tolerant (launch_env_of W selected cycleAction)"
  shows "\<exists>st. launch (launch_env_of W selected cycleAction) ws = Some ([], st) \<and>
    distinct (started_names st) \<and> set (started_names st) = dom W \<and>
    launch_ordered (launch_env_of W selected cycleAction) (ls_ignored st) (started_names st)"
proof -
  let ?env = "launch_env_of W selected cycleAction"
  obtain errs st where l: "launch ?env ws = Some (errs, st)"
    using startAll_returns [of ?env ws launch_init] assms by (auto simp: launch_def launch_env_of_def)
  have "errs = []"
    using startAll_no_error [OF assms(3)] l assms(2) by (force simp: launch_def launch_env_of_def)
  with l launch_clean [of ?env ws st] assms(2) show ?thesis
    by (auto simp: launch_env_of_def launch_inv_def)
qed

theorem launch_hands_on_each_once_witness:
  "\<exists>st. launch (launch_env_of (sample_wrappers True) {} None) [''web'', ''db''] = Some ([], st) \<and>
    distinct (started_names st) \<and> set (started_names st) = dom (sample_wrappers True) \<and>
    launch_ordered (launch_env_of (sample_wrappers True) {} None) (ls_ignored st) (started_names st)"
  by (rule launch_hands_on_each_once)
    (simp_all add: sample_wrappers_dom cycle_tolerant_def launch_env_of_def,
     simp add: sample_wrappers_def sample_service_def)

text \<open>
  C1: No deadlock, no lost result.  After a launch without errors every state the goroutines reach
  either has a further step or has every wrapper done, with the error that \<open>run_results\<close> computes from
  the launch order alone: the interleaving decides nothing.
\<close>

theorem run_finishes_with_results:
  assumes "launch (launch_env_of W selected cycleAction) ws = Some ([], st)" "set ws = dom W"
    "\<forall>wr \<in> ran W. sw_done wr = 1" "runs_to op (run_init W st) s" "\<And>s'. \<not> run_step op s s'" "w \<in> dom W"
  shows "\<exists>wr. rs_wrappers s w = Some wr \<and> sw_done wr = 0 \<and>
    run_results op (rs_wrappers (run_init W st)) (ls_started st) Map.empty w = Some (sw_err wr)"
proof -
  note inv = run_inv_from_launch [OF assms(1-4)]
  have rdy: "ready (rs_wrappers (run_init W st)) (ls_started st)"
    using launch_ready [OF assms(1-3)] by (simp add: run_init_def)
  have "rs_wrappers (run_init W st) w \<noteq> None" using assms(6) by (auto simp: run_init_def)
  then obtain wr where "rs_wrappers s w = Some wr" "sw_done wr = 0"
    using run_progress [OF inv rdy assms(5)] by (auto simp: finished_def)
  with finished_result [OF inv rdy] show ?thesis by blast
qed



lemma launch_error_unfinished:
  assumes "launch (launch_env_of W selected cycleAction) ws = Some (errs, st)" "errs \<noteq> []" "set ws = dom W"
    "\<forall>wr \<in> ran W. sw_done wr = 1"
  obtains w where "w \<in> dom W" "\<And>op s. runs_to op (run_init W st) s \<Longrightarrow> \<not> finished s w"
proof -
  have "names_launched launch_init" by (simp add: names_launched_def launch_init_def started_names_def)
  then have "\<exists>w \<in> set ws. left_behind st w"
    using startAll_left_behind [OF assms(1) [unfolded launch_def]] assms(2) by blast
  then obtain w where w: "w \<in> dom W" "left_behind st w" using assms(3) by blast
  from w(1) obtain w0 where w0: "W w = Some w0" by blast
  with assms(4) have "sw_done w0 = 1" by (auto simp: ran_def)
  moreover have "w \<notin> fst ` set (ls_started st)" using w(2) by (simp add: left_behind_def started_names_def)
  then have "rs_routines (run_init W st) w = None" "w \<notin> fst ` set (rs_pending (run_init W st))"
    by (simp_all add: run_init_def)
  ultimately have "\<not> finished s w" if "runs_to op (run_init W st) s" for op s
    using runs_keep_unstarted [OF that, of w] w0 by (simp add: run_init_def finished_def)
  with w(1) that show ?thesis by blast
qed

text \<open>
  The other side.  When the launch met an error, which \<open>traverse\<close> drops, some service was
  marked launched and never handed on: no run ever finishes its wrapper, so the wait for it in
  \<open>traverse\<close> blocks for good instead of returning the error.
\<close>

theorem dropped_launch_error_hangs:
  assumes "launch (launch_env_of W selected cycleAction) ws = Some (errs, st)" "errs \<noteq> []" "set ws = dom W"
    "\<forall>wr \<in> ran W. sw_done wr = 1"
  shows "\<exists>w \<in> dom W. \<forall>op s. runs_to op (run_init W st) s \<longrightarrow> \<not> finished s w"
  using launch_error_unfinished [OF assms] by metis

section \<open>The properties at work\<close>

definition sample_schedule :: "string option list" where
  "sample_schedule = [None, Some ''db'', None, Some ''web'', Some ''db'', Some ''db'', Some ''db'', Some ''web'']"

definition sample_final :: run_state where
  "sample_final = the (run_schedule sample_op sample_schedule (run_init (sample_wrappers True) sample_launched))"

lemma sample_run:
  "run_schedule sample_op sample_schedule (run_init (sample_wrappers True) sample_launched) = Some sample_final"
  "rs_routines sample_final = [''db'' \<mapsto> Returned, ''web'' \<mapsto> Returned]" "rs_pending sample_final = []"
  by (simp_all add: sample_final_def sample_schedule_def run_eval fun_eq_iff)

lemma sample_final_stuck: "\<not> run_step sample_op sample_final s'"
  by (auto elim!: run_stepE simp: launcher_step_def routine_step_def sample_run split: option.splits if_splits)

theorem run_finishes_with_results_witness:
  "\<exists>wr. rs_wrappers sample_final ''web'' = Some wr \<and> sw_done wr = 0 \<and>
    run_results sample_op (rs_wrappers (run_init (sample_wrappers True) sample_launched))
      (ls_started sample_launched) Map.empty ''web'' = Some (sw_err wr)"
  by (rule run_finishes_with_results [OF sample_launch _ sample_wrappers_one
        run_schedule_runs_to [OF sample_run(1)] sample_final_stuck])
    (simp_all add: sample_wrappers_dom)


definition sample_acting :: run_state where
  "sample_acting = the (run_schedule sample_op [None, Some ''db'', Some ''db'', Some ''db'']
     (run_init (sample_wrappers True) sample_launched))"

lemma sample_acting_run:
  "run_schedule sample_op [None, Some ''db'', Some ''db'', Some ''db'']
     (run_init (sample_wrappers True) sample_launched) = Some sample_acting"
  "rs_routines sample_acting ''db'' = Some Acting"
  by (simp_all add: sample_acting_def run_eval)


definition sample_failed :: launch_state where
  "sample_failed = \<lparr>ls_launched = {''web'', ''db''}, ls_ignored = {}, ls_started = [], ls_cycled = []\<rparr>"

lemma sample_launch_fails:
  "launch (launch_env_of (sample_wrappers False) {} None) [''web'', ''db''] =
     Some ([''Cycle detected in path web->db->web''], sample_failed)"
  by (auto simp: launch_def launch_env_of_def sample_wrappers_dom)
    (simp add: sample_wrappers_def sample_service_def sample_failed_def launch_init_def startService.simps(2)
      numeral_2_eq_2 insert_commute cycle_error_def)

theorem dropped_launch_error_hangs_witness:
  "\<exists>w \<in> dom (sample_wrappers False). \<forall>op s.
     runs_to op (run_init (sample_wrappers False) sample_failed) s \<longrightarrow> \<not> finished s w"
  by (rule dropped_launch_error_hangs [OF sample_launch_fails _ _ sample_wrappers_one])
    (simp_all add: sample_wrappers_dom)

end
