(* ===== verification/Project_Core.thy ===== *)
theory Project_Core
  imports Compose_Merge Service_Wrapper
begin

text \<open>
  The project of \<open>libcompose/project\<close>: its context (\<open>context.go\<close>: the compose file, the project
  name), its construction and its operations (\<open>project.go\<close>), built on the parser of \<open>Compose_Merge\<close> and
  on the launch and the goroutines of \<open>Traverse\<close> and \<open>Service_Wrapper\<close>.
\<close>

section \<open>The context\<close>

text \<open>What the context reads of the operating system.\<close>

datatype read_result = ReadOk string | ReadNotExist string | ReadFailed string

record os_env =
  os_Stdin :: "string go"
  os_ReadFile :: "string \<Rightarrow> read_result"
  os_Getenv :: "string \<Rightarrow> string"
  os_Abs :: "string \<Rightarrow> string go"
  os_Getwd :: "string go"

record Context =
  cx_ComposeFile :: string
  cx_ComposeBytes :: "string option"
  cx_ProjectName :: string
  cx_isOpen :: bool
  cx_IgnoreMissingConfig :: bool

definition readComposeFile :: "os_env \<Rightarrow> Context \<Rightarrow> Context go" where
  "readComposeFile os c =
     (if cx_ComposeBytes c \<noteq> None then Ok c
      else if cx_ComposeFile c = ''-'' then
        go_bind (os_Stdin os) (\<lambda>composeBytes. Ok (c\<lparr>cx_ComposeBytes := Some composeBytes\<rparr>))
      else if cx_ComposeFile c \<noteq> [] then
        (case os_ReadFile os (cx_ComposeFile c) of
           ReadNotExist e \<Rightarrow> if cx_IgnoreMissingConfig c then Ok c else Err e
         | ReadFailed e \<Rightarrow> Err e
         | ReadOk composeBytes \<Rightarrow> Ok (c\<lparr>cx_ComposeBytes := Some composeBytes\<rparr>))
      else Ok c)"

text \<open>\<open>projectRegexp\<close> replaces what is not a letter, a digit, an underscore, a dot or a hyphen.\<close>

definition project_char :: "char \<Rightarrow> bool" where
  "project_char c \<longleftrightarrow> is_upper c \<or> is_lower c \<or> is_digit c \<or> c = CHR ''_'' \<or> c = CHR ''.'' \<or> c = CHR ''-''"

definition sanitize_char :: "char \<Rightarrow> char" where
  "sanitize_char c = (if project_char c then c else CHR ''-'')"

definition project_name :: "string \<Rightarrow> string" where
  "project_name name = map sanitize_char (to_lower name)"

definition toUnixPath :: "string \<Rightarrow> string" where
  "toUnixPath p = map (\<lambda>c. if c = CHR 0x5C then CHR ''/'' else c) p"

definition lookupProjectName :: "os_env \<Rightarrow> Context \<Rightarrow> string go" where
  "lookupProjectName os c =
     (if cx_ProjectName c \<noteq> [] then Ok (cx_ProjectName c)
      else (let envProject = os_Getenv os ''COMPOSE_PROJECT_NAME''
        in if envProject \<noteq> [] then Ok envProject
           else go_bind (os_Abs os (cx_ComposeFile c)) (\<lambda>f.
             (let parent = path_Base (path_Dir (toUnixPath f))
              in if parent \<noteq> [] \<and> parent \<noteq> ''.'' then Ok parent
                 else go_bind (os_Getwd os) (\<lambda>wd. Ok (path_Base (toUnixPath wd)))))))"

definition determineProject :: "os_env \<Rightarrow> Context \<Rightarrow> Context go" where
  "determineProject os c =
     go_bind (lookupProjectName os c) (\<lambda>name.
       case project_name name of
         [] \<Rightarrow> Err ''Falied to determine project name''
       | x # xs \<Rightarrow>
           (if x = CHR ''_'' \<or> x = CHR ''.'' \<or> x = CHR ''-''
            then Ok (c\<lparr>cx_ProjectName := CHR ''x'' # x # xs\<rparr>)
            else Ok (c\<lparr>cx_ProjectName := x # xs\<rparr>)))"

definition context_open :: "os_env \<Rightarrow> Context \<Rightarrow> Context go" where
  "context_open os c =
     (if cx_isOpen c then Ok c
      else go_bind (readComposeFile os c) (\<lambda>c.
        go_bind (determineProject os c) (\<lambda>c. Ok (c\<lparr>cx_isOpen := True\<rparr>))))"

section \<open>The project\<close>

record Event =
  ev_EventType :: EventType
  ev_ServiceName :: string
  ev_Data :: "(string \<times> string) list option"

text \<open>
  Listeners are channels, named by numbers; \<open>pr_closed\<close> are the closed ones, \<open>pr_sent\<close> what was sent on
  which channel.  A send on a closed channel would panic.
\<close>

record Project =
  pr_Name :: string
  pr_Configs :: "(string \<times> ServiceConfig) list"
  pr_File :: string
  pr_context :: Context
  pr_reload :: "string list"
  pr_listeners :: "nat list"
  pr_hasListeners :: bool
  pr_closed :: "nat set"
  pr_sent :: "(nat \<times> Event) list"

text \<open>
  What a project is given from outside: the operating system, the parser's environment, the order of
  the map iterations, and the fuel for \<open>extends\<close>; the environment lookup may be nil in \<open>CreateService\<close>.
\<close>

record project_env =
  pe_os :: os_env
  pe_compose :: compose_env
  pe_order :: "string list \<Rightarrow> string list"
  pe_fuel :: nat
  pe_envLookup :: "env_lookup option"

text \<open>The default listener is the channel \<open>l\<close>.\<close>

definition NewProject :: "Context \<Rightarrow> nat \<Rightarrow> Project" where
  "NewProject context l =
     \<lparr>pr_Name = [], pr_Configs = [], pr_File = [], pr_context = context, pr_reload = [],
      pr_listeners = [l], pr_hasListeners = False, pr_closed = {}, pr_sent = []\<rparr>"

definition AddListener :: "nat \<Rightarrow> Project \<Rightarrow> Project" where
  "AddListener c p =
     (if \<not> pr_hasListeners p
      then p\<lparr>pr_closed := pr_closed p \<union> set (pr_listeners p), pr_hasListeners := True, pr_listeners := [c]\<rparr>
      else p\<lparr>pr_listeners := pr_listeners p @ [c]\<rparr>)"

definition Notify :: "EventType \<Rightarrow> string \<Rightarrow> (string \<times> string) list option \<Rightarrow> Project \<Rightarrow> Project go" where
  "Notify eventType serviceName data p =
     (if eventType = NoEvent then Ok p
      else (let event = \<lparr>ev_EventType = eventType, ev_ServiceName = serviceName, ev_Data = data\<rparr>
        in go_fold (\<lambda>l p. if l \<in> pr_closed p then Panic else Ok (p\<lparr>pr_sent := pr_sent p @ [(l, event)]\<rparr>))
             (pr_listeners p) p))"

definition AddConfig :: "string \<Rightarrow> ServiceConfig \<Rightarrow> Project \<Rightarrow> Project go" where
  "AddConfig name config p =
     go_bind (Notify EventServiceAdd name None p) (\<lambda>p.
       Ok (p\<lparr>pr_Configs := alist_set name config (pr_Configs p), pr_reload := pr_reload p @ [name]\<rparr>))"

definition Load :: "project_env \<Rightarrow> string \<Rightarrow> Project \<Rightarrow> Project go option" where
  "Load pe bytes p =
     map_option (\<lambda>r. go_bind r (\<lambda>configs. go_fold (\<lambda>(name, config). AddConfig name config) configs p))
       (mergeProject (pe_fuel pe) (pe_compose pe) (pr_File p) (pe_order pe) bytes)"

text \<open>\<open>Parse\<close>; \<open>None\<close> is the fuel of the parser exhausted.\<close>

definition Parse :: "project_env \<Rightarrow> Project \<Rightarrow> Project go option" where
  "Parse pe p =
     (case context_open (pe_os pe) (pr_context p) of
        Err e \<Rightarrow> Some (Err e)
      | Panic \<Rightarrow> Some Panic
      | Ok c \<Rightarrow>
        (let p = p\<lparr>pr_context := c, pr_Name := cx_ProjectName c,
                   pr_File := (if cx_ComposeFile c = ''-'' then ''.'' else cx_ComposeFile c)\<rparr>
         in case cx_ComposeBytes c of
              Some bytes \<Rightarrow> Load pe bytes p
            | None \<Rightarrow> Some (Ok p)))"

text \<open>
  \<open>CreateService\<close> completes the environment: an entry with a value stays, a bare name is replaced by
  what the lookup answers.  The factory is the argument.
\<close>

definition resolve_env :: "env_lookup \<Rightarrow> string \<Rightarrow> ServiceConfig \<Rightarrow> string list" where
  "resolve_env lookup name config =
     concat (map (\<lambda>env.
       (let parts = split2 (CHR ''='') env
        in if length parts > 1 \<and> parts ! 1 \<noteq> [] then [env] else lookup (parts ! 0) name (Some config)))
       (MaporEqualSlice_Slice (sc_Environment config)))"

definition CreateService :: "project_env \<Rightarrow> (string \<Rightarrow> ServiceConfig \<Rightarrow> 's go) \<Rightarrow> string \<Rightarrow> Project \<Rightarrow> 's go" where
  "CreateService pe factory name p = (case map_of (pr_Configs p) name of
     None \<Rightarrow> Err (''Failed to find service: '' @ name)
   | Some existing \<Rightarrow>
       (let config = (case pe_envLookup pe of
            None \<Rightarrow> existing
          | Some lookup \<Rightarrow> existing\<lparr>sc_Environment := NewMaporEqualSlice (resolve_env lookup name existing)\<rparr>)
        in factory name config))"

section \<open>The operations\<close>

text \<open>
  The methods of the \<open>Service\<close> interface that the operations call; \<open>call w m\<close> is the error the method
  \<open>m\<close> of the service of wrapper \<open>w\<close> returns.
\<close>

datatype svc_op = Svc_Build | Svc_Create | Svc_Down | Svc_Restart | Svc_Start | Svc_Up | Svc_Log | Svc_Pull
  | Svc_Delete | Svc_Kill

text \<open>The arguments of \<open>Do\<close> in each operation: the wrappers or nil, the start and the done event.\<close>

fun project_do :: "svc_op \<Rightarrow> (string \<Rightarrow> svc_op \<Rightarrow> werr) \<Rightarrow> do_op" where
  "project_do Svc_Build call =
     \<lparr>op_wait = True, op_start = EventServiceBuildStart, op_done = EventServiceBuild, op_action = (\<lambda>w. call w Svc_Build)\<rparr>"
| "project_do Svc_Create call =
     \<lparr>op_wait = True, op_start = EventServiceCreateStart, op_done = EventServiceCreate, op_action = (\<lambda>w. call w Svc_Create)\<rparr>"
| "project_do Svc_Down call =
     \<lparr>op_wait = False, op_start = EventServiceDownStart, op_done = EventServiceDown, op_action = (\<lambda>w. call w Svc_Down)\<rparr>"
| "project_do Svc_Restart call =
     \<lparr>op_wait = True, op_start = EventServiceRestartStart, op_done = EventServiceRestart, op_action = (\<lambda>w. call w Svc_Restart)\<rparr>"
| "project_do Svc_Start call =
     \<lparr>op_wait = True, op_start = EventServiceStartStart, op_done = EventServiceStart, op_action = (\<lambda>w. call w Svc_Start)\<rparr>"
| "project_do Svc_Up call =
     \<lparr>op_wait = True, op_start = EventServiceUpStart, op_done = EventServiceUp, op_action = (\<lambda>w. call w Svc_Up)\<rparr>"
| "project_do Svc_Log call =
     \<lparr>op_wait = False, op_start = NoEvent, op_done = NoEvent, op_action = (\<lambda>w. call w Svc_Log)\<rparr>"
| "project_do Svc_Pull call =
     \<lparr>op_wait = False, op_start = EventServicePullStart, op_done = EventServicePull, op_action = (\<lambda>w. call w Svc_Pull)\<rparr>"
| "project_do Svc_Delete call =
     \<lparr>op_wait = False, op_start = EventServiceDeleteStart, op_done = EventServiceDelete, op_action = (\<lambda>w. call w Svc_Delete)\<rparr>"
| "project_do Svc_Kill call =
     \<lparr>op_wait = False, op_start = EventServiceKillStart, op_done = EventServiceKill, op_action = (\<lambda>w. call w Svc_Kill)\<rparr>"

text \<open>The events of \<open>perform\<close>; \<open>Log\<close> and \<open>Pull\<close> go straight to \<open>forEach\<close>.\<close>

fun project_events :: "svc_op \<Rightarrow> EventType \<times> EventType" where
  "project_events Svc_Build = (EventProjectBuildStart, EventProjectBuildDone)"
| "project_events Svc_Create = (EventProjectCreateStart, EventProjectCreateDone)"
| "project_events Svc_Down = (EventProjectDownStart, EventProjectDownDone)"
| "project_events Svc_Restart = (EventProjectRestartStart, EventProjectRestartDone)"
| "project_events Svc_Start = (EventProjectStartStart, EventProjectStartDone)"
| "project_events Svc_Up = (EventProjectUpStart, EventProjectUpDone)"
| "project_events Svc_Delete = (EventProjectDeleteStart, EventProjectDeleteDone)"
| "project_events Svc_Kill = (EventProjectKillStart, EventProjectKillDone)"
| "project_events Svc_Log = (NoEvent, NoEvent)"
| "project_events Svc_Pull = (NoEvent, NoEvent)"

text \<open>Only \<open>Up\<close> has a cycle action: it creates the service.\<close>

definition cycle_action :: "svc_op \<Rightarrow> (string \<Rightarrow> svc_op \<Rightarrow> werr) \<Rightarrow> (string \<Rightarrow> string option) option" where
  "cycle_action op call =
     (if op = Svc_Up then Some (\<lambda>w. case call w Svc_Create of
          NoErr \<Rightarrow> None | ErrRestart \<Rightarrow> Some ''Restart execution'' | OtherErr e \<Rightarrow> Some e)
      else None)"

text \<open>\<open>loadWrappers\<close> stops at the first error; the wrappers made before it stay in the map.\<close>

fun loadWrappers :: "(string \<Rightarrow> service_view go) \<Rightarrow> string list \<Rightarrow> (string \<rightharpoonup> serviceWrapper) \<Rightarrow>
    ((string \<rightharpoonup> serviceWrapper) \<times> string option) go" where
  "loadWrappers create [] wrappers = Ok (wrappers, None)"
| "loadWrappers create (name # names) wrappers =
     (case newServiceWrapper create name of
        Ok wrapper \<Rightarrow> loadWrappers create names (wrappers(name \<mapsto> wrapper))
      | Err e \<Rightarrow> Ok (wrappers, Some e)
      | Panic \<Rightarrow> Panic)"

text \<open>The loop of \<open>traverse\<close> that waits for the selected wrappers: a restart was asked, the first error.\<close>

fun collect :: "string set \<Rightarrow> (string \<rightharpoonup> werr) \<Rightarrow> string list \<Rightarrow> bool \<times> werr" where
  "collect selected E [] = (False, NoErr)"
| "collect selected E (w # ws) =
     (let (restart, first) = collect selected E ws
      in if \<not> isSelected w selected then (restart, first)
         else (case E w of
             Some ErrRestart \<Rightarrow> (True, first)
           | Some (OtherErr e) \<Rightarrow> (restart, OtherErr e)
           | _ \<Rightarrow> (restart, first)))"

definition wrapper_err :: "run_state \<Rightarrow> string \<rightharpoonup> werr" where
  "wrapper_err s w = map_option sw_err (rs_wrappers s w)"

text \<open>\<open>Reset\<close> over the wrappers before a further round.\<close>

definition reset_wrappers :: "(string \<Rightarrow> service_view go) \<Rightarrow> string list \<Rightarrow> (string \<rightharpoonup> serviceWrapper) \<Rightarrow>
    (string \<rightharpoonup> serviceWrapper) go" where
  "reset_wrappers create names wrappers =
     go_fold (\<lambda>n W. case W n of None \<Rightarrow> Ok W
        | Some wr \<Rightarrow> go_bind (wrapper_Reset create wr) (\<lambda>wr. Ok (W(n \<mapsto> wr)))) names wrappers"

text \<open>
  \<open>traverse\<close>: one round launches the wrappers, waits for the selected ones and collects; when a restart
  was asked, a further round follows with the names the reload callback added (the lists in
  \<open>reloads\<close>).  A relation, since the map iterations and the goroutines run in any order; it does not
  relate anything where a wait never returns.
\<close>

inductive traverse :: "svc_op \<Rightarrow> (string \<Rightarrow> svc_op \<Rightarrow> werr) \<Rightarrow> (string \<Rightarrow> service_view go) \<Rightarrow> string set \<Rightarrow>
    string list \<Rightarrow> string list list \<Rightarrow> (string \<rightharpoonup> serviceWrapper) \<Rightarrow> werr \<Rightarrow> (EventType \<times> string) list \<Rightarrow> bool"
  for op call create selected where
  finish: "loadWrappers create names W0 = Ok (W, loadErr) \<Longrightarrow>
    distinct ws \<Longrightarrow> set ws = dom W \<Longrightarrow>
    launch (launch_env_of W selected (cycle_action op call)) ws = Some (errs, st) \<Longrightarrow>
    runs_to (project_do op call) (run_init W st) s \<Longrightarrow>
    (\<And>w. w \<in> dom W \<Longrightarrow> isSelected w selected \<Longrightarrow> finished s w) \<Longrightarrow>
    distinct ws' \<Longrightarrow> set ws' = dom W \<Longrightarrow> collect selected (wrapper_err s) ws' = (False, err) \<Longrightarrow>
    traverse op call create selected names reloads W0 err (rs_events s)"
| reset_failed: "loadWrappers create names W0 = Ok (W, loadErr) \<Longrightarrow>
    distinct ws \<Longrightarrow> set ws = dom W \<Longrightarrow>
    launch (launch_env_of W selected (cycle_action op call)) ws = Some (errs, st) \<Longrightarrow>
    runs_to (project_do op call) (run_init W st) s \<Longrightarrow>
    (\<And>w. w \<in> dom W \<Longrightarrow> isSelected w selected \<Longrightarrow> finished s w) \<Longrightarrow>
    distinct ws' \<Longrightarrow> set ws' = dom W \<Longrightarrow> collect selected (wrapper_err s) ws' = (True, err) \<Longrightarrow>
    reset_wrappers create ws'' (rs_wrappers s) = Err e \<Longrightarrow> distinct ws'' \<Longrightarrow> set ws'' = dom W \<Longrightarrow>
    traverse op call create selected names (reload # reloads) W0 (OtherErr e) (rs_events s)"
| again: "loadWrappers create names W0 = Ok (W, loadErr) \<Longrightarrow>
    distinct ws \<Longrightarrow> set ws = dom W \<Longrightarrow>
    launch (launch_env_of W selected (cycle_action op call)) ws = Some (errs, st) \<Longrightarrow>
    runs_to (project_do op call) (run_init W st) s \<Longrightarrow>
    (\<And>w. w \<in> dom W \<Longrightarrow> isSelected w selected \<Longrightarrow> finished s w) \<Longrightarrow>
    distinct ws' \<Longrightarrow> set ws' = dom W \<Longrightarrow> collect selected (wrapper_err s) ws' = (True, err) \<Longrightarrow>
    reset_wrappers create ws'' (rs_wrappers s) = Ok W1 \<Longrightarrow> distinct ws'' \<Longrightarrow> set ws'' = dom W \<Longrightarrow>
    traverse op call create selected reload reloads W1 err' evs \<Longrightarrow>
    traverse op call create selected names (reload # reloads) W0 err' (rs_events s @ evs)"

text \<open>\<open>forEach\<close> starts with no wrappers and all the services of the project, in some order.\<close>

definition forEach :: "svc_op \<Rightarrow> (string \<Rightarrow> svc_op \<Rightarrow> werr) \<Rightarrow> (string \<Rightarrow> service_view go) \<Rightarrow> string list \<Rightarrow>
    string list \<Rightarrow> string list list \<Rightarrow> werr \<Rightarrow> (EventType \<times> string) list \<Rightarrow> bool" where
  "forEach op call create services names reloads err evs \<longleftrightarrow>
     traverse op call create (set services) names reloads Map.empty err evs"

definition service_event :: "EventType \<times> string \<Rightarrow> Project \<Rightarrow> Project go" where
  "service_event = (\<lambda>(ev, name). Notify ev name None)"

text \<open>\<open>perform\<close> brackets \<open>forEach\<close> with the project events; the project afterwards has sent them all.\<close>

definition perform :: "svc_op \<Rightarrow> (string \<Rightarrow> svc_op \<Rightarrow> werr) \<Rightarrow> (string \<Rightarrow> service_view go) \<Rightarrow> string list \<Rightarrow>
    string list list \<Rightarrow> Project \<Rightarrow> werr \<Rightarrow> Project \<Rightarrow> bool" where
  "perform op call create services reloads p err p' \<longleftrightarrow>
     (\<exists>names evs. distinct names \<and> set names = fst ` set (pr_Configs p) \<and>
        forEach op call create services names reloads err evs \<and>
        go_bind (Notify (fst (project_events op)) [] None p) (\<lambda>p.
          go_bind (go_fold service_event evs p) (\<lambda>p.
            Notify (snd (project_events op)) [] None p)) = Ok p')"

section \<open>The wrappers of a project\<close>

definition fresh_wrapper :: "string \<Rightarrow> service_view \<Rightarrow> serviceWrapper" where
  "fresh_wrapper name v =
     \<lparr>sw_name = name, sw_service = v, sw_done = 1, sw_state = StateUnknown, sw_err = NoErr,
      sw_noWait = False, sw_ignored = {}\<rparr>"

lemma newServiceWrapper_Ok [simp]:
  "create name = Ok v \<Longrightarrow> newServiceWrapper create name = Ok (fresh_wrapper name v)"
  by (simp add: newServiceWrapper_def wrapper_Reset_def fresh_wrapper_def Let_def)

lemma newServiceWrapper_Err [simp]:
  "create name = Err e \<Longrightarrow> newServiceWrapper create name = Err e"
  by (simp add: newServiceWrapper_def wrapper_Reset_def)

lemma loadWrappers_Ok:
  "\<forall>n \<in> set names. create n = Ok (views n) \<Longrightarrow>
     loadWrappers create names W =
       Ok ((\<lambda>n. if n \<in> set names then Some (fresh_wrapper n (views n)) else W n), None)"
  by (induction names arbitrary: W) (auto simp: fun_eq_iff)

lemma run_results_no_restart:
  assumes "\<And>w. op_action op w \<noteq> ErrRestart" "\<And>w wr. W w = Some wr \<Longrightarrow> sw_err wr \<noteq> ErrRestart"
  shows "(\<And>x. m x \<noteq> Some ErrRestart) \<Longrightarrow> run_results op W started m x \<noteq> Some ErrRestart"
proof (induction started arbitrary: m)
  case (Cons p started)
  obtain w b where p: "p = (w, b)" by fastforce
  show ?case
  proof (cases "W w")
    case (Some wr)
    have "\<not> restarts op m wr" using Cons.prems by (simp add: restarts_def)
    then have "wrapper_result op m w b wr \<noteq> ErrRestart"
      using assms Some by (simp add: wrapper_result_def)
    with Cons Some p show ?thesis by simp
  qed (use Cons p in simp)
qed simp

lemma collect_no_restart:
  assumes "\<And>w. w \<in> set ws \<Longrightarrow> isSelected w selected \<Longrightarrow> E w \<noteq> Some ErrRestart"
  shows "\<exists>err. collect selected E ws = (False, err) \<and> err \<noteq> ErrRestart \<and>
    (err = NoErr \<longleftrightarrow> (\<forall>w \<in> set ws. isSelected w selected \<longrightarrow> (\<forall>e. E w \<noteq> Some (OtherErr e)))) \<and>
    (\<forall>e. err = OtherErr e \<longrightarrow> (\<exists>w \<in> set ws. isSelected w selected \<and> E w = Some (OtherErr e)))"
  using assms
proof (induction ws)
  case (Cons w ws)
  then obtain err where err: "collect selected E ws = (False, err)" "err \<noteq> ErrRestart"
    "err = NoErr \<longleftrightarrow> (\<forall>w \<in> set ws. isSelected w selected \<longrightarrow> (\<forall>e. E w \<noteq> Some (OtherErr e)))"
    "\<forall>e. err = OtherErr e \<longrightarrow> (\<exists>w \<in> set ws. isSelected w selected \<and> E w = Some (OtherErr e))"
    by auto
  show ?case
  proof (cases "isSelected w selected")
    case True
    with Cons.prems [of w] err show ?thesis
      by (cases "E w") (auto split: werr.splits)
  qed (use err in auto)
qed simp

text \<open>What one round of \<open>traverse\<close> finds, when no error stops it and no restart is asked.\<close>

definition well_behaved :: "svc_op \<Rightarrow> (string \<Rightarrow> svc_op \<Rightarrow> werr) \<Rightarrow> (string \<Rightarrow> service_view go) \<Rightarrow> string list \<Rightarrow> bool" where
  "well_behaved op call create names \<longleftrightarrow>
     (\<forall>n \<in> set names. \<exists>v. create n = Ok v \<and> (\<forall>dep \<in> set (sv_DependentServices v). rel_Optional dep)) \<and>
     (\<forall>w. call w op \<noteq> ErrRestart) \<and> (op = Svc_Up \<longrightarrow> (\<forall>n \<in> set names. call n Svc_Create = NoErr))"

definition view_of :: "(string \<Rightarrow> service_view go) \<Rightarrow> string \<Rightarrow> service_view" where
  "view_of create n = (case create n of Ok v \<Rightarrow> v | _ \<Rightarrow> \<lparr>sv_Name = [], sv_DependentServices = []\<rparr>)"

definition fresh_wrappers :: "(string \<Rightarrow> service_view go) \<Rightarrow> string list \<Rightarrow> string \<rightharpoonup> serviceWrapper" where
  "fresh_wrappers create names n = (if n \<in> set names then Some (fresh_wrapper n (view_of create n)) else None)"

lemma fresh_wrappers_dom [simp]: "dom (fresh_wrappers create names) = set names"
  by (auto simp: fresh_wrappers_def split: if_splits)

lemma fresh_wrappers_one: "\<forall>wr \<in> ran (fresh_wrappers create names). sw_done wr = 1"
  by (auto simp: fresh_wrappers_def ran_def fresh_wrapper_def split: if_splits)

lemma well_behaved_load:
  assumes "well_behaved op call create names"
  shows "loadWrappers create names Map.empty = Ok (fresh_wrappers create names, None)"
proof -
  have "\<forall>n \<in> set names. create n = Ok (view_of create n)"
    using assms by (fastforce simp: well_behaved_def view_of_def)
  then show ?thesis
    by (subst loadWrappers_Ok) (auto simp: fresh_wrappers_def fun_eq_iff)
qed

lemma well_behaved_tolerant:
  assumes "well_behaved op call create names"
  shows "cycle_tolerant (launch_env_of (fresh_wrappers create names) selected (cycle_action op call))"
  using assms unfolding cycle_tolerant_def
  by (auto simp: launch_env_of_def fresh_wrappers_def fresh_wrapper_def view_of_def well_behaved_def
      cycle_action_def split: if_splits go.splits)

lemma project_do_sel [simp]: "op_action (project_do op call) w = call w op"
  by (cases op) simp_all

text \<open>The error of a wrapper in a state all runs of a well behaved round reach.\<close>

lemma well_behaved_err:
  assumes wb: "well_behaved op call create names"
    and launch: "launch (launch_env_of (fresh_wrappers create names) selected (cycle_action op call)) ws = Some (errs, st)"
    and ws: "set ws = set names"
    and run: "runs_to (project_do op call) (run_init (fresh_wrappers create names) st) s"
    and w: "w \<in> set names" "isSelected w selected" "finished s w"
  shows "wrapper_err s w = Some (call w op)"
proof -
  let ?W = "fresh_wrappers create names"
  let ?env = "launch_env_of ?W selected (cycle_action op call)"
  let ?W1 = "rs_wrappers (run_init ?W st)"
  have "errs = []"
    using startAll_no_error [OF well_behaved_tolerant [OF wb], of ws selected] launch ws
    by (force simp: launch_def launch_env_of_def)
  then have l: "launch ?env ws = Some ([], st)" using launch by simp
  have rdy: "ready ?W1 (ls_started st)"
    using launch_ready [OF l _ fresh_wrappers_one] ws by (simp add: run_init_def)
  have inv: "run_inv (project_do op call) ?W1 (ls_started st) s"
    by (rule run_inv_from_launch [OF l _ fresh_wrappers_one run]) (simp add: ws)
  from w(3) obtain wr where wr: "rs_wrappers s w = Some wr" "sw_done wr = 0" by (auto simp: finished_def)
  let ?E = "run_results (project_do op call) ?W1 (ls_started st) Map.empty"
  have E: "?E w = Some (sw_err wr)" by (rule finished_result [OF inv rdy wr])
  obtain w1 where w1: "?W1 w = Some w1" "sw_state w1 = StateUnknown" "sw_err w1 = NoErr"
    using w(1) by (auto simp: run_init_def fresh_wrappers_def fresh_wrapper_def)
  have "?E x \<noteq> Some ErrRestart" for x
    using wb by (intro run_results_no_restart)
      (auto simp: well_behaved_def run_init_def fresh_wrappers_def fresh_wrapper_def split: if_splits)
  then have nr: "\<not> restarts (project_do op call) ?E w1" by (simp add: restarts_def)
  have "w \<in> fst ` set (ls_started st)" using w1(1) unfolding readyD(2) [OF rdy] by blast
  then obtain b where b: "(w, b) \<in> set (ls_started st)" by force
  have "b" using launch_flags [OF l b] w(2) by (simp add: launch_env_of_def)
  then have "?E w = Some (call w op)"
    using run_results_eq [OF rdy b w1(1), of "project_do op call"] nr w1 by (simp add: wrapper_result_def)
  with E wr show ?thesis by (simp add: wrapper_err_def)
qed

section \<open>Every run of the goroutines can be completed\<close>

lemma run_completes:
  assumes "run_inv op W started s" "ready W started"
  shows "\<exists>s'. runs_to op s s' \<and> (\<forall>s''. \<not> run_step op s' s'')"
  using assms(1)
proof (induction "run_weight op started s" arbitrary: s rule: less_induct)
  case less
  show ?case
  proof (cases "\<exists>s1. run_step op s s1")
    case True
    then obtain s1 where s1: "run_step op s s1" by blast
    from less.hyps [OF run_step_weight [OF less.prems assms(2) s1] run_inv_step [OF less.prems assms(2) s1]]
    obtain s' where "runs_to op s1 s'" "\<forall>s''. \<not> run_step op s' s''" by blast
    with s1 show ?thesis unfolding runs_to_def by (meson converse_rtranclp_into_rtranclp)
  next
    case False
    then show ?thesis unfolding runs_to_def by blast
  qed
qed

lemma well_behaved_finishes:
  assumes wb: "well_behaved op call create names" and ws: "set ws = set names"
  shows "\<exists>st s. launch (launch_env_of (fresh_wrappers create names) selected (cycle_action op call)) ws = Some ([], st) \<and>
    runs_to (project_do op call) (run_init (fresh_wrappers create names) st) s \<and> (\<forall>w \<in> set names. finished s w)"
proof -
  let ?W = "fresh_wrappers create names"
  obtain st where l: "launch (launch_env_of ?W selected (cycle_action op call)) ws = Some ([], st)"
  proof -
    obtain errs st where l: "launch (launch_env_of ?W selected (cycle_action op call)) ws = Some (errs, st)"
      using startAll_returns [of "launch_env_of ?W selected (cycle_action op call)" ws launch_init] ws
      by (auto simp: launch_def launch_env_of_def)
    have "errs = []"
      using startAll_no_error [OF well_behaved_tolerant [OF wb], of ws selected] l ws
      by (force simp: launch_def launch_env_of_def)
    with l that show thesis by blast
  qed
  have rdy: "ready (rs_wrappers (run_init ?W st)) (ls_started st)"
    using launch_ready [OF l _ fresh_wrappers_one] ws by (simp add: run_init_def)
  have inv0: "run_inv (project_do op call) (rs_wrappers (run_init ?W st)) (ls_started st) (run_init ?W st)"
    by (rule run_inv_from_launch [OF l _ fresh_wrappers_one]) (simp_all add: ws runs_to_def)
  from run_completes [OF inv0 rdy] obtain s where s: "runs_to (project_do op call) (run_init ?W st) s"
    "\<And>s''. \<not> run_step (project_do op call) s s''" by blast
  have inv: "run_inv (project_do op call) (rs_wrappers (run_init ?W st)) (ls_started st) s"
    by (rule run_inv_from_launch [OF l _ fresh_wrappers_one s(1)]) (simp add: ws)
  have "finished s w" if "w \<in> set names" for w
    using run_progress [OF inv rdy s(2), of w] that by (simp add: run_init_def fresh_wrappers_def)
  with l s(1) show ?thesis by blast
qed

section \<open>Properties of the operations\<close>

definition sample_create :: "string \<Rightarrow> service_view go" where
  "sample_create n = Ok (sw_service (sample_service n [(if n = ''web'' then ''db'' else ''web'', True)]))"

definition sample_call :: "string \<Rightarrow> svc_op \<Rightarrow> werr" where
  "sample_call w m = (if w = ''db'' \<and> m = Svc_Up then OtherErr ''no such image'' else NoErr)"

lemma sample_well_behaved: "well_behaved Svc_Up sample_call sample_create [''web'', ''db'']"
  by (simp add: well_behaved_def sample_create_def sample_call_def sample_service_def)

lemma well_behaved_outcome:
  assumes "well_behaved op call create names" "distinct names"
  obtains err evs where "forEach op call create services names reloads err evs"
proof -
  from well_behaved_finishes [OF assms(1) refl, of "set services"] obtain st s where
    l: "launch (launch_env_of (fresh_wrappers create names) (set services) (cycle_action op call)) names = Some ([], st)"
    and run: "runs_to (project_do op call) (run_init (fresh_wrappers create names) st) s"
    and fin: "\<And>w. w \<in> set names \<Longrightarrow> finished s w" by blast
  have "wrapper_err s w = Some (call w op)" if "w \<in> set names" "isSelected w (set services)" for w
    by (rule well_behaved_err [OF assms(1) l refl run that fin [OF that(1)]])
  then have "\<exists>err. collect (set services) (wrapper_err s) names = (False, err)"
    using assms(1) collect_no_restart [of names "set services" "wrapper_err s"]
    unfolding well_behaved_def by fastforce
  then obtain err where c: "collect (set services) (wrapper_err s) names = (False, err)" by blast
  have "traverse op call create (set services) names reloads Map.empty err (rs_events s)"
    by (rule traverse.finish [OF well_behaved_load [OF assms(1)] assms(2) _ l run _ assms(2) _ c])
      (simp_all add: fin)
  with that show ?thesis unfolding forEach_def by blast
qed

text \<open>
  A project operation returns, and with nothing but its services' errors.  When the services can be
  created and their relationships are optional, and no service asks for a restart, some outcome exists.
\<close>

theorem forEach_returns:
  assumes "well_behaved op call create names" "distinct names"
  shows "\<exists>err evs. forEach op call create services names reloads err evs"
  using well_behaved_outcome [OF assms] by metis

theorem forEach_returns_witness:
  "\<exists>err evs. forEach Svc_Up sample_call sample_create [] [''web'', ''db''] [] err evs"
  by (rule forEach_returns [OF sample_well_behaved]) simp

lemma well_behaved_truthful:
  assumes "well_behaved op call create names" "forEach op call create services names reloads err evs"
  shows "(err = NoErr \<longleftrightarrow> (\<forall>n \<in> set names. isSelected n (set services) \<longrightarrow> call n op = NoErr)) \<and>
    (\<forall>e. err = OtherErr e \<longrightarrow> (\<exists>n \<in> set names. isSelected n (set services) \<and> call n op = OtherErr e)) \<and>
    err \<noteq> ErrRestart"
proof -
  have errs: "wrapper_err s w = Some (call w op)"
    if "loadWrappers create names Map.empty = Ok (W, le)" "set ws = dom W"
      "launch (launch_env_of W (set services) (cycle_action op call)) ws = Some (errs, st)"
      "runs_to (project_do op call) (run_init W st) s"
      "\<And>w. w \<in> dom W \<Longrightarrow> isSelected w (set services) \<Longrightarrow> finished s w"
      "w \<in> dom W" "isSelected w (set services)" for W le ws errs st s w
  proof -
    have W: "W = fresh_wrappers create names" using that(1) well_behaved_load [OF assms(1)] by simp
    show ?thesis
      by (rule well_behaved_err [OF assms(1) that(3) [unfolded W] _ that(4) [unfolded W] _ that(7) that(5) [OF that(6,7)]])
        (use that(2,6) W in simp_all)
  qed
  have nr: "call w op \<noteq> ErrRestart" for w using assms(1) by (simp add: well_behaved_def)
  have dom: "dom W = set names" if "loadWrappers create names Map.empty = Ok (W, le)" for W le
    using that well_behaved_load [OF assms(1)] fresh_wrappers_dom by (metis go.inject(1) prod.inject)
  have result: "collect (set services) (wrapper_err s) ws' = (r, e) \<Longrightarrow>
      \<not> r \<and> e \<noteq> ErrRestart \<and> (e = NoErr \<longleftrightarrow> (\<forall>n \<in> set names. isSelected n (set services) \<longrightarrow> call n op = NoErr)) \<and>
      (\<forall>x. e = OtherErr x \<longrightarrow> (\<exists>n \<in> set names. isSelected n (set services) \<and> call n op = OtherErr x))"
    if "\<And>w. w \<in> set names \<Longrightarrow> isSelected w (set services) \<Longrightarrow> wrapper_err s w = Some (call w op)"
      "set ws' = set names" for s ws' r e
  proof -
    assume c: "collect (set services) (wrapper_err s) ws' = (r, e)"
    from collect_no_restart [of ws' "set services" "wrapper_err s"] that nr c
    have k: "\<not> r" "e \<noteq> ErrRestart"
      "e = NoErr \<longleftrightarrow> (\<forall>w \<in> set ws'. isSelected w (set services) \<longrightarrow> (\<forall>x. wrapper_err s w \<noteq> Some (OtherErr x)))"
      "\<forall>x. e = OtherErr x \<longrightarrow> (\<exists>w \<in> set ws'. isSelected w (set services) \<and> wrapper_err s w = Some (OtherErr x))"
      by auto
    show ?thesis using k that nr by (metis option.inject werr.distinct(3) werr.exhaust)
  qed
  have round: "\<not> r \<and> e \<noteq> ErrRestart \<and> (e = NoErr \<longleftrightarrow> (\<forall>n \<in> set names. isSelected n (set services) \<longrightarrow> call n op = NoErr)) \<and>
      (\<forall>x. e = OtherErr x \<longrightarrow> (\<exists>n \<in> set names. isSelected n (set services) \<and> call n op = OtherErr x))"
    if "loadWrappers create names Map.empty = Ok (W, le)" "set ws = dom W"
      "launch (launch_env_of W (set services) (cycle_action op call)) ws = Some (errs, st)"
      "runs_to (project_do op call) (run_init W st) s"
      "\<And>w. w \<in> dom W \<Longrightarrow> isSelected w (set services) \<Longrightarrow> finished s w"
      "set ws' = dom W" "collect (set services) (wrapper_err s) ws' = (r, e)" for W le ws errs st s ws' r e
    by (rule result [OF errs [OF that(1-5)] _ that(7)]) (use dom [OF that(1)] that(6) in auto)
  from assms(2) show ?thesis
    unfolding forEach_def
  proof (cases rule: traverse.cases)
    case (finish W loadErr ws errs st s ws')
    with round [of W loadErr ws errs st s ws' False err] show ?thesis by blast
  next
    case (reset_failed W loadErr ws errs st s ws' err' ws'' e reload reloads')
    with round [of W loadErr ws errs st s ws' True err'] show ?thesis by blast
  next
    case (again W loadErr ws errs st s ws' err' ws'' W1 reload reloads' evs')
    with round [of W loadErr ws errs st s ws' True err'] show ?thesis by blast
  qed
qed



text \<open>
  An error in creating the services is lost: \<open>traverse\<close> drops the error of \<open>loadWrappers\<close>, so when
  the first service cannot be created the operation runs on no service and returns nil.
\<close>

theorem forEach_drops_create_error:
  assumes "create n = Err e" "forEach op call create services (n # names) reloads err evs"
  shows "err = NoErr \<and> evs = []"
proof -
  have load: "loadWrappers create (n # names) Map.empty = Ok (Map.empty, Some e)" using assms(1) by simp
  have none: "\<not> run_step (project_do op call) (run_init Map.empty launch_init) s'" for s'
    by (auto elim!: run_stepE simp: run_init_def launch_init_def launcher_step_def routine_step_def)
  have run: "s = run_init Map.empty st \<and> rs_events s = []"
    if "launch (launch_env_of Map.empty (set services) (cycle_action op call)) [] = Some (errs, st)"
      "runs_to (project_do op call) (run_init Map.empty st) s" for errs st s
  proof -
    have "st = launch_init" using that(1) by (simp add: launch_def)
    with that(2) none show ?thesis unfolding runs_to_def
      by (auto elim: converse_rtranclpE simp: run_init_def)
  qed
  from assms(2) show ?thesis
    unfolding forEach_def
  proof (cases rule: traverse.cases)
    case (finish W loadErr ws errs st s ws')
    have W: "W = Map.empty" using finish(2) load by simp
    have "ws = []" "ws' = []" using finish(3-9) W by auto
    with finish W run [of errs st s] show ?thesis by auto
  next
    case (reset_failed W loadErr ws errs st s ws' err' ws'' e reload reloads')
    have "W = Map.empty" using reset_failed load by simp
    then have "ws' = []" using reset_failed by auto
    with reset_failed show ?thesis by simp
  next
    case (again W loadErr ws errs st s ws' err' ws'' W1 reload reloads' evs')
    have "W = Map.empty" using again load by simp
    then have "ws' = []" using again by auto
    with again show ?thesis by simp
  qed
qed

theorem forEach_drops_create_error_witness:
  "\<exists>err evs. forEach Svc_Up sample_call (\<lambda>_. Err ''invalid link'') [] [''web''] [] err evs \<and> err = NoErr \<and> evs = []"
proof -
  let ?create = "\<lambda>_. Err ''invalid link'' :: service_view go"
  have launch: "launch (launch_env_of Map.empty {} (cycle_action Svc_Up sample_call)) [] = Some ([], launch_init)"
    by (simp add: launch_def)
  have "traverse Svc_Up sample_call ?create {} [''web''] [] Map.empty NoErr
      (rs_events (run_init Map.empty launch_init))"
    by (rule traverse.finish [OF _ _ _ launch, where ws' = "[]"]) (simp_all add: runs_to_def)
  then have "forEach Svc_Up sample_call ?create [] [''web''] [] NoErr (rs_events (run_init Map.empty launch_init))"
    by (simp add: forEach_def)
  with forEach_drops_create_error [OF refl this] show ?thesis by blast
qed

text \<open>
  Environment resolution.  The services are created with an environment in which every entry has a
  value or comes from the lookup: entries with a value are kept in order, a bare name is replaced by the
  stack's value of that name, and dropped when the stack has none.
\<close>

theorem resolve_env_from_stack:
  assumes "MaporEqualSlice_Slice (sc_Environment config) = pre @ entry # post"
    "split2 (CHR ''='') entry = [name] \<or> split2 (CHR ''='') entry = [name, []]"
  shows "resolve_env (MapEnvLookup_Lookup fmt_v m) service config =
    resolve_env (MapEnvLookup_Lookup fmt_v m) service (config\<lparr>sc_Environment := NewMaporEqualSlice pre\<rparr>) @
    (case Env m name of Some v \<Rightarrow> [name @ ''='' @ fmt_v v] | None \<Rightarrow> []) @
    resolve_env (MapEnvLookup_Lookup fmt_v m) service (config\<lparr>sc_Environment := NewMaporEqualSlice post\<rparr>)"
proof -
  have eq: "resolve_env (MapEnvLookup_Lookup fmt_v m) service c =
      concat (map (\<lambda>env. let parts = split2 (CHR ''='') env
        in if length parts > 1 \<and> parts ! 1 \<noteq> [] then [env]
           else (case Env m (parts ! 0) of Some v \<Rightarrow> [parts ! 0 @ ''='' @ fmt_v v] | None \<Rightarrow> []))
        (MaporEqualSlice_Slice (sc_Environment c)))" for c
    by (simp add: resolve_env_def MapEnvLookup_Lookup_def cong: if_cong)
  from assms show ?thesis
    by (auto simp: eq NewMaporEqualSlice_def MaporEqualSlice_Slice_def Let_def split: option.splits)
qed

theorem resolve_env_from_stack_witness:
  "resolve_env (MapEnvLookup_Lookup id \<lparr>Env = [''TOKEN'' \<mapsto> ''s3cret'']\<rparr>) ''web''
     (ServiceConfig_zero\<lparr>sc_Environment := NewMaporEqualSlice [''TOKEN'']\<rparr>) = [''TOKEN=s3cret'']"
  using resolve_env_from_stack [of "ServiceConfig_zero\<lparr>sc_Environment := NewMaporEqualSlice [''TOKEN'']\<rparr>"
      "[]" "''TOKEN''" "[]" "''TOKEN''" id "\<lparr>Env = [''TOKEN'' \<mapsto> ''s3cret'']\<rparr>" "''web''"]
  by (simp add: NewMaporEqualSlice_def MaporEqualSlice_Slice_def split2_no_sep) (simp add: resolve_env_def
      NewMaporEqualSlice_def MaporEqualSlice_Slice_def)

section \<open>The project name\<close>

lemma project_char_lower: "project_char c \<Longrightarrow> \<not> is_upper c \<Longrightarrow> lower_char c = c"
  by (simp add: lower_char_def)

definition name_char :: "char \<Rightarrow> bool" where
  "name_char c \<longleftrightarrow> project_char c \<and> \<not> is_upper c"

lemma name_char_map: "name_char (sanitize_char (lower_char c))"
  using lower_char_not_upper [of c] by (auto simp: sanitize_char_def name_char_def project_char_def is_upper_def)

lemma project_name_chars: "c \<in> set (project_name n) \<Longrightarrow> name_char c"
  by (auto simp: project_name_def to_lower_def name_char_map)

lemma project_name_id: "(\<And>c. c \<in> set n \<Longrightarrow> name_char c) \<Longrightarrow> project_name n = n"
  by (induction n) (auto simp: project_name_def to_lower_def name_char_def lower_char_def sanitize_char_def)

definition valid_project_name :: "string \<Rightarrow> bool" where
  "valid_project_name n \<longleftrightarrow> n \<noteq> [] \<and> list_all name_char n \<and> hd n \<notin> set ''_.-''"

text \<open>
  The project name.  Whatever the configured name, the environment or the directory, an opened
  context has a valid name (lower case letters, digits, underscores, dots and hyphens, starting with a
  letter or digit), and determining it again changes nothing.
\<close>

theorem determineProject_valid:
  assumes "determineProject os c = Ok c'"
  shows "valid_project_name (cx_ProjectName c') \<and> determineProject os c' = Ok c'"
proof -
  from assms obtain name where n: "lookupProjectName os c = Ok name"
    by (auto simp: determineProject_def go_bind_Ok_iff)
  with assms obtain x xs where x: "project_name name = x # xs"
    by (cases "project_name name") (auto simp: determineProject_def)
  have cs: "name_char y" if "y \<in> set (x # xs)" for y
    using project_name_chars [of y name] that x by simp
  have res: "c' = c\<lparr>cx_ProjectName := (if x \<in> set ''_.-'' then CHR ''x'' # x # xs else x # xs)\<rparr>"
    using assms n x by (auto simp: determineProject_def split: if_splits)
  have xn: "name_char (CHR ''x'')" "CHR ''x'' \<notin> set ''_.-''"
    by (simp_all add: name_char_def project_char_def is_lower_def is_upper_def is_digit_def)
  have valid: "valid_project_name (cx_ProjectName c')"
    using cs xn res by (auto simp: valid_project_name_def list_all_iff)
  then have "project_name (cx_ProjectName c') = cx_ProjectName c'"
    by (intro project_name_id) (simp add: valid_project_name_def list_all_iff)
  then have "determineProject os c' = Ok c'"
    using valid by (cases "cx_ProjectName c'") (auto simp: determineProject_def lookupProjectName_def valid_project_name_def)
  with valid show ?thesis by blast
qed

definition sample_os :: os_env where
  "sample_os = \<lparr>os_Stdin = Ok [], os_ReadFile = (\<lambda>_. ReadNotExist ''no such file''), os_Getenv = (\<lambda>_. []),
     os_Abs = (\<lambda>f. Ok (''/srv/My_App/'' @ f)), os_Getwd = Ok ''/srv/My_App''\<rparr>"

definition sample_context :: Context where
  "sample_context = \<lparr>cx_ComposeFile = [], cx_ComposeBytes = Some [], cx_ProjectName = ''_My Stack'', cx_isOpen = False,
     cx_IgnoreMissingConfig = False\<rparr>"

theorem determineProject_valid_witness:
  "determineProject sample_os sample_context = Ok (sample_context\<lparr>cx_ProjectName := ''x_my-stack''\<rparr>) \<and>
   valid_project_name ''x_my-stack''"
proof -
  have name: "project_name ''_My Stack'' = ''_my-stack''" by code_simp
  have "determineProject sample_os sample_context = Ok (sample_context\<lparr>cx_ProjectName := ''x_my-stack''\<rparr>)"
    by (simp add: determineProject_def lookupProjectName_def sample_context_def name)
  with determineProject_valid [OF this] show ?thesis by simp
qed

section \<open>Listeners\<close>

text \<open>What a client does to the listeners of a project: it adds a channel of its own, or an event is sent.\<close>

datatype listener_use = UAdd nat | UNotify EventType string

fun run_uses :: "listener_use list \<Rightarrow> Project \<Rightarrow> Project go" where
  "run_uses [] p = Ok p"
| "run_uses (UAdd c # us) p = run_uses us (AddListener c p)"
| "run_uses (UNotify ev n # us) p = go_bind (Notify ev n None p) (run_uses us)"

definition added :: "listener_use list \<Rightarrow> nat list" where
  "added us = concat (map (\<lambda>u. case u of UAdd c \<Rightarrow> [c] | UNotify _ _ \<Rightarrow> []) us)"

lemma Notify_open:
  assumes "set (pr_listeners p) \<inter> pr_closed p = {}"
  shows "Notify ev n d p = Ok (if ev = NoEvent then p else p\<lparr>pr_sent := pr_sent p @
    map (\<lambda>l. (l, \<lparr>ev_EventType = ev, ev_ServiceName = n, ev_Data = d\<rparr>)) (pr_listeners p)\<rparr>)"
proof -
  have "go_fold (\<lambda>l p. if l \<in> pr_closed p then Panic else Ok (p\<lparr>pr_sent := pr_sent p @ [(l, e)]\<rparr>)) ls q =
      Ok (q\<lparr>pr_sent := pr_sent q @ map (\<lambda>l. (l, e)) ls\<rparr>)"
    if "set ls \<inter> pr_closed q = {}" for ls e and q :: Project
    using that by (induction ls arbitrary: q) auto
  with assms show ?thesis by (simp add: Notify_def Let_def)
qed

text \<open>
  Listeners.  \<open>AddListener\<close> closes the default listener the first time; no event is ever sent on a
  closed channel (which would panic), and every channel a client adds receives exactly the events
  sent after it was added, in order.
\<close>

theorem listeners_receive_events:
  assumes "distinct (l # added us)" "c \<in> set (added us)"
  shows "\<exists>p us1 us2. run_uses us (NewProject context l) = Ok p \<and> us = us1 @ UAdd c # us2 \<and>
    filter (\<lambda>(k, e). k = c) (pr_sent p) =
      map (\<lambda>(ev, n). (c, \<lparr>ev_EventType = ev, ev_ServiceName = n, ev_Data = None\<rparr>))
        (concat (map (\<lambda>u. case u of UNotify ev n \<Rightarrow> (if ev = NoEvent then [] else [(ev, n)]) | UAdd _ \<Rightarrow> []) us2))"
proof -
  define evs where "evs us2 = concat (map (\<lambda>u. case u of
      UNotify ev n \<Rightarrow> (if ev = NoEvent then [] else [(ev, n)]) | UAdd _ \<Rightarrow> []) us2)" for us2
  let ?out = "\<lambda>us2. map (\<lambda>(ev, n). (c, \<lparr>ev_EventType = ev, ev_ServiceName = n, ev_Data = None\<rparr>)) (evs us2)"
  have listening: "\<exists>p'. run_uses us p = Ok p' \<and>
      filter (\<lambda>(k, e). k = c) (pr_sent p') = filter (\<lambda>(k, e). k = c) (pr_sent p) @ ?out us"
    if "set (pr_listeners p) \<inter> pr_closed p = {}" "distinct (pr_listeners p)" "c \<in> set (pr_listeners p)"
      "pr_hasListeners p" "distinct (added us)" "set (added us) \<inter> (set (pr_listeners p) \<union> pr_closed p) = {}" for us p
    using that
  proof (induction us arbitrary: p)
    case (Cons u us)
    show ?case
    proof (cases u)
      case (UAdd x)
      have "\<exists>p'. run_uses us (AddListener x p) = Ok p' \<and>
          filter (\<lambda>(k, e). k = c) (pr_sent p') = filter (\<lambda>(k, e). k = c) (pr_sent (AddListener x p)) @ ?out us"
        using Cons.prems UAdd by (intro Cons.IH) (auto simp: AddListener_def added_def)
      with UAdd Cons.prems(4) show ?thesis by (simp add: AddListener_def evs_def)
    next
      case (UNotify ev n)
      let ?e = "\<lparr>ev_EventType = ev, ev_ServiceName = n, ev_Data = None\<rparr>"
      have one: "filter (\<lambda>(k, e). k = c) (map (\<lambda>l. (l, ?e)) ls) = (if c \<in> set ls then [(c, ?e)] else [])"
        if "distinct ls" for ls using that by (induction ls) auto
      define q where "q = (if ev = NoEvent then p else p\<lparr>pr_sent := pr_sent p @ map (\<lambda>l. (l, ?e)) (pr_listeners p)\<rparr>)"
      have "\<exists>p'. run_uses us q = Ok p' \<and>
          filter (\<lambda>(k, e). k = c) (pr_sent p') = filter (\<lambda>(k, e). k = c) (pr_sent q) @ ?out us"
        using Cons.prems UNotify by (intro Cons.IH) (auto simp: q_def added_def)
      with UNotify Notify_open [OF Cons.prems(1), of ev n None] one [OF Cons.prems(2)] Cons.prems(3)
      show ?thesis by (auto simp: q_def evs_def)
    qed
  qed (simp add: evs_def)
  have before: "\<exists>p'. run_uses us p = Ok p' \<and> (\<exists>us1 us2. us = us1 @ UAdd c # us2 \<and>
      filter (\<lambda>(k, e). k = c) (pr_sent p') = ?out us2)"
    if "set (pr_listeners p) \<inter> pr_closed p = {}" "distinct (pr_listeners p)" "c \<notin> set (pr_listeners p)"
      "filter (\<lambda>(k, e). k = c) (pr_sent p) = []" "distinct (added us)" "c \<in> set (added us)"
      "set (added us) \<inter> (set (pr_listeners p) \<union> pr_closed p) = {}" for us p
    using that
  proof (induction us arbitrary: p)
    case (Cons u us)
    show ?case
    proof (cases u)
      case (UAdd x)
      show ?thesis
      proof (cases "x = c")
        case True
        have "\<exists>p'. run_uses us (AddListener c p) = Ok p' \<and>
            filter (\<lambda>(k, e). k = c) (pr_sent p') = filter (\<lambda>(k, e). k = c) (pr_sent (AddListener c p)) @ ?out us"
          using Cons.prems UAdd True by (intro listening) (auto simp: AddListener_def added_def)
        moreover have "pr_sent (AddListener c p) = pr_sent p" by (simp add: AddListener_def)
        ultimately obtain p' where "run_uses us (AddListener c p) = Ok p'"
          "filter (\<lambda>(k, e). k = c) (pr_sent p') = ?out us" using Cons.prems(4) by auto
        with UAdd True show ?thesis
          by (intro exI [of _ p'] conjI exI [of _ "[]"] exI [of _ us]) simp_all
      next
        case False
        have "\<exists>p'. run_uses us (AddListener x p) = Ok p' \<and> (\<exists>us1 us2. us = us1 @ UAdd c # us2 \<and>
            filter (\<lambda>(k, e). k = c) (pr_sent p') = ?out us2)"
          using Cons.prems UAdd False by (intro Cons.IH) (auto simp: AddListener_def added_def)
        with UAdd show ?thesis by (metis append_Cons run_uses.simps(2))
      qed
    next
      case (UNotify ev n)
      define q where "q = (if ev = NoEvent then p else p\<lparr>pr_sent := pr_sent p @
        map (\<lambda>l. (l, \<lparr>ev_EventType = ev, ev_ServiceName = n, ev_Data = None\<rparr>)) (pr_listeners p)\<rparr>)"
      have none: "filter (\<lambda>(k, e). k = c) (map (\<lambda>l. (l, e)) ls) = []" if "c \<notin> set ls" for ls and e :: Event
        using that by (induction ls) auto
      have "\<exists>p'. run_uses us q = Ok p' \<and> (\<exists>us1 us2. us = us1 @ UAdd c # us2 \<and>
          filter (\<lambda>(k, e). k = c) (pr_sent p') = ?out us2)"
        using Cons.prems UNotify none by (intro Cons.IH) (auto simp: q_def added_def)
      moreover have "run_uses (u # us) p = run_uses us q"
        using UNotify Notify_open [OF Cons.prems(1), of ev n None] by (simp add: q_def)
      ultimately show ?thesis by (metis append_Cons)
    qed
  qed (simp add: added_def)
  show ?thesis
    using before [of "NewProject context l" us] assms unfolding evs_def [symmetric]
    by (auto simp: NewProject_def)
qed

theorem listeners_receive_events_witness:
  "\<exists>p us1 us2. run_uses [UNotify EventProjectUpStart [], UAdd 1, UNotify EventProjectUpDone []]
      (NewProject sample_context 0) = Ok p \<and>
    [UNotify EventProjectUpStart [], UAdd 1, UNotify EventProjectUpDone []] = us1 @ UAdd 1 # us2 \<and>
    filter (\<lambda>(k, e). k = 1) (pr_sent p) =
      map (\<lambda>(ev, n). (1, \<lparr>ev_EventType = ev, ev_ServiceName = n, ev_Data = None\<rparr>))
        (concat (map (\<lambda>u. case u of UNotify ev n \<Rightarrow> (if ev = NoEvent then [] else [(ev, n)]) | UAdd _ \<Rightarrow> []) us2))"
  by (rule listeners_receive_events) (simp_all add: added_def)

end
