(* ===== verification/Docker_Container.thy ===== *)
theory Docker_Container
  imports Go_Parallel Docker_Convert Service_Hash Project_Core
begin

text \<open>
  The containers of the docker backend, \<open>libcompose/docker/container.go\<close> with \<open>functions.go\<close>, \<open>labels.go\<close> and
  \<open>utils/util.go\<close>: each operation is a task over a docker daemon that is a parameter.
\<close>

section \<open>The daemon\<close>

text \<open>
  The client's \<open>HostConfig\<close> is the one of the conversion with the links; \<open>CreateContainer\<close> gets it within the
  configuration.
\<close>

record docker_host =
  dh_config :: HostConfig
  dh_Links :: "string list"

record docker_config =
  dk_config :: Config
  dk_HostConfig :: docker_host

record docker_port =
  dp_IP :: string
  dp_PrivatePort :: int
  dp_PublicPort :: int
  dp_Type :: string

record docker_container =
  dc_Id :: string
  dc_Names :: "string list"
  dc_Command :: string
  dc_Status :: string
  dc_Ports :: "docker_port list"
  dc_Labels :: "string \<rightharpoonup> string"

record docker_info =
  di_Running :: bool
  di_HostConfig :: docker_host
  di_Labels :: "string \<rightharpoonup> string"
  di_Ports :: "string \<rightharpoonup> (string \<times> string) list"

record docker_auth =
  da_Username :: string
  da_Password :: string
  da_Email :: string

datatype docker_call =
    CallList string | CallInspect string | CallCreate docker_config string | CallStart string docker_host
  | CallStop string int | CallRestart string int | CallKill string string | CallRemove string bool bool
  | CallPull string docker_auth | CallBuild string string

record 'x docker_client =
  dl_ListContainers :: "string \<Rightarrow> ('x, docker_container list) act"
  dl_InspectContainer :: "string \<Rightarrow> ('x, docker_info) act"
  dl_CreateContainer :: "docker_config \<Rightarrow> string \<Rightarrow> ('x, string) act"
  dl_StartContainer :: "string \<Rightarrow> docker_host \<Rightarrow> ('x, unit) act"
  dl_StopContainer :: "string \<Rightarrow> int \<Rightarrow> ('x, unit) act"
  dl_RestartContainer :: "string \<Rightarrow> int \<Rightarrow> ('x, unit) act"
  dl_KillContainer :: "string \<Rightarrow> string \<Rightarrow> ('x, unit) act"
  dl_RemoveContainer :: "string \<Rightarrow> bool \<Rightarrow> bool \<Rightarrow> ('x, unit) act"
  dl_PullImage :: "string \<Rightarrow> docker_auth \<Rightarrow> ('x, unit) act"
  dl_BuildImage :: "string \<Rightarrow> string \<Rightarrow> string \<Rightarrow> ('x, unit) act"

text \<open>
  The world of one service: the calls made, the daemon, the project with what its listeners were sent, and
  the fields of the \<open>Service\<close> that change: its configuration, which the hash reorders, and the name of its
  image.  \<open>dw_count\<close> is the counter that \<open>Scale\<close> shares with its goroutines.
\<close>

record 'x docker_world =
  dw_log :: "docker_call list"
  dw_daemon :: 'x
  dw_project :: Project
  dw_config :: ServiceConfig
  dw_imageName :: string
  dw_count :: int

type_synonym ('x, 'a) docker_task = "('x docker_world, 'a) prog"

text \<open>
  What does not change: the service's name, the client, the context, and what comes from libraries: the JSON codec of
  filters, the conversion of the configuration by JSON, the registry's credentials, the digest, the orders of map
  iterations and the builder, if there is one.
\<close>

record 'x docker_env =
  dx_name :: string
  dx_client :: "'x docker_client"
  dx_Timeout :: int
  dx_Signal :: string
  dx_pe :: project_env
  dx_Marshal :: "(string \<times> string list) list \<Rightarrow> string"
  dx_Unmarshal :: "string \<Rightarrow> (string \<times> string list) list"
  dx_toConfig :: "Config \<Rightarrow> Config go"
  dx_toHost :: "HostConfig \<Rightarrow> docker_host go"
  dx_auth :: "string \<Rightarrow> docker_auth go"
  dx_sha1 :: "string \<Rightarrow> string"
  dx_map_order :: "(string \<times> string) list \<Rightarrow> (string \<times> string) list"
  dx_tar :: "string \<Rightarrow> ServiceConfig \<Rightarrow> string go"
  dx_hasBuilder :: bool

text \<open>A call to the daemon, and a look at or a change of the fields.\<close>

definition docker :: "docker_call \<Rightarrow> ('x, 'a) act \<Rightarrow> ('x, 'a) docker_task" where
  "docker call m = prog_call (\<lambda>w. case m (dw_daemon w) of
     (r, x) \<Rightarrow> (r, w\<lparr>dw_log := dw_log w @ [call], dw_daemon := x\<rparr>))"

definition look :: "('x docker_world \<Rightarrow> 'a) \<Rightarrow> ('x, 'a) docker_task" where
  "look f = prog_call (\<lambda>w. (Ok (f w), w))"

definition change :: "('x docker_world \<Rightarrow> 'x docker_world) \<Rightarrow> ('x, unit) docker_task" where
  "change f = prog_call (\<lambda>w. (Ok (), f w))"

definition project_notify :: "EventType \<Rightarrow> string \<Rightarrow> (string \<times> string) list option \<Rightarrow> ('x, unit) docker_task" where
  "project_notify eventType serviceName data = prog_call (\<lambda>w. case Notify eventType serviceName data (dw_project w) of
     Ok p \<Rightarrow> (Ok (), w\<lparr>dw_project := p\<rparr>) | Err e \<Rightarrow> (Err e, w) | Panic \<Rightarrow> (Panic, w))"

section \<open>Labels and filters\<close>

definition label_NAME :: string where "label_NAME = ''io.docker.compose.name''"
definition label_PROJECT :: string where "label_PROJECT = ''io.docker.compose.project''"
definition label_SERVICE :: string where "label_SERVICE = ''io.docker.compose.service''"
definition label_HASH :: string where "label_HASH = ''io.docker.compose.config-hash''"

definition LabelFilter :: "'x docker_env \<Rightarrow> string \<Rightarrow> string \<Rightarrow> string" where
  "LabelFilter dx key v = dx_Marshal dx [(''label'', [key @ ''='' @ v])]"

text \<open>The errors of the codec are ignored.\<close>

definition filter_And :: "'x docker_env \<Rightarrow> string \<Rightarrow> string \<Rightarrow> string" where
  "filter_And dx left right =
     dx_Marshal dx (fold (\<lambda>(k, v) leftMap. case map_of leftMap k of
         Some existing \<Rightarrow> alist_set k (existing @ v) leftMap
       | None \<Rightarrow> alist_set k v leftMap) (dx_Unmarshal dx right) (dx_Unmarshal dx left))"

definition GetContainersByFilter :: "'x docker_env \<Rightarrow> string list \<Rightarrow> ('x, docker_container list) docker_task" where
  "GetContainersByFilter dx filters =
     (let filterResult = fold (\<lambda>value acc. if acc = [] then value else filter_And dx acc value) filters []
      in docker (CallList filterResult) (dl_ListContainers (dx_client dx) filterResult))"

definition GetContainerByName :: "'x docker_env \<Rightarrow> string \<Rightarrow> ('x, docker_container option) docker_task" where
  "GetContainerByName dx name =
     (let f = LabelFilter dx label_NAME name
      in prog_bind (docker (CallList f) (dl_ListContainers (dx_client dx) f)) (\<lambda>containers.
           prog_return (case containers of [] \<Rightarrow> None | c # _ \<Rightarrow> Some c)))"

section \<open>Looking up\<close>

text \<open>\<open>collectContainers\<close> of the service of a name: the names its containers are labelled with.\<close>

definition collectContainers :: "'x docker_env \<Rightarrow> string \<Rightarrow> ('x, string list) docker_task" where
  "collectContainers dx service =
     prog_bind (look (\<lambda>w. pr_Name (dw_project w))) (\<lambda>project.
     prog_bind (GetContainersByFilter dx [LabelFilter dx label_SERVICE service, LabelFilter dx label_PROJECT project])
       (\<lambda>containers. prog_return (map (\<lambda>c. case dc_Labels c label_NAME of None \<Rightarrow> [] | Some n \<Rightarrow> n) containers)))"

definition withContainer :: "'x docker_env \<Rightarrow> string \<Rightarrow> (docker_container \<Rightarrow> ('x, unit) docker_task) \<Rightarrow> ('x, unit) docker_task" where
  "withContainer dx name action =
     prog_bind (GetContainerByName dx name) (\<lambda>container. case container of
       None \<Rightarrow> prog_return ()
     | Some c \<Rightarrow> action c)"

definition inspect :: "'x docker_env \<Rightarrow> docker_container \<Rightarrow> ('x, docker_info) docker_task" where
  "inspect dx c = docker (CallInspect (dc_Id c)) (dl_InspectContainer (dx_client dx) (dc_Id c))"

text \<open>A container that is not found is dereferenced.\<close>

definition findInfo :: "'x docker_env \<Rightarrow> string \<Rightarrow> ('x, docker_info) docker_task" where
  "findInfo dx name =
     prog_bind (GetContainerByName dx name) (\<lambda>container. case container of
       None \<Rightarrow> Done Panic
     | Some c \<Rightarrow> inspect dx c)"

definition Container_ID :: "'x docker_env \<Rightarrow> string \<Rightarrow> ('x, string) docker_task" where
  "Container_ID dx name =
     prog_bind (GetContainerByName dx name) (\<lambda>container. prog_return (case container of None \<Rightarrow> [] | Some c \<Rightarrow> dc_Id c))"

definition Container_Port :: "'x docker_env \<Rightarrow> string \<Rightarrow> string \<Rightarrow> ('x, string) docker_task" where
  "Container_Port dx name port =
     prog_bind (findInfo dx name) (\<lambda>info. prog_return (case di_Ports info port of
         None \<Rightarrow> []
       | Some bindings \<Rightarrow> join [CHR 0x0A] (map (\<lambda>(ip, p). ip @ '':'' @ p) bindings)))"

text \<open>The shortest name, without its slash.\<close>

definition container_name :: "string list \<Rightarrow> string go" where
  "container_name names =
     (case snd (fold (\<lambda>v (max, current). if int (length v) < max then (int (length v), v) else (max, current)) names
         (2 ^ 31 - 1, [])) of
        [] \<Rightarrow> Panic
      | _ # current \<Rightarrow> Ok current)"

definition portString :: "docker_port list \<Rightarrow> string" where
  "portString ports = join '', '' (map (\<lambda>port.
     if dp_PublicPort port > 0
     then dp_IP port @ '':'' @ show_int (dp_PublicPort port) @ ''->'' @ show_int (dp_PrivatePort port) @ ''/'' @ dp_Type port
     else show_int (dp_PrivatePort port) @ ''/'' @ dp_Type port) ports)"

definition Container_Info :: "'x docker_env \<Rightarrow> string \<Rightarrow> ('x, (string \<times> string) list) docker_task" where
  "Container_Info dx name =
     prog_bind (GetContainerByName dx name) (\<lambda>container. case container of
       None \<Rightarrow> Done Panic
     | Some c \<Rightarrow> prog_bind (Done (container_name (dc_Names c))) (\<lambda>n.
         prog_return [(''Name'', n), (''Command'', dc_Command c), (''State'', dc_Status c), (''Ports'', portString (dc_Ports c))]))"

section \<open>Stopping and removing\<close>

definition stop_container :: "'x docker_env \<Rightarrow> string \<Rightarrow> ('x, unit) docker_task" where
  "stop_container dx i = docker (CallStop i (dx_Timeout dx)) (dl_StopContainer (dx_client dx) i (dx_Timeout dx))"

definition Container_Down :: "'x docker_env \<Rightarrow> string \<Rightarrow> ('x, unit) docker_task" where
  "Container_Down dx name = withContainer dx name (\<lambda>c. stop_container dx (dc_Id c))"

definition Container_Kill :: "'x docker_env \<Rightarrow> string \<Rightarrow> ('x, unit) docker_task" where
  "Container_Kill dx name = withContainer dx name (\<lambda>c.
     docker (CallKill (dc_Id c) (dx_Signal dx)) (dl_KillContainer (dx_client dx) (dc_Id c) (dx_Signal dx)))"

definition Container_Restart :: "'x docker_env \<Rightarrow> string \<Rightarrow> ('x, unit) docker_task" where
  "Container_Restart dx name = withContainer dx name (\<lambda>c.
     docker (CallRestart (dc_Id c) (dx_Timeout dx)) (dl_RestartContainer (dx_client dx) (dc_Id c) (dx_Timeout dx)))"

definition Container_Delete :: "'x docker_env \<Rightarrow> string \<Rightarrow> ('x, unit) docker_task" where
  "Container_Delete dx name = withContainer dx name (\<lambda>c.
     prog_bind (inspect dx c) (\<lambda>info.
     prog_bind (if di_Running info then stop_container dx (dc_Id c) else prog_return ()) (\<lambda>_.
       docker (CallRemove (dc_Id c) True False) (dl_RemoveContainer (dx_client dx) (dc_Id c) True False))))"

section \<open>Pulling\<close>

text \<open>\<open>utils.ImageReference\<close> and the default tag.\<close>

definition ImageReference :: "string \<Rightarrow> string \<Rightarrow> string" where
  "ImageReference repo ref = (if CHR '':'' \<in> set ref then repo @ ''@'' @ ref else repo @ '':'' @ ref)"

definition container_pull :: "'x docker_env \<Rightarrow> string \<Rightarrow> ('x, unit) docker_task" where
  "container_pull dx img =
     (let (taglessRemote, tag) = ParseRepositoryTag img;
          img = (if tag = [] then ImageReference taglessRemote ''latest'' else img)
      in prog_bind (Done (dx_auth dx taglessRemote)) (\<lambda>auth.
           docker (CallPull img auth) (dl_PullImage (dx_client dx) img auth)))"

definition Container_Pull :: "'x docker_env \<Rightarrow> ('x, unit) docker_task" where
  "Container_Pull dx = prog_bind (look (\<lambda>w. sc_Image (dw_config w))) (container_pull dx)"

section \<open>Links and namespaces\<close>

text \<open>The service that \<open>CreateService\<close> makes: \<open>service_factory.go\<close> never fails.\<close>

definition ServiceFactory_Create :: "string \<Rightarrow> ServiceConfig \<Rightarrow> (string \<times> ServiceConfig) go" where
  "ServiceFactory_Create name serviceConfig = Ok (name, serviceConfig)"

definition addLinks :: "string \<Rightarrow> string list \<Rightarrow> (string \<times> string) list \<Rightarrow> (string \<times> string) list" where
  "addLinks alias containers links = fold (\<lambda>container links.
     alist_set container container
       (if map_of links alias = None then alist_set alias container links else links)) containers links"

definition addIpc :: "'x docker_env \<Rightarrow> docker_host \<Rightarrow> string list \<Rightarrow> ('x, docker_host) docker_task" where
  "addIpc dx hostConfig containers = (case containers of
     [] \<Rightarrow> prog_bind (look (\<lambda>w. sc_Ipc (dw_config w))) (\<lambda>ipc. prog_fail (''Failed to find container for IPC '' @ ipc))
   | container # _ \<Rightarrow> prog_bind (Container_ID dx container) (\<lambda>i.
       prog_return (hostConfig\<lparr>dh_config := (dh_config hostConfig)\<lparr>hc_IpcMode := ''container:'' @ i\<rparr>\<rparr>)))"

definition addNetNs :: "'x docker_env \<Rightarrow> docker_host \<Rightarrow> string list \<Rightarrow> ('x, docker_host) docker_task" where
  "addNetNs dx hostConfig containers = (case containers of
     [] \<Rightarrow> prog_bind (look (\<lambda>w. sc_Net (dw_config w))) (\<lambda>net. prog_fail (''Failed to find container for networks ns '' @ net))
   | container # _ \<Rightarrow> prog_bind (Container_ID dx container) (\<lambda>i.
       prog_return (hostConfig\<lparr>dh_config := (dh_config hostConfig)\<lparr>hc_NetworkMode := ''container:'' @ i\<rparr>\<rparr>)))"

definition add_dependency :: "'x docker_env \<Rightarrow> ServiceRelationship \<Rightarrow> (string \<times> string) list \<times> docker_host \<Rightarrow>
    ('x, (string \<times> string) list \<times> docker_host) docker_task" where
  "add_dependency dx link = (\<lambda>(links, hostConfig).
     prog_bind (look dw_project) (\<lambda>project.
       if map_of (pr_Configs project) (rel_Target link) = None then prog_return (links, hostConfig)
       else prog_bind (Done (CreateService (dx_pe dx) ServiceFactory_Create (rel_Target link) project)) (\<lambda>(service, _).
         prog_bind (collectContainers dx service) (\<lambda>containers. case rel_Type link of
             RelTypeLink \<Rightarrow> prog_return (addLinks (rel_Alias link) containers links, hostConfig)
           | RelTypeIpcNamespace \<Rightarrow> prog_bind (addIpc dx hostConfig containers) (\<lambda>h. prog_return (links, h))
           | RelTypeNetNamespace \<Rightarrow> prog_bind (addNetNs dx hostConfig containers) (\<lambda>h. prog_return (links, h))
           | RelTypeVolumesFrom \<Rightarrow> prog_return (links, hostConfig)))))"

fun add_dependencies :: "'x docker_env \<Rightarrow> ServiceRelationship list \<Rightarrow> (string \<times> string) list \<times> docker_host \<Rightarrow>
    ('x, (string \<times> string) list \<times> docker_host) docker_task" where
  "add_dependencies dx [] st = prog_return st"
| "add_dependencies dx (link # ls) st = prog_bind (add_dependency dx link st) (add_dependencies dx ls)"

definition populateAdditionalHostConfig :: "'x docker_env \<Rightarrow> docker_host \<Rightarrow> ('x, docker_host) docker_task" where
  "populateAdditionalHostConfig dx hostConfig =
     prog_bind (look (\<lambda>w. DefaultDependentServices (pr_Configs (dw_project w)) (Some (dw_config w)))) (\<lambda>relations.
     prog_bind (add_dependencies dx relations ([], hostConfig)) (\<lambda>(links, hostConfig).
     prog_bind (look (\<lambda>w. sc_ExternalLinks (dw_config w))) (\<lambda>externalLinks.
       prog_return (hostConfig\<lparr>dh_Links := map (\<lambda>(k, v). v @ '':'' @ k) (dx_map_order dx links) @ externalLinks\<rparr>))))"

section \<open>Creating and starting\<close>

definition ConvertToAPI :: "'x docker_env \<Rightarrow> ServiceConfig \<Rightarrow> docker_config go" where
  "ConvertToAPI dx c =
     go_bind (Convert c) (\<lambda>(config, hostConfig).
     go_bind (dx_toConfig dx config) (\<lambda>config.
     go_bind (dx_toHost dx hostConfig) (\<lambda>host. Ok \<lparr>dk_config = config, dk_HostConfig = host\<rparr>)))"

text \<open>Computing the hash reorders the configuration.\<close>

definition service_hash :: "'x docker_env \<Rightarrow> ('x, string) docker_task" where
  "service_hash dx = prog_call (\<lambda>w. case GetServiceHash (dx_sha1 dx) (dx_map_order dx) (dx_name dx) (dw_config w) of
     (hash, config) \<Rightarrow> (Ok hash, w\<lparr>dw_config := config\<rparr>))"

definition label_config :: "string \<Rightarrow> string \<Rightarrow> string \<Rightarrow> string \<Rightarrow> string \<Rightarrow> docker_config \<Rightarrow> docker_config" where
  "label_config imageName name service project hash config =
     config\<lparr>dk_config := (dk_config config)\<lparr>cf_Image := imageName,
       cf_Labels := alist_set label_HASH hash (alist_set label_PROJECT project (alist_set label_SERVICE service
         (alist_set label_NAME name (cf_Labels (dk_config config)))))\<rparr>\<rparr>"

definition create_call :: "'x docker_env \<Rightarrow> docker_config \<Rightarrow> string \<Rightarrow> ('x, string) docker_task" where
  "create_call dx config name = docker (CallCreate config name) (dl_CreateContainer (dx_client dx) config name)"

definition createContainer :: "'x docker_env \<Rightarrow> string \<Rightarrow> string \<Rightarrow> ('x, docker_container option) docker_task" where
  "createContainer dx name imageName =
     prog_bind (look dw_config) (\<lambda>serviceConfig.
     prog_bind (Done (ConvertToAPI dx serviceConfig)) (\<lambda>config.
     prog_bind (look (\<lambda>w. pr_Name (dw_project w))) (\<lambda>project.
     prog_bind (service_hash dx) (\<lambda>hash.
       (let config = label_config imageName name (dx_name dx) project hash config
        in prog_bind (populateAdditionalHostConfig dx (dk_HostConfig config)) (\<lambda>host.
          (let config = config\<lparr>dk_HostConfig := host\<rparr>
           in prog_bind (prog_try (create_call dx config name)) (\<lambda>r.
             prog_bind (case r of
                 Ok _ \<Rightarrow> prog_return ()
               | Err e \<Rightarrow>
                   if e = ''Not found''
                   then prog_bind (container_pull dx imageName) (\<lambda>_.
                     prog_bind (create_call dx config name) (\<lambda>_. prog_return ()))
                   else prog_fail e
               | Panic \<Rightarrow> Done Panic)
               (\<lambda>_. GetContainerByName dx name)))))))))"

definition Container_Create :: "'x docker_env \<Rightarrow> string \<Rightarrow> string \<Rightarrow> ('x, docker_container option) docker_task" where
  "Container_Create dx name imageName =
     prog_bind (GetContainerByName dx name) (\<lambda>container. case container of
       Some c \<Rightarrow> prog_return (Some c)
     | None \<Rightarrow> prog_bind (createContainer dx name imageName) (\<lambda>container.
         prog_bind (project_notify EventContainerCreated (dx_name dx) (Some [(''name'', name)])) (\<lambda>_.
           prog_return container)))"

text \<open>A container that is not found after it was created is dereferenced.  The deferred start of \<open>Log\<close> is left out.\<close>

definition Container_Up :: "'x docker_env \<Rightarrow> string \<Rightarrow> string \<Rightarrow> ('x, unit) docker_task" where
  "Container_Up dx name imageName =
     prog_bind (Container_Create dx name imageName) (\<lambda>container. case container of
       None \<Rightarrow> Done Panic
     | Some c \<Rightarrow> prog_bind (inspect dx c) (\<lambda>info.
         if di_Running info then prog_return ()
         else prog_bind (populateAdditionalHostConfig dx (di_HostConfig info)) (\<lambda>host.
           prog_bind (docker (CallStart (dc_Id c) host) (dl_StartContainer (dx_client dx) (dc_Id c) host)) (\<lambda>_.
             project_notify EventContainerStarted (dx_name dx) (Some [(''name'', name)])))))"

definition Container_OutOfSync :: "'x docker_env \<Rightarrow> string \<Rightarrow> ('x, bool) docker_task" where
  "Container_OutOfSync dx name =
     prog_bind (GetContainerByName dx name) (\<lambda>container. case container of
       None \<Rightarrow> prog_return False
     | Some c \<Rightarrow> prog_bind (inspect dx c) (\<lambda>info. prog_bind (service_hash dx) (\<lambda>hash.
         prog_return ((case di_Labels info label_HASH of None \<Rightarrow> [] | Some h \<Rightarrow> h) \<noteq> hash))))"

section \<open>Which calls a task makes\<close>

definition only_calls :: "(docker_call \<Rightarrow> bool) \<Rightarrow> 'x docker_world \<Rightarrow> 'x docker_world \<Rightarrow> bool" where
  "only_calls P w w' \<longleftrightarrow> (\<exists>calls. dw_log w' = dw_log w @ calls \<and> list_all P calls)"

lemma only_calls_refl [simp]: "reflp (only_calls P)"
  by (auto simp: reflp_def only_calls_def)

lemma only_calls_trans [simp]: "transp (only_calls P)"
  by (rule transpI) (auto simp: only_calls_def)

lemma only_calls_mono: "only_calls P w w' \<Longrightarrow> (\<And>c. P c \<Longrightarrow> Q c) \<Longrightarrow> only_calls Q w w'"
  unfolding only_calls_def by (auto elim!: list.pred_mono_strong)

lemma keeps_docker [task_intro]: "P call \<Longrightarrow> prog_keeps (only_calls P) (docker call m)"
  unfolding docker_def by (rule keeps_call) (auto simp: keeps_def only_calls_def split: prod.split)

lemma keeps_fields [task_intro]:
  "prog_keeps (only_calls P) (look f)" "prog_keeps (only_calls P) (project_notify e s d)"
  "prog_keeps (only_calls P) (service_hash dx)"
  unfolding look_def project_notify_def service_hash_def
  by (auto intro!: keeps_call simp: keeps_def only_calls_def split: go.split prod.split)

lemma keeps_change [task_intro]: "(\<And>w. dw_log (f w) = dw_log w) \<Longrightarrow> prog_keeps (only_calls P) (change f)"
  unfolding change_def by (auto intro!: keeps_call simp: keeps_def only_calls_def)

text \<open>A task that does not call but to list.\<close>

locale call_policy =
  fixes dx :: "'x docker_env" and P :: "docker_call \<Rightarrow> bool"
  assumes lists: "P (CallList f)"
begin

lemma keeps_lookups [task_intro]:
  "prog_keeps (only_calls P) (GetContainersByFilter dx fs)" "prog_keeps (only_calls P) (GetContainerByName dx name)"
  "prog_keeps (only_calls P) (collectContainers dx service)" "prog_keeps (only_calls P) (Container_ID dx name)"
  unfolding GetContainersByFilter_def GetContainerByName_def collectContainers_def Container_ID_def Let_def
  by (auto intro!: task_intro lists)

lemma keeps_withContainer [task_intro]:
  "(\<And>c. prog_keeps (only_calls P) (action c)) \<Longrightarrow> prog_keeps (only_calls P) (withContainer dx name action)"
  unfolding withContainer_def by (auto intro!: task_intro split: option.split)

lemma keeps_dependency [task_intro]: "prog_keeps (only_calls P) (add_dependency dx link st)"
  unfolding add_dependency_def addIpc_def addNetNs_def
  by (auto intro!: task_intro split: option.split prod.split list.split go.split ServiceRelationshipType.split)

lemma keeps_dependencies [task_intro]: "prog_keeps (only_calls P) (add_dependencies dx ls st)"
  by (induction ls arbitrary: st) (auto intro!: task_intro)

lemma keeps_populate [task_intro]: "prog_keeps (only_calls P) (populateAdditionalHostConfig dx h)"
  unfolding populateAdditionalHostConfig_def by (auto intro!: task_intro split: prod.split)

end

text \<open>A task that also creates containers, which carry the labels that \<open>collectContainers\<close> looks for.\<close>

definition labelled :: "'x docker_env \<Rightarrow> string \<Rightarrow> docker_config \<Rightarrow> bool" where
  "labelled dx name config \<longleftrightarrow> (let labels = map_of (cf_Labels (dk_config config)) in
     labels label_NAME = Some name \<and> labels label_SERVICE = Some (dx_name dx) \<and>
     labels label_PROJECT \<noteq> None \<and> labels label_HASH \<noteq> None)"

lemma labelled_label_config: "labelled dx name (label_config imageName name (dx_name dx) project hash config)"
  by (simp add: labelled_def label_config_def label_NAME_def label_SERVICE_def label_PROJECT_def label_HASH_def)

lemma labelled_host [simp]: "labelled dx name (config\<lparr>dk_HostConfig := h\<rparr>) = labelled dx name config"
  by (simp add: labelled_def)

locale create_policy = call_policy dx P for dx :: "'x docker_env" and P +
  assumes creates: "labelled dx name config \<Longrightarrow> P (CallCreate config name)" and pulls: "P (CallPull img auth)"
begin

lemma keeps_pull [task_intro]: "prog_keeps (only_calls P) (container_pull dx img)"
  unfolding container_pull_def Let_def by (auto intro!: task_intro pulls split: prod.split go.split)

lemma keeps_create_call [task_intro]: "labelled dx name config \<Longrightarrow> prog_keeps (only_calls P) (create_call dx config name)"
  unfolding create_call_def by (intro task_intro creates)

lemma keeps_createContainer [task_intro]: "prog_keeps (only_calls P) (createContainer dx name imageName)"
  unfolding createContainer_def Let_def
  by (auto intro!: task_intro split: go.split simp: labelled_label_config)

lemma keeps_Create [task_intro]: "prog_keeps (only_calls P) (Container_Create dx name imageName)"
  unfolding Container_Create_def by (auto intro!: task_intro split: option.split)

end

locale start_policy = create_policy dx P for dx :: "'x docker_env" and P +
  assumes inspects: "P (CallInspect i)" and starts: "P (CallStart i h)"
begin

lemma keeps_inspect [task_intro]: "prog_keeps (only_calls P) (inspect dx c)"
  unfolding inspect_def by (intro task_intro inspects)

lemma keeps_Up [task_intro]: "prog_keeps (only_calls P) (Container_Up dx name imageName)"
  unfolding Container_Up_def by (auto intro!: task_intro starts split: option.split)

lemma keeps_OutOfSync [task_intro]: "prog_keeps (only_calls P) (Container_OutOfSync dx name)"
  unfolding Container_OutOfSync_def by (auto intro!: task_intro split: option.split)

end

end
