(* ===== verification/Docker_Service.thy ===== *)
theory Docker_Service
  imports Docker_Container
begin

text \<open>
  The services of the docker backend, \<open>libcompose/docker/service.go\<close> with \<open>name.go\<close> and \<open>builder.go\<close>: relations
  from a world to the results and worlds that some schedule of the goroutines leads to.
\<close>

section \<open>Operations with goroutines\<close>

type_synonym ('x, 'a) docker_run = "'x docker_world \<Rightarrow> 'a go \<Rightarrow> 'x docker_world \<Rightarrow> bool"

definition run_task :: "('x, 'a) docker_task \<Rightarrow> ('x, 'a) docker_run" where
  "run_task p w r w' \<longleftrightarrow> exec p w = (r, w')"

definition run_bind :: "('x, 'a) docker_run \<Rightarrow> ('a \<Rightarrow> ('x, 'b) docker_run) \<Rightarrow> ('x, 'b) docker_run" where
  "run_bind m f w r w' \<longleftrightarrow>
     (\<exists>a v. m w (Ok a) v \<and> f a v r w') \<or> (\<exists>e. m w (Err e) w' \<and> r = Err e) \<or> (m w Panic w' \<and> r = Panic)"

abbreviation run_return :: "'a \<Rightarrow> ('x, 'a) docker_run" where
  "run_return a \<equiv> run_task (prog_return a)"

section \<open>Names\<close>

text \<open>
  The names of \<open>NewNamer\<close>: a goroutine counts up and offers each name that no container has.  A lookup that fails goes on to
  the next number as well.  Names are looked up when they are asked for; the goroutine looks one up ahead.
\<close>

definition container_format :: "string \<Rightarrow> string \<Rightarrow> int \<Rightarrow> string" where
  "container_format project service i = project @ ''_'' @ service @ ''_'' @ show_int i"

inductive next_name :: "'x docker_env \<Rightarrow> int \<Rightarrow> 'x docker_world \<Rightarrow> (string \<times> int) go \<Rightarrow> 'x docker_world \<Rightarrow> bool" for dx where
  free: "name = container_format (pr_Name (dw_project w)) (dx_name dx) i \<Longrightarrow>
    exec (GetContainerByName dx name) w = (Ok None, w') \<Longrightarrow> next_name dx i w (Ok (name, i + 1)) w'"
| skip: "exec (GetContainerByName dx (container_format (pr_Name (dw_project w)) (dx_name dx) i)) w = (q, v) \<Longrightarrow>
    q \<noteq> Ok None \<Longrightarrow> q \<noteq> Panic \<Longrightarrow> next_name dx (i + 1) v r w' \<Longrightarrow> next_name dx i w r w'"
| crash: "exec (GetContainerByName dx (container_format (pr_Name (dw_project w)) (dx_name dx) i)) w = (Panic, w') \<Longrightarrow>
    next_name dx i w Panic w'"

text \<open>\<open>NewSingleNamer\<close> gives its name every time.\<close>

definition Namer_Next :: "'x docker_env \<Rightarrow> int \<Rightarrow> ('x, string \<times> int) docker_run" where
  "Namer_Next dx i w r w' \<longleftrightarrow>
     (if sc_ContainerName (dw_config w) \<noteq> [] then r = Ok (sc_ContainerName (dw_config w), i) \<and> w' = w
      else next_name dx i w r w')"

section \<open>Building\<close>

text \<open>\<open>DaemonBuilder\<close>; the archive of the build context is a parameter.\<close>

definition DaemonBuilder_Build :: "'x docker_env \<Rightarrow> ('x, string) docker_task" where
  "DaemonBuilder_Build dx =
     prog_bind (look dw_config) (\<lambda>config. prog_bind (look (\<lambda>w. pr_Name (dw_project w))) (\<lambda>project.
       if sc_Build config = [] then prog_return (sc_Image config)
       else (let tag = project @ ''_'' @ dx_name dx
         in prog_bind (Done (dx_tar dx (dx_name dx) config)) (\<lambda>context.
            prog_bind (docker (CallBuild tag (sc_Dockerfile config))
                (dl_BuildImage (dx_client dx) context tag (sc_Dockerfile config))) (\<lambda>_. prog_return tag)))))"

definition service_build :: "'x docker_env \<Rightarrow> ('x, string) docker_task" where
  "service_build dx =
     prog_bind (look dw_imageName) (\<lambda>imageName.
       if imageName \<noteq> [] then prog_return imageName
       else prog_bind (if dx_hasBuilder dx then DaemonBuilder_Build dx else look (\<lambda>w. sc_Image (dw_config w))) (\<lambda>imageName.
         prog_bind (change (\<lambda>w. w\<lparr>dw_imageName := imageName\<rparr>)) (\<lambda>_. prog_return imageName)))"

section \<open>Creating containers\<close>

text \<open>A container that is not found after it was created is dereferenced by the log line.\<close>

definition construct_one :: "'x docker_env \<Rightarrow> bool \<Rightarrow> string \<Rightarrow> ('x, unit) docker_task" where
  "construct_one dx create containerName =
     (if create
      then prog_bind (service_build dx) (\<lambda>imageName.
        prog_bind (Container_Create dx containerName imageName) (\<lambda>c. case c of None \<Rightarrow> Done Panic | Some _ \<Rightarrow> prog_return ()))
      else prog_return ())"

fun construct_loop :: "'x docker_env \<Rightarrow> bool \<Rightarrow> nat \<Rightarrow> int \<Rightarrow> string list \<Rightarrow> ('x, string list) docker_run" where
  "construct_loop dx create 0 i result = run_return result"
| "construct_loop dx create (Suc n) i result =
     run_bind (Namer_Next dx i) (\<lambda>(containerName, i).
     run_bind (run_task (construct_one dx create containerName)) (\<lambda>_.
       construct_loop dx create n i (result @ [containerName])))"

definition constructContainers :: "'x docker_env \<Rightarrow> bool \<Rightarrow> int \<Rightarrow> ('x, string list) docker_run" where
  "constructContainers dx create number =
     run_bind (run_task (collectContainers dx (dx_name dx))) (\<lambda>result.
       construct_loop dx create (nat (number - int (length result))) 1 result)"

definition createOne :: "'x docker_env \<Rightarrow> ('x, string) docker_run" where
  "createOne dx = run_bind (constructContainers dx True 1) (\<lambda>containers. case containers of
     [] \<Rightarrow> run_task (Done Panic)
   | c # _ \<Rightarrow> run_return c)"

section \<open>The operations\<close>

definition eachContainer :: "'x docker_env \<Rightarrow> (string \<Rightarrow> ('x, unit) docker_task) \<Rightarrow> ('x, unit) docker_run" where
  "eachContainer dx action =
     run_bind (run_task (collectContainers dx (dx_name dx))) (\<lambda>containers. InParallel (map action containers))"

definition Service_Create :: "'x docker_env \<Rightarrow> ('x, unit) docker_run" where
  "Service_Create dx = run_bind (createOne dx) (\<lambda>_. run_return ())"

definition Service_Build :: "'x docker_env \<Rightarrow> ('x, unit) docker_run" where
  "Service_Build dx = run_task (prog_bind (service_build dx) (\<lambda>_. prog_return ()))"

definition up_container :: "'x docker_env \<Rightarrow> string \<Rightarrow> string \<Rightarrow> ('x, unit) docker_task" where
  "up_container dx imageName c = prog_bind (Container_OutOfSync dx c) (\<lambda>_. Container_Up dx c imageName)"

definition service_up :: "'x docker_env \<Rightarrow> string \<Rightarrow> bool \<Rightarrow> ('x, unit) docker_run" where
  "service_up dx imageName create =
     run_bind (run_task (collectContainers dx (dx_name dx))) (\<lambda>containers.
     run_bind (if containers = [] \<and> create then Service_Create dx else run_return ()) (\<lambda>_.
       eachContainer dx (up_container dx imageName)))"

definition Service_Up :: "'x docker_env \<Rightarrow> ('x, unit) docker_run" where
  "Service_Up dx = run_bind (run_task (service_build dx)) (\<lambda>imageName. service_up dx imageName True)"

definition Service_Start :: "'x docker_env \<Rightarrow> ('x, unit) docker_run" where
  "Service_Start dx = service_up dx [] False"

definition Service_Down :: "'x docker_env \<Rightarrow> ('x, unit) docker_run" where
  "Service_Down dx = eachContainer dx (Container_Down dx)"

definition Service_Restart :: "'x docker_env \<Rightarrow> ('x, unit) docker_run" where
  "Service_Restart dx = eachContainer dx (Container_Restart dx)"

definition Service_Kill :: "'x docker_env \<Rightarrow> ('x, unit) docker_run" where
  "Service_Kill dx = eachContainer dx (Container_Kill dx)"

definition Service_Delete :: "'x docker_env \<Rightarrow> ('x, unit) docker_run" where
  "Service_Delete dx = eachContainer dx (Container_Delete dx)"

text \<open>The closures of \<open>Scale\<close> count in a variable they share: it is read, written, and read again.\<close>

definition scale_container :: "'x docker_env \<Rightarrow> int \<Rightarrow> string \<Rightarrow> ('x, unit) docker_task" where
  "scale_container dx scale c =
     prog_bind (look dw_count) (\<lambda>n.
     prog_bind (change (\<lambda>w. w\<lparr>dw_count := n + 1\<rparr>)) (\<lambda>_.
     prog_bind (look dw_count) (\<lambda>foundCount.
       if foundCount > scale then prog_bind (Container_Down dx c) (\<lambda>_. Container_Delete dx c)
       else prog_return ())))"

definition Service_Scale :: "'x docker_env \<Rightarrow> int \<Rightarrow> ('x, unit) docker_run" where
  "Service_Scale dx scale =
     run_bind (run_task (change (\<lambda>w. w\<lparr>dw_count := 0\<rparr>))) (\<lambda>_.
     run_bind (eachContainer dx (scale_container dx scale)) (\<lambda>_.
     run_bind (run_task (look dw_count)) (\<lambda>foundCount.
     run_bind (if foundCount \<noteq> scale then run_bind (constructContainers dx True scale) (\<lambda>_. run_return ()) else run_return ())
       (\<lambda>_. service_up dx [] False))))"

definition Service_Pull :: "'x docker_env \<Rightarrow> ('x, unit) docker_run" where
  "Service_Pull dx = run_bind (constructContainers dx False 1) (\<lambda>containers. case containers of
     [] \<Rightarrow> run_task (Done Panic)
   | _ # _ \<Rightarrow> run_task (Container_Pull dx))"

definition Service_Containers :: "'x docker_env \<Rightarrow> ('x, string list) docker_run" where
  "Service_Containers dx = run_task (collectContainers dx (dx_name dx))"

fun info_each :: "'x docker_env \<Rightarrow> string list \<Rightarrow> ('x, (string \<times> string) list list) docker_task" where
  "info_each dx [] = prog_return []"
| "info_each dx (c # cs) = prog_bind (Container_Info dx c) (\<lambda>info.
     prog_bind (info_each dx cs) (\<lambda>infos. prog_return (info # infos)))"

definition Service_Info :: "'x docker_env \<Rightarrow> ('x, (string \<times> string) list list) docker_run" where
  "Service_Info dx = run_task (prog_bind (collectContainers dx (dx_name dx)) (info_each dx))"

section \<open>Which calls an operation makes\<close>

datatype docker_op =
    DoBuild | DoCreate | DoUp | DoStart | DoDown | DoRestart | DoKill | DoDelete | DoScale int | DoPull

fun run_service_op :: "'x docker_env \<Rightarrow> docker_op \<Rightarrow> ('x, unit) docker_run" where
  "run_service_op dx DoBuild = Service_Build dx"
| "run_service_op dx DoCreate = Service_Create dx"
| "run_service_op dx DoUp = Service_Up dx"
| "run_service_op dx DoStart = Service_Start dx"
| "run_service_op dx DoDown = Service_Down dx"
| "run_service_op dx DoRestart = Service_Restart dx"
| "run_service_op dx DoKill = Service_Kill dx"
| "run_service_op dx DoDelete = Service_Delete dx"
| "run_service_op dx (DoScale scale) = Service_Scale dx scale"
| "run_service_op dx DoPull = Service_Pull dx"

text \<open>
  What an operation may ask of the daemon.  \<open>Start\<close> may create and pull: a container that was listed and is gone
  when it is to be started is created.
\<close>

fun permitted_call :: "'x docker_env \<Rightarrow> docker_op \<Rightarrow> docker_call \<Rightarrow> bool" where
  "permitted_call dx op (CallList f) = True"
| "permitted_call dx op (CallInspect i) = (case op of DoUp \<Rightarrow> True | DoStart \<Rightarrow> True | DoDelete \<Rightarrow> True | DoScale _ \<Rightarrow> True | _ \<Rightarrow> False)"
| "permitted_call dx op (CallCreate config name) =
     (labelled dx name config \<and> (case op of DoCreate \<Rightarrow> True | DoUp \<Rightarrow> True | DoStart \<Rightarrow> True | DoScale _ \<Rightarrow> True | _ \<Rightarrow> False))"
| "permitted_call dx op (CallStart i h) = (case op of DoUp \<Rightarrow> True | DoStart \<Rightarrow> True | DoScale _ \<Rightarrow> True | _ \<Rightarrow> False)"
| "permitted_call dx op (CallStop i t) =
     (t = dx_Timeout dx \<and> (case op of DoDown \<Rightarrow> True | DoDelete \<Rightarrow> True | DoScale _ \<Rightarrow> True | _ \<Rightarrow> False))"
| "permitted_call dx op (CallRestart i t) = (t = dx_Timeout dx \<and> op = DoRestart)"
| "permitted_call dx op (CallKill i s) = (s = dx_Signal dx \<and> op = DoKill)"
| "permitted_call dx op (CallRemove i force volumes) =
     (force \<and> \<not> volumes \<and> (case op of DoDelete \<Rightarrow> True | DoScale _ \<Rightarrow> True | _ \<Rightarrow> False))"
| "permitted_call dx op (CallPull img auth) =
     (case op of DoPull \<Rightarrow> True | DoCreate \<Rightarrow> True | DoUp \<Rightarrow> True | DoStart \<Rightarrow> True | DoScale _ \<Rightarrow> True | _ \<Rightarrow> False)"
| "permitted_call dx op (CallBuild tag dockerfile) =
     (case op of DoBuild \<Rightarrow> True | DoCreate \<Rightarrow> True | DoUp \<Rightarrow> True | DoScale _ \<Rightarrow> True | _ \<Rightarrow> False)"

definition run_keeps :: "('x docker_world \<Rightarrow> 'x docker_world \<Rightarrow> bool) \<Rightarrow> ('x, 'a) docker_run \<Rightarrow> bool" where
  "run_keeps R m \<longleftrightarrow> (\<forall>w r w'. m w r w' \<longrightarrow> R w w')"

lemma run_keeps_task [task_intro]: "prog_keeps (only_calls P) p \<Longrightarrow> run_keeps (only_calls P) (run_task p)"
  unfolding run_keeps_def run_task_def using keeps_exec [OF _ only_calls_refl only_calls_trans] by (metis snd_conv)

lemma run_keeps_bind [task_intro]:
  assumes "run_keeps (only_calls P) m" "\<And>a. run_keeps (only_calls P) (f a)"
  shows "run_keeps (only_calls P) (run_bind m f)"
  using assms unfolding run_keeps_def run_bind_def by (metis only_calls_trans transpD)

lemma run_keeps_parallel [task_intro]:
  "(\<And>p. p \<in> set ps \<Longrightarrow> prog_keeps (only_calls P) p) \<Longrightarrow> run_keeps (only_calls P) (InParallel ps)"
  unfolding run_keeps_def using keeps_parallel [OF only_calls_refl only_calls_trans] by blast

context call_policy begin

lemma run_keeps_name [task_intro]: "run_keeps (only_calls P) (Namer_Next dx i)"
proof -
  have look: "only_calls P w v" if "exec (GetContainerByName dx name) w = (q, v)" for name w q v
    using that keeps_exec [OF keeps_lookups(2) only_calls_refl only_calls_trans] by (metis snd_conv)
  have "next_name dx i w r w' \<Longrightarrow> only_calls P w w'" for w r w'
  proof (induction rule: next_name.induct)
    case (skip w i q v r w')
    with look show ?case by (blast intro: transpD [OF only_calls_trans])
  qed (use look in blast)+
  then show ?thesis
    using reflpD [OF only_calls_refl [of P]] by (auto simp: run_keeps_def Namer_Next_def)
qed

lemma run_keeps_each [task_intro]:
  "(\<And>c. prog_keeps (only_calls P) (action c)) \<Longrightarrow> run_keeps (only_calls P) (eachContainer dx action)"
  unfolding eachContainer_def by (auto intro!: task_intro)

lemma run_keeps_construct:
  assumes "\<And>c. prog_keeps (only_calls P) (construct_one dx create c)"
  shows "run_keeps (only_calls P) (constructContainers dx create number)"
proof -
  have "run_keeps (only_calls P) (construct_loop dx create n i result)" for n i result
    by (induction n arbitrary: i result) (auto intro!: task_intro assms split: prod.split)
  then show ?thesis unfolding constructContainers_def by (auto intro!: task_intro)
qed

end

context create_policy begin

lemma keeps_build:
  assumes "\<And>t d. P (CallBuild t d)"
  shows "prog_keeps (only_calls P) (service_build dx)"
  unfolding service_build_def DaemonBuilder_Build_def Let_def by (auto intro!: task_intro assms split: go.split)

lemma run_keeps_create:
  assumes "\<And>t d. P (CallBuild t d)"
  shows "run_keeps (only_calls P) (constructContainers dx True number)" "run_keeps (only_calls P) (Service_Create dx)"
proof -
  have "prog_keeps (only_calls P) (construct_one dx True c)" for c
    unfolding construct_one_def by (auto intro!: task_intro keeps_build assms split: option.split)
  then show c: "run_keeps (only_calls P) (constructContainers dx True number)" for number by (rule run_keeps_construct)
  show "run_keeps (only_calls P) (Service_Create dx)"
    unfolding Service_Create_def createOne_def by (auto intro!: task_intro c split: list.split)
qed

end

context start_policy begin

lemma run_keeps_up:
  assumes "create \<Longrightarrow> run_keeps (only_calls P) (Service_Create dx)"
  shows "run_keeps (only_calls P) (service_up dx imageName create)"
  unfolding service_up_def up_container_def by (auto intro!: task_intro assms)

end

text \<open>The policies of the operations.\<close>

interpretation policy: call_policy dx "permitted_call dx op" for dx op
  by unfold_locales simp

interpretation of_create: create_policy dx "permitted_call dx DoCreate" for dx
  by unfold_locales simp_all

interpretation of_up: start_policy dx "permitted_call dx DoUp" for dx
  by unfold_locales simp_all

interpretation of_start: start_policy dx "permitted_call dx DoStart" for dx
  by unfold_locales simp_all

interpretation of_scale: start_policy dx "permitted_call dx (DoScale scale)" for dx scale
  by unfold_locales simp_all

lemma pull_policy: "run_keeps (only_calls (permitted_call dx DoPull)) (Service_Pull dx)"
proof -
  have "prog_keeps (only_calls (permitted_call dx DoPull)) (construct_one dx False c)" for c
    by (simp add: construct_one_def keeps_Done)
  then show ?thesis
    unfolding Service_Pull_def Container_Pull_def container_pull_def Let_def
    by (auto intro!: task_intro policy.run_keeps_construct split: list.split prod.split go.split)
qed

lemma keeps_delete:
  assumes "\<And>i. P (CallInspect i)" "\<And>i. P (CallStop i (dx_Timeout dx))" "\<And>i. P (CallRemove i True False)" "\<And>f. P (CallList f)"
  shows "prog_keeps (only_calls P) (Container_Delete dx c)"
  unfolding Container_Delete_def inspect_def stop_container_def
  by (auto intro!: task_intro assms call_policy.keeps_withContainer call_policy.intro)

lemma keeps_stop:
  assumes "\<And>i. P (CallStop i (dx_Timeout dx))" "\<And>f. P (CallList f)"
  shows "prog_keeps (only_calls P) (Container_Down dx c)"
  unfolding Container_Down_def stop_container_def
  by (auto intro!: task_intro assms call_policy.keeps_withContainer call_policy.intro)

lemma run_keeps_op: "run_keeps (only_calls (permitted_call dx op)) (run_service_op dx op)"
proof (cases op)
  case DoBuild
  then show ?thesis
    by (auto simp: Service_Build_def service_build_def DaemonBuilder_Build_def Let_def intro!: task_intro split: go.split)
next
  case DoCreate
  then show ?thesis using of_create.run_keeps_create(2) [of dx] by simp
next
  case DoUp
  then show ?thesis
    using of_up.run_keeps_up [where create = True and dx = dx, OF of_up.run_keeps_create(2)] of_up.keeps_build [of dx]
    by (auto simp: Service_Up_def intro!: task_intro)
next
  case DoStart
  then show ?thesis using of_start.run_keeps_up [where create = False and dx = dx] by (simp add: Service_Start_def)
next
  case DoDown
  then show ?thesis
    by (auto simp: Service_Down_def intro!: policy.run_keeps_each keeps_stop)
next
  case DoRestart
  then show ?thesis
    by (auto simp: Service_Restart_def Container_Restart_def intro!: task_intro)
next
  case DoKill
  then show ?thesis
    by (auto simp: Service_Kill_def Container_Kill_def intro!: task_intro)
next
  case DoDelete
  then show ?thesis
    by (auto simp: Service_Delete_def intro!: policy.run_keeps_each keeps_delete)
next
  case (DoScale scale)
  then show ?thesis
    using of_scale.run_keeps_up [where create = False and dx = dx] of_scale.run_keeps_create(1) [of dx]
    by (auto simp: Service_Scale_def scale_container_def
        intro!: task_intro policy.run_keeps_each keeps_stop keeps_delete)
next
  case DoPull
  then show ?thesis using pull_policy by simp
qed

text \<open>Every operation of one task has a result, and so do tasks in parallel: only the namer may not return.\<close>

lemma each_returns:
  assumes "exec (collectContainers dx (dx_name dx)) w = (Ok cs, v)"
  shows "\<exists>r w'. eachContainer dx action w r w'"
  using parallel_ends [of "map action cs" v] assms unfolding eachContainer_def run_bind_def run_task_def by blast

section \<open>Scaling\<close>

lemma look_step: "prog_bind (look f) g = Step (\<lambda>w. (g (f w), w))"
  by (simp add: look_def prog_call_def)

lemma change_step: "prog_bind (change f) g = Step (\<lambda>w. (g (), f w))"
  by (simp add: change_def prog_call_def)

lemma parallel_at:
  assumes "i < length ps" "ps ! i = Step k" "InParallel (ps[i := fst (k w)]) (snd (k w)) r w'"
  shows "InParallel ps w r w'"
  using InParallel.step [OF par_step.intros [OF assms(1,2), of w] assms(3)] by simp

text \<open>Both goroutines read the counter before either writes it.\<close>

lemma scale_race:
  assumes "dw_count w = 0"
  shows "InParallel [scale_container dx 1 a, scale_container dx 1 b] w (Ok ()) (w\<lparr>dw_count := 1\<rparr>)"
  unfolding scale_container_def look_step change_step
  apply (rule parallel_at [of 0], simp, simp, simp)
  apply (rule parallel_at [of 1], simp, simp, simp)
  apply (rule parallel_at [of 0], simp, simp, simp)
  apply (rule parallel_at [of 1], simp, simp, simp)
  apply (rule parallel_at [of 0], simp, simp, simp add: assms)
  apply (rule parallel_at [of 1], simp, simp, simp add: assms)
  apply (rule InParallel.none, simp)
  done

lemma collect_keeps_count: "exec (collectContainers dx service) w = (q, v) \<Longrightarrow> dw_count v = dw_count w"
  by (auto simp: collectContainers_def GetContainersByFilter_def look_def docker_def act_bind_def Let_def
      split: go.splits prod.splits)

section \<open>Names and repetition\<close>

text \<open>A service that has a container is not given another.\<close>

lemma Service_Create_existing:
  "exec (collectContainers dx (dx_name dx)) w = (Ok (c # cs), v) \<Longrightarrow> Service_Create dx w r w' \<longleftrightarrow> r = Ok () \<and> w' = v"
  by (auto simp: Service_Create_def createOne_def constructContainers_def run_bind_def run_task_def)

text \<open>A number whose lookup failed is passed over, not tried again.\<close>

lemma failed_lookup_skips_name:
  assumes "exec (GetContainerByName dx (container_format (pr_Name (dw_project w)) (dx_name dx) i)) w = (Err e, v)"
    "exec (GetContainerByName dx (container_format (pr_Name (dw_project v)) (dx_name dx) (i + 1))) v = (Ok None, w')"
  shows "next_name dx i w (Ok (container_format (pr_Name (dw_project v)) (dx_name dx) (i + 1), i + 2)) w'"
proof (rule next_name.skip [OF assms(1)])
  show "next_name dx (i + 1) v (Ok (container_format (pr_Name (dw_project v)) (dx_name dx) (i + 1), i + 2)) w'"
    using next_name.free [OF refl assms(2)] by (simp add: add.assoc)
qed simp_all

section \<open>Properties\<close>


text \<open>
  C40: Scaling down races.  The goroutines of \<open>Scale\<close> share their counter without a lock.  With two containers, scaling to
  one may count one container only: then nothing is stopped or removed, and \<open>Scale\<close> returns what starting the two
  containers again returns.
\<close>

theorem Scale_may_remove_none:
  assumes "exec (collectContainers dx (dx_name dx)) (w\<lparr>dw_count := 0\<rparr>) = (Ok [a, b], v)"
    "service_up dx [] False (v\<lparr>dw_count := 1\<rparr>) r w'"
  shows "Service_Scale dx 1 w r w' \<and>
    (\<exists>calls. dw_log w' = dw_log w @ calls \<and>
       list_all (\<lambda>c. case c of CallStop _ _ \<Rightarrow> False | CallRemove _ _ _ \<Rightarrow> False | _ \<Rightarrow> True) calls)"
proof
  have "dw_count v = 0" using collect_keeps_count [OF assms(1)] by simp
  then have "eachContainer dx (scale_container dx 1) (w\<lparr>dw_count := 0\<rparr>) (Ok ()) (v\<lparr>dw_count := 1\<rparr>)"
    unfolding eachContainer_def run_bind_def run_task_def using assms(1) scale_race by fastforce
  then show "Service_Scale dx 1 w r w'"
    unfolding Service_Scale_def run_bind_def run_task_def change_def look_def using assms(2) by fastforce
  have "prog_keeps (only_calls (permitted_call dx DoStart)) (collectContainers dx (dx_name dx))"
    by (rule policy.keeps_lookups(3))
  from keeps_exec [OF this only_calls_refl only_calls_trans, of "w\<lparr>dw_count := 0\<rparr>"]
  have "only_calls (permitted_call dx DoStart) (w\<lparr>dw_count := 0\<rparr>) v" using assms(1) by simp
  moreover have "only_calls (permitted_call dx DoStart) (v\<lparr>dw_count := 1\<rparr>) w'"
    using of_start.run_keeps_up [where create = False and dx = dx] assms(2) by (simp add: run_keeps_def)
  ultimately have "only_calls (permitted_call dx DoStart) w w'"
    by (auto simp: only_calls_def)
  then have "only_calls (\<lambda>c. case c of CallStop _ _ \<Rightarrow> False | CallRemove _ _ _ \<Rightarrow> False | _ \<Rightarrow> True) w w'"
    by (rule only_calls_mono) (auto split: docker_call.split)
  then show "\<exists>calls. dw_log w' = dw_log w @ calls \<and>
      list_all (\<lambda>c. case c of CallStop _ _ \<Rightarrow> False | CallRemove _ _ _ \<Rightarrow> False | _ \<Rightarrow> True) calls"
    by (simp add: only_calls_def)
qed

text \<open>A daemon with two running containers of the service \<open>web\<close>, which answers every call.\<close>

definition sample_container :: "string \<Rightarrow> docker_container" where
  "sample_container name = \<lparr>dc_Id = name, dc_Names = [CHR ''/'' # name], dc_Command = ''sh'', dc_Status = ''Up'', dc_Ports = [],
     dc_Labels = [label_NAME \<mapsto> name]\<rparr>"

definition sample_host :: docker_host where
  "sample_host = \<lparr>dh_config = (case Convert ServiceConfig_zero of Ok (_, h) \<Rightarrow> h), dh_Links = []\<rparr>"

definition sample_docker :: "unit docker_client" where
  "sample_docker = \<lparr>dl_ListContainers = (\<lambda>f x. (Ok [sample_container ''p_web_1'', sample_container ''p_web_2''], x)),
     dl_InspectContainer = (\<lambda>i x. (Ok \<lparr>di_Running = True, di_HostConfig = sample_host, di_Labels = Map.empty, di_Ports = Map.empty\<rparr>, x)),
     dl_CreateContainer = (\<lambda>c n x. (Ok n, x)), dl_StartContainer = (\<lambda>i h x. (Ok (), x)),
     dl_StopContainer = (\<lambda>i t x. (Ok (), x)), dl_RestartContainer = (\<lambda>i t x. (Ok (), x)),
     dl_KillContainer = (\<lambda>i s x. (Ok (), x)), dl_RemoveContainer = (\<lambda>i f v x. (Ok (), x)),
     dl_PullImage = (\<lambda>i a x. (Ok (), x)), dl_BuildImage = (\<lambda>c t d x. (Ok (), x))\<rparr>"

definition sample_docker_pe :: project_env where
  "sample_docker_pe = \<lparr>pe_os = sample_os, pe_compose = sample_env, pe_order = (\<lambda>ns. ns), pe_fuel = 1, pe_envLookup = None\<rparr>"

definition sample_docker_env :: "unit docker_env" where
  "sample_docker_env = \<lparr>dx_name = ''web'', dx_client = sample_docker, dx_Timeout = 10, dx_Signal = ''SIGKILL'', dx_pe = sample_docker_pe,
     dx_Marshal = concat \<circ> map fst, dx_Unmarshal = (\<lambda>_. []), dx_toConfig = Ok, dx_toHost = (\<lambda>h. Ok \<lparr>dh_config = h, dh_Links = []\<rparr>),
     dx_auth = (\<lambda>_. Ok \<lparr>da_Username = [], da_Password = [], da_Email = []\<rparr>), dx_sha1 = id, dx_map_order = id,
     dx_tar = (\<lambda>n c. Ok []), dx_hasBuilder = True\<rparr>"

definition sample_docker_world :: "unit docker_world" where
  "sample_docker_world = \<lparr>dw_log = [], dw_daemon = (), dw_project = NewProject sample_context 0, dw_config = ServiceConfig_zero,
     dw_imageName = [], dw_count = 0\<rparr>"

lemma sample_collects: "\<exists>v. exec (collectContainers sample_docker_env ''web'') w = (Ok [''p_web_1'', ''p_web_2''], v)"
  by (simp add: collectContainers_def GetContainersByFilter_def look_def docker_def act_bind_def Let_def
      sample_docker_env_def sample_docker_def sample_container_def split: prod.split)

lemma sample_name [simp]: "dx_name sample_docker_env = ''web''"
  by (simp add: sample_docker_env_def)

lemma sample_each: "\<exists>r w'. eachContainer sample_docker_env action w r w'"
  using sample_collects [of w] each_returns [of sample_docker_env w] by fastforce


theorem Scale_may_remove_none_witness:
  "\<exists>r w'. Service_Scale sample_docker_env 1 sample_docker_world r w' \<and>
     list_all (\<lambda>c. case c of CallStop _ _ \<Rightarrow> False | CallRemove _ _ _ \<Rightarrow> False | _ \<Rightarrow> True) (dw_log w')"
proof -
  obtain v where collects: "exec (collectContainers sample_docker_env (dx_name sample_docker_env))
      (sample_docker_world\<lparr>dw_count := 0\<rparr>) = (Ok [''p_web_1'', ''p_web_2''], v)"
    using sample_collects by fastforce
  obtain u where u: "exec (collectContainers sample_docker_env ''web'') (v\<lparr>dw_count := 1\<rparr>) = (Ok [''p_web_1'', ''p_web_2''], u)"
    using sample_collects by blast
  obtain r w' where "eachContainer sample_docker_env (up_container sample_docker_env []) u r w'"
    using sample_each by blast
  with u have "service_up sample_docker_env [] False (v\<lparr>dw_count := 1\<rparr>) r w'"
    by (auto simp: service_up_def run_bind_def run_task_def)
  from Scale_may_remove_none [OF collects this] show ?thesis by (auto simp: sample_docker_world_def)
qed

end
