(* ===== verification/Rancher_Api.thy ===== *)
theory Rancher_Api
  imports Go_World Docker_Convert
begin

text \<open>
  The Rancher server as the services of \<open>rancher-compose/rancher\<close> see it: the resources, the typed calls of
  the generated API client, and a world that records the calls in the order they are made.  What the
  server answers is a parameter.
\<close>

section \<open>Resources\<close>

record Service =
  rsv_Id :: string
  rsv_Name :: string
  rsv_Type :: string
  rsv_State :: string
  rsv_Transitioning :: string
  rsv_Removed :: string
  rsv_Links :: "string \<rightharpoonup> string"
  rsv_Actions :: "string \<rightharpoonup> string"

text \<open>\<open>&Service{}\<close>, what the generated client returns beside an error.\<close>

definition Service_zero :: Service where
  "Service_zero = \<lparr>rsv_Id = [], rsv_Name = [], rsv_Type = [], rsv_State = [], rsv_Transitioning = [],
     rsv_Removed = [], rsv_Links = Map.empty, rsv_Actions = Map.empty\<rparr>"

record Stack =
  stk_Id :: string
  stk_Name :: string

text \<open>A container, or the instance an action on it returns.\<close>

record Instance =
  ins_Id :: string
  ins_Name :: string
  ins_Uuid :: string
  ins_State :: string
  ins_Transitioning :: string
  ins_Type :: string
  ins_Links :: "string \<rightharpoonup> string"
  ins_Actions :: "string \<rightharpoonup> string"

record DockerBuild =
  db_Remote :: string
  db_Context :: string
  db_Dockerfile :: string

text \<open>A health check is carried through as it is: its JSON text.\<close>

type_synonym HealthCheck = string

text \<open>The fields of a launch config that this code writes; the others, as the server sent them.\<close>

record LaunchConfig =
  lc_Transformed :: string
  lc_ImageUuid :: string
  lc_NetworkMode :: string
  lc_NetworkLaunchConfig :: string
  lc_DataVolumesFromLaunchConfigs :: "string list"
  lc_Build :: "DockerBuild option"
  lc_HealthCheck :: "HealthCheck option"
  lc_Ports :: "string list"
  lc_Expose :: "string list"

text \<open>Values of the metadata map: what YAML decodes to, with Go's two kinds of map.\<close>

datatype metadata = MScalar string | MSeq "metadata list" | MIfaceMap "(string \<times> metadata) list"
  | MStringMap "(string \<times> metadata) list"

record NormalService =
  ns_Name :: string
  ns_Metadata :: "(string \<times> metadata) list option"
  ns_LaunchConfig :: LaunchConfig
  ns_SecondaryLaunchConfigs :: "(string \<times> LaunchConfig) list"
  ns_Scale :: int
  ns_EnvironmentId :: string
  ns_SelectorContainer :: string
  ns_SelectorLink :: string

record LoadBalancerService =
  lb_Name :: string
  lb_LoadBalancerConfig :: "string option"
  lb_LaunchConfig :: LaunchConfig
  lb_Scale :: int
  lb_EnvironmentId :: string
  lb_SelectorContainer :: string
  lb_SelectorLink :: string
  lb_DefaultCertificateId :: string
  lb_CertificateIds :: "string list"

record ExternalService =
  es_Name :: string
  es_ExternalIpAddresses :: "string list"
  es_Hostname :: string
  es_EnvironmentId :: string
  es_HealthCheck :: "HealthCheck option"

record DnsService =
  dn_Name :: string
  dn_EnvironmentId :: string
  dn_SelectorContainer :: string
  dn_SelectorLink :: string

datatype service_link = ServiceLink string string | LoadBalancerServiceLink "string list" string

text \<open>The container posted to the transform script: its name and the converted configuration.\<close>

record ContainerInspect =
  ci_Name :: string
  ci_Config :: Config
  ci_HostConfig :: HostConfig

record PullTask =
  pt_Id :: string
  pt_Type :: string
  pt_Links :: "string \<rightharpoonup> string"
  pt_Actions :: "string \<rightharpoonup> string"
  pt_Image :: string
  pt_Mode :: string
  pt_Labels :: "(string \<times> string) list"
  pt_Transitioning :: string
  pt_TransitioningMessage :: string
  pt_Status :: "(string \<times> string option) list"

section \<open>Calls\<close>

datatype api_call =
    ListServices string string | ListStacks "string option" | CreateStack string
  | CreateExternalService ExternalService | CreateDnsService DnsService
  | CreateLoadBalancerService LoadBalancerService | CreateNormalService NormalService
  | SetServiceLinks string "service_link list" | Activate string | Deactivate string
  | DeleteService string | ScaleService string int | ReloadService string
  | PostTransform string ContainerInspect | GetInstances string | RestartContainer string | ReloadInstance string
  | ListCertificates string | GetSetting string | CreatePullTask PullTask | ReloadPullTask

record 'x rancher_world =
  rw_log :: "api_call list"
  rw_server :: 'x

type_synonym ('x, 'a) api_act = "('x rancher_world, 'a) act"
type_synonym ('x, 'a) api_proc = "('x rancher_world, 'a) proc"

record 'x rancher_server =
  ap_ListServices :: "string \<Rightarrow> string \<Rightarrow> ('x, Service list) act"
  ap_ListStacks :: "string option \<Rightarrow> ('x, Stack list) act"
  ap_CreateStack :: "string \<Rightarrow> ('x, Stack) act"
  ap_CreateExternalService :: "ExternalService \<Rightarrow> ('x, unit) act"
  ap_CreateDnsService :: "DnsService \<Rightarrow> ('x, unit) act"
  ap_CreateLoadBalancerService :: "LoadBalancerService \<Rightarrow> ('x, unit) act"
  ap_CreateNormalService :: "NormalService \<Rightarrow> ('x, Service) act"
  ap_SetServiceLinks :: "Service \<Rightarrow> service_link list \<Rightarrow> ('x, unit) act"
  ap_Activate :: "Service \<Rightarrow> ('x, Service) act"
  ap_Deactivate :: "Service \<Rightarrow> ('x, Service) act"
  ap_DeleteService :: "Service \<Rightarrow> ('x, unit) act"
  ap_ScaleService :: "Service \<Rightarrow> int \<Rightarrow> ('x, Service) act"
  ap_ReloadService :: "Service \<Rightarrow> ('x, Service) act"
  ap_PostTransform :: "string \<Rightarrow> ContainerInspect \<Rightarrow> ('x, LaunchConfig) act"
  ap_GetInstances :: "Service \<Rightarrow> ('x, Instance list) act"
  ap_RestartContainer :: "Instance \<Rightarrow> ('x, Instance) act"
  ap_ReloadInstance :: "Instance \<Rightarrow> ('x, Instance) act"
  ap_ListCertificates :: "string \<Rightarrow> ('x, string list) act"
  ap_GetSetting :: "string \<Rightarrow> ('x, string) act"
  ap_CreatePullTask :: "PullTask \<Rightarrow> ('x, PullTask) act"
  ap_ReloadPullTask :: "PullTask \<Rightarrow> ('x, PullTask) act"

definition api :: "api_call \<Rightarrow> ('x, 'a) act \<Rightarrow> ('x, 'a) api_act" where
  "api call m w = (case m (rw_server w) of
     (r, x) \<Rightarrow> (r, \<lparr>rw_log = rw_log w @ [call], rw_server = x\<rparr>))"

lemma api_log [simp]: "rw_log (snd (api call m w)) = rw_log w @ [call]"
  by (simp add: api_def split: prod.split)

lemma api_eq: "api call m w = (r, w') \<longleftrightarrow> m (rw_server w) = (r, rw_server w') \<and> rw_log w' = rw_log w @ [call]"
  by (auto simp: api_def split: prod.splits)

section \<open>Counting calls\<close>

text \<open>
  The calls of a kind that a run added to the log.  Only finding, creating and deleting change which services
  there are; \<open>calls_only\<close> says that a call adds none of the kind.
\<close>

definition calls_of :: "(api_call \<Rightarrow> bool) \<Rightarrow> 'x rancher_world \<Rightarrow> api_call list" where
  "calls_of P w = filter P (rw_log w)"

definition same_calls :: "(api_call \<Rightarrow> bool) \<Rightarrow> 'x rancher_world \<Rightarrow> 'x rancher_world \<Rightarrow> bool" where
  "same_calls P w w' \<longleftrightarrow> calls_of P w' = calls_of P w"

definition adds_call :: "(api_call \<Rightarrow> bool) \<Rightarrow> 'x rancher_world \<Rightarrow> 'x rancher_world \<Rightarrow> bool" where
  "adds_call P w w' \<longleftrightarrow> (\<exists>c. P c \<and> calls_of P w' = calls_of P w @ [c])"

lemma same_calls_refl [keeps_intro, simp]: "reflp (same_calls P)"
  by (simp add: reflp_def same_calls_def)

lemma same_calls_trans [keeps_intro, simp]: "transp (same_calls P)"
  by (simp add: transp_def same_calls_def)

lemma keeps_api [keeps_intro]: "\<not> P call \<Longrightarrow> keeps (same_calls P) (api call m)"
  by (simp add: keeps_def same_calls_def calls_of_def)

lemma api_adds: "P call \<Longrightarrow> api call m w = (r, w') \<Longrightarrow> adds_call P w w'"
  using api_log [of call m w] by (auto simp: adds_call_def calls_of_def)

lemma same_adds: "same_calls P u v \<Longrightarrow> adds_call P v w \<Longrightarrow> adds_call P u w"
  by (auto simp: same_calls_def adds_call_def)

lemma adds_same: "adds_call P u v \<Longrightarrow> same_calls P v w \<Longrightarrow> adds_call P u w"
  by (auto simp: same_calls_def adds_call_def)

lemma adds_not_same: "adds_call P u v \<Longrightarrow> \<not> same_calls P u v"
  by (auto simp: same_calls_def adds_call_def)

end
