(* ===== verification/Rancher_Service.thy ===== *)
theory Rancher_Service
  imports Rancher_Api Project_Core
begin

text \<open>
  The services of a stack, \<open>rancher-compose/rancher\<close>: the configuration helpers, sidekicks, and every
  operation of \<open>RancherService\<close> as calls to the server of \<open>Rancher_Api\<close>.
\<close>

section \<open>Configuration\<close>

record RancherConfig =
  rc_Scale :: int
  rc_LoadBalancerConfig :: "string option"
  rc_ExternalIps :: "string list"
  rc_Hostname :: string
  rc_HealthCheck :: "HealthCheck option"
  rc_DefaultCert :: string
  rc_Certs :: "string list"
  rc_Metadata :: "(string \<times> metadata) list"

definition RancherConfig_zero :: RancherConfig where
  "RancherConfig_zero = \<lparr>rc_Scale = 0, rc_LoadBalancerConfig = None, rc_ExternalIps = [], rc_Hostname = [],
     rc_HealthCheck = None, rc_DefaultCert = [], rc_Certs = [], rc_Metadata = []\<rparr>"

text \<open>
  \<open>util.go\<close>: maps keyed by interfaces become maps keyed by strings, all the way down (a key is its \<open>%v\<close>
  text already); \<open>listWalk\<close> and \<open>mapWalk\<close> call each other on the nested values.
\<close>

fun nested_walk :: "metadata \<Rightarrow> metadata" where
  "nested_walk (MIfaceMap kvs) = MStringMap (fold (\<lambda>(k, v) m. alist_set k v m) (map (\<lambda>(k, v). (k, nested_walk v)) kvs) [])"
| "nested_walk (MSeq vs) = MSeq (map nested_walk vs)"
| "nested_walk (MStringMap kvs) = MStringMap kvs"
| "nested_walk (MScalar s) = MScalar s"

definition listWalk :: "metadata list \<Rightarrow> metadata list" where
  "listWalk val = map nested_walk val"

definition mapWalk :: "(string \<times> metadata) list \<Rightarrow> (string \<times> metadata) list" where
  "mapWalk val = fold (\<lambda>(k, v) m. alist_set k v m) (map (\<lambda>(k, v). (k, nested_walk v)) val) []"

definition NestedMapsToMapInterface :: "(string \<times> metadata) list \<Rightarrow> (string \<times> metadata) list" where
  "NestedMapsToMapInterface data = map (\<lambda>(k, v). (k, nested_walk v)) data"

definition rancher_Contains :: "string list \<Rightarrow> string \<Rightarrow> bool" where
  "rancher_Contains list item \<longleftrightarrow> list_ex (\<lambda>v. v = item) list"

definition ToMapInterface :: "(string \<times> string) list \<Rightarrow> (string \<times> string) list" where
  "ToMapInterface data = fold (\<lambda>(k, v) ret. alist_set k v ret) data []"

definition MapUnion :: "(string \<times> string) list \<Rightarrow> (string \<times> string) list \<Rightarrow> (string \<times> string) list" where
  "MapUnion left right =
     fold (\<lambda>(k, v) ret. alist_set k v ret) right (fold (\<lambda>(k, v) ret. alist_set k v ret) left [])"

definition TrimSplit :: "string \<Rightarrow> char \<Rightarrow> string list" where
  "TrimSplit str sep = map trim_space (split_on sep (trim_space str))"

section \<open>Sidekicks\<close>

record SidekickInfo =
  si_primariesToSidekicks :: "string \<rightharpoonup> string list"
  si_primaries :: "string set"
  si_sidekickToPrimaries :: "string \<rightharpoonup> string list"

definition sidekick_parts :: "ServiceConfig \<Rightarrow> string list" where
  "sidekick_parts config =
     concat (map (\<lambda>(key, value). if key = ''io.rancher.sidekicks'' then TrimSplit value (CHR '','') else [])
       (SliceorMap_MapParts (Some (sc_Labels config))))"

definition add_sidekick :: "string \<Rightarrow> string \<Rightarrow> SidekickInfo \<Rightarrow> SidekickInfo" where
  "add_sidekick name part info =
     info\<lparr>si_primaries := insert name (si_primaries info),
          si_sidekickToPrimaries := (si_sidekickToPrimaries info)(part \<mapsto>
            (case si_sidekickToPrimaries info part of None \<Rightarrow> [] | Some l \<Rightarrow> l) @ [name])\<rparr>"

definition add_primary :: "string \<times> ServiceConfig \<Rightarrow> SidekickInfo \<Rightarrow> SidekickInfo" where
  "add_primary = (\<lambda>(name, config) info.
     (let info = fold (add_sidekick name) (sidekick_parts config) info
      in info\<lparr>si_primariesToSidekicks := (si_primariesToSidekicks info)(name \<mapsto> sidekick_parts config)\<rparr>))"

definition NewSidekickInfo :: "(string \<times> ServiceConfig) list \<Rightarrow> SidekickInfo" where
  "NewSidekickInfo configs =
     fold add_primary configs
       \<lparr>si_primariesToSidekicks = Map.empty, si_primaries = {}, si_sidekickToPrimaries = Map.empty\<rparr>"

section \<open>The context of the services\<close>

record Link =
  lk_ServiceName :: string
  lk_Alias :: string

text \<open>
  \<open>rx_Upload\<close> is the uploader of build archives (nil in the executor),
  \<open>rx_SchemasLink\<close> the self link of the schemas, \<open>rx_NowMillis\<close> the clock, and \<open>rx_order\<close> the order in
  which Go iterates the map of links.
\<close>

record 'x rancher_env =
  rx_ProjectName :: string
  rx_Environment :: Stack
  rx_RancherConfig :: "string \<rightharpoonup> RancherConfig"
  rx_Configs :: "string \<rightharpoonup> ServiceConfig"
  rx_SidekickInfo :: SidekickInfo
  rx_SchemasLink :: string
  rx_Upload :: "(string \<Rightarrow> (string \<times> string) go) option"
  rx_PullCached :: bool
  rx_NowMillis :: int
  rx_server :: "'x rancher_server"
  rx_order :: "(Link \<times> string) list \<Rightarrow> (Link \<times> string) list"

record RancherService =
  r_name :: string
  r_serviceConfig :: ServiceConfig

definition NewService :: "string \<Rightarrow> ServiceConfig \<Rightarrow> RancherService" where
  "NewService name config = \<lparr>r_name = name, r_serviceConfig = config\<rparr>"

datatype serviceType = rancherType | lbServiceType | dnsServiceType | externalServiceType

definition LB_IMAGE :: string where "LB_IMAGE = ''rancher/load-balancer-service''"
definition DNS_IMAGE :: string where "DNS_IMAGE = ''rancher/dns-service''"

definition service_config_of :: "'x rancher_env \<Rightarrow> string \<Rightarrow> RancherConfig" where
  "service_config_of rx name = (case rx_RancherConfig rx name of None \<Rightarrow> RancherConfig_zero | Some c \<Rightarrow> c)"

definition serviceType :: "'x rancher_env \<Rightarrow> RancherService \<Rightarrow> serviceType" where
  "serviceType rx r =
     (let rancherConfig = service_config_of rx (r_name r)
      in if rc_ExternalIps rancherConfig \<noteq> [] \<or> rc_Hostname rancherConfig \<noteq> [] then externalServiceType
         else if sc_Image (r_serviceConfig r) = LB_IMAGE then lbServiceType
         else if sc_Image (r_serviceConfig r) = DNS_IMAGE then dnsServiceType
         else rancherType)"

definition getMetadata :: "'x rancher_env \<Rightarrow> RancherService \<Rightarrow> (string \<times> metadata) list option" where
  "getMetadata rx r = map_option (\<lambda>c. NestedMapsToMapInterface (rc_Metadata c)) (rx_RancherConfig rx (r_name r))"

definition getHealthCheck :: "'x rancher_env \<Rightarrow> RancherService \<Rightarrow> HealthCheck option" where
  "getHealthCheck rx r = Option.bind (rx_RancherConfig rx (r_name r)) rc_HealthCheck"

definition getConfiguredScale :: "'x rancher_env \<Rightarrow> RancherService \<Rightarrow> int" where
  "getConfiguredScale rx r = (case rx_RancherConfig rx (r_name r) of
     Some config \<Rightarrow> if rc_Scale config > 0 then rc_Scale config else 1
   | None \<Rightarrow> 1)"

definition label_of :: "ServiceConfig \<Rightarrow> string \<Rightarrow> string" where
  "label_of config label =
     (case map_of (SliceorMap_MapParts (Some (sc_Labels config))) label of None \<Rightarrow> [] | Some v \<Rightarrow> v)"

definition getSelectorContainer :: "RancherService \<Rightarrow> string" where
  "getSelectorContainer r = label_of (r_serviceConfig r) ''io.rancher.service.selector.container''"

definition getSelectorLink :: "RancherService \<Rightarrow> string" where
  "getSelectorLink r = label_of (r_serviceConfig r) ''io.rancher.service.selector.link''"

section \<open>Finding services and links\<close>

definition resolveServiceAndEnvironmentId :: "'x rancher_env \<Rightarrow> string \<Rightarrow> ('x, string \<times> string) api_act" where
  "resolveServiceAndEnvironmentId rx name =
     (let parts = split2 (CHR ''/'') name
      in if length parts = 1 then act_return (name, stk_Id (rx_Environment rx))
         else act_bind (api (ListStacks (Some (parts ! 0))) (ap_ListStacks (rx_server rx) (Some (parts ! 0)))) (\<lambda>envs.
           case envs of
             [] \<Rightarrow> act_fail (''Failed to find stack: '' @ parts ! 0)
           | env # _ \<Rightarrow> act_return (parts ! 1, stk_Id env)))"

definition findExisting :: "'x rancher_env \<Rightarrow> string \<Rightarrow> ('x, Service option) api_act" where
  "findExisting rx name =
     act_bind (resolveServiceAndEnvironmentId rx name) (\<lambda>(name, environmentId).
     act_bind (api (ListServices environmentId name) (ap_ListServices (rx_server rx) environmentId name)) (\<lambda>services.
       act_return (case services of [] \<Rightarrow> None | s # _ \<Rightarrow> Some s)))"

definition link_of :: "string \<Rightarrow> Link" where
  "link_of link = (let parts = split2 (CHR '':'') link
     in \<lparr>lk_ServiceName = trim_space (parts ! 0),
         lk_Alias = trim_space (if length parts = 2 then parts ! 1 else parts ! 0)\<rparr>)"

fun collect_links :: "'x rancher_env \<Rightarrow> string list \<Rightarrow> (Link \<times> string) list \<Rightarrow> ('x, (Link \<times> string) list) api_act" where
  "collect_links rx [] result = act_return result"
| "collect_links rx (link # links) result =
     act_bind (findExisting rx (lk_ServiceName (link_of link))) (\<lambda>linkedService.
       collect_links rx links (case linkedService of
           None \<Rightarrow> result
         | Some s \<Rightarrow> alist_set (link_of link) (rsv_Id s) result))"

definition getLinks :: "'x rancher_env \<Rightarrow> RancherService \<Rightarrow> ('x, (Link \<times> string) list) api_act" where
  "getLinks rx r =
     act_bind (collect_links rx
         (MaporColonSlice_Slice (sc_Links (r_serviceConfig r)) @ sc_ExternalLinks (r_serviceConfig r)) [])
       (\<lambda>links. act_return (rx_order rx links))"

definition getLbLinkPorts :: "RancherService \<Rightarrow> string \<Rightarrow> string list" where
  "getLbLinkPorts r name =
     (let v = label_of (r_serviceConfig r) (''io.rancher.loadbalancer.target.'' @ name)
      in if v = [] then [] else TrimSplit v (CHR '',''))"

definition getLbLinks :: "'x rancher_env \<Rightarrow> RancherService \<Rightarrow> ('x, service_link list) api_act" where
  "getLbLinks rx r = act_bind (getLinks rx r) (\<lambda>links.
     act_return (map (\<lambda>(link, i). LoadBalancerServiceLink (getLbLinkPorts r (lk_ServiceName link)) i) links))"

definition getServiceLinks :: "'x rancher_env \<Rightarrow> RancherService \<Rightarrow> ('x, service_link list) api_act" where
  "getServiceLinks rx r = act_bind (getLinks rx r) (\<lambda>links.
     act_return (map (\<lambda>(link, i). ServiceLink (lk_Alias link) i) links))"

text \<open>A nil service is dereferenced.\<close>

definition setupLinks :: "'x rancher_env \<Rightarrow> RancherService \<Rightarrow> Service option \<Rightarrow> ('x, unit) api_act" where
  "setupLinks rx r service = (case service of
     None \<Rightarrow> act_lift Panic
   | Some service \<Rightarrow>
       act_bind (if rsv_Type service = ''loadBalancerService'' then getLbLinks rx r else getServiceLinks rx r)
         (\<lambda>links. api (SetServiceLinks (rsv_Id service) links) (ap_SetServiceLinks (rx_server rx) service links)))"

section \<open>Waiting\<close>

text \<open>
  \<open>Wait\<close> reloads the service, in place, until it is no longer in transition: the result is the service as
  last reloaded.  It may poll for ever.
\<close>

partial_function (option) Wait :: "'x rancher_env \<Rightarrow> Service \<Rightarrow> 'x rancher_world \<Rightarrow> (Service go \<times> 'x rancher_world) option" where
  "Wait rx service w =
     (if rsv_Transitioning service \<noteq> ''yes'' then Some (Ok service, w)
      else (case api (ReloadService (rsv_Id service)) (ap_ReloadService (rx_server rx) service) w of
          (Ok service, w) \<Rightarrow> Wait rx service w
        | (Err e, w) \<Rightarrow> Some (Err e, w)
        | (Panic, w) \<Rightarrow> Some (Panic, w)))"

partial_function (option) waitInstance :: "'x rancher_env \<Rightarrow> Instance \<Rightarrow> 'x rancher_world \<Rightarrow> (Instance go \<times> 'x rancher_world) option" where
  "waitInstance rx inst w =
     (if ins_Transitioning inst \<noteq> ''yes'' then Some (Ok inst, w)
      else (case api (ReloadInstance (ins_Id inst)) (ap_ReloadInstance (rx_server rx) inst) w of
          (Ok inst, w) \<Rightarrow> waitInstance rx inst w
        | (Err e, w) \<Rightarrow> Some (Ok inst, w)
        | (Panic, w) \<Rightarrow> Some (Panic, w)))"

text \<open>
  \<open>Wait\<close> on the result of a call whose error was overwritten: beside an error the client returns the zero
  service, which is not in transition.
\<close>

definition wait_result :: "'x rancher_env \<Rightarrow> ('x, Service) api_act \<Rightarrow> ('x, Service) api_proc" where
  "wait_result rx m = proc_bind (proc_act (act_try m)) (\<lambda>r.
     Wait rx (case r of Ok service \<Rightarrow> service | _ \<Rightarrow> Service_zero))"

section \<open>Launch configurations\<close>

definition setupNetworking :: "string \<Rightarrow> LaunchConfig \<Rightarrow> LaunchConfig" where
  "setupNetworking netMode launchConfig =
     (if netMode = [] then launchConfig\<lparr>lc_NetworkMode := ''managed''\<rparr>
      else if IpcMode_IsContainer netMode then
        launchConfig\<lparr>lc_NetworkMode := ''container'', lc_NetworkLaunchConfig := trim_prefix netMode ''container:''\<rparr>
      else launchConfig\<lparr>lc_NetworkMode := netMode\<rparr>)"

definition setupVolumesFrom :: "string list \<Rightarrow> LaunchConfig \<Rightarrow> LaunchConfig" where
  "setupVolumesFrom volumesFrom launchConfig = launchConfig\<lparr>lc_DataVolumesFromLaunchConfigs := volumesFrom\<rparr>"

text \<open>\<open>Upload\<close> of \<open>build.go\<close>; packing the archive and storing it are the uploader's.\<close>

definition Upload :: "'x rancher_env \<Rightarrow> string \<Rightarrow> (string \<times> string) go" where
  "Upload rx name = (case rx_Upload rx of
     None \<Rightarrow> Err ''Build not supported''
   | Some upload \<Rightarrow> upload name)"

definition needBuild :: "ServiceConfig \<Rightarrow> bool" where
  "needBuild serviceConfig \<longleftrightarrow> \<not> list_ex (\<lambda>remote. has_prefix (sc_Build serviceConfig) remote) ValidRemotes"

text \<open>
  \<open>setupBuild\<close> also writes the uploaded build and image back to the service's configuration: the second
  component.
\<close>

definition setupBuild :: "'x rancher_env \<Rightarrow> RancherService \<Rightarrow> LaunchConfig \<Rightarrow> ServiceConfig \<Rightarrow>
    (LaunchConfig \<times> ServiceConfig) go" where
  "setupBuild rx r result serviceConfig =
     (if sc_Build serviceConfig = [] then Ok (result, serviceConfig)
      else (let result = result\<lparr>lc_Build := Some \<lparr>db_Remote = sc_Build serviceConfig, db_Context = [],
                  db_Dockerfile = sc_Dockerfile serviceConfig\<rparr>\<rparr>
        in if needBuild serviceConfig then
             go_bind (Upload rx (r_name r)) (\<lambda>(image, url).
               Ok (result\<lparr>lc_Build := Some \<lparr>db_Remote = [], db_Context = url, db_Dockerfile = sc_Dockerfile serviceConfig\<rparr>,
                     lc_ImageUuid := ''docker:'' @ image\<rparr>,
                   serviceConfig\<lparr>sc_Build := url,
                     sc_Image := (if sc_Image serviceConfig = [] then image else sc_Image serviceConfig)\<rparr>))
           else if lc_ImageUuid result = [] then
             Ok (result\<lparr>lc_ImageUuid := ''docker:'' @ rx_ProjectName rx @ ''_'' @ r_name r @ ''_'' @ show_int (rx_NowMillis rx)\<rparr>,
               serviceConfig)
           else Ok (result, serviceConfig)))"

text \<open>\<open>strings.SplitN(s, sep, 2)[0]\<close>.\<close>

fun before_text :: "string \<Rightarrow> string \<Rightarrow> string" where
  "before_text sep [] = []"
| "before_text sep (c # cs) = (if has_prefix (c # cs) sep then [] else c # before_text sep cs)"

definition createLaunchConfig :: "'x rancher_env \<Rightarrow> RancherService \<Rightarrow> ServiceConfig \<Rightarrow>
    ('x, LaunchConfig \<times> ServiceConfig) api_act" where
  "createLaunchConfig rx r serviceConfig =
     (let schemasUrl = before_text ''/schemas'' (rx_SchemasLink rx);
          scriptsUrl = schemasUrl @ ''/scripts/transform''
      in act_bind (act_lift (Convert serviceConfig)) (\<lambda>(config, hostConfig).
         (let dockerContainer = \<lparr>ci_Name = CHR ''/'' # (if sc_Name serviceConfig \<noteq> [] then sc_Name serviceConfig else r_name r),
                ci_Config = config, ci_HostConfig = hostConfig\<lparr>hc_NetworkMode := []\<rparr>\<rparr>
          in act_bind (api (PostTransform scriptsUrl dockerContainer) (ap_PostTransform (rx_server rx) scriptsUrl dockerContainer))
            (\<lambda>result.
              (let result = result\<lparr>lc_HealthCheck := getHealthCheck rx r\<rparr>;
                   result = setupNetworking (sc_Net serviceConfig) result;
                   result = setupVolumesFrom (sc_VolumesFrom serviceConfig) result
               in act_lift (setupBuild rx r result serviceConfig))))))"

section \<open>Creating services\<close>

definition createExternalService :: "'x rancher_env \<Rightarrow> RancherService \<Rightarrow> ('x, Service option) api_act" where
  "createExternalService rx r =
     (let config = service_config_of rx (r_name r);
          opts = \<lparr>es_Name = r_name r, es_ExternalIpAddresses = rc_ExternalIps config, es_Hostname = rc_Hostname config,
            es_EnvironmentId = stk_Id (rx_Environment rx), es_HealthCheck = getHealthCheck rx r\<rparr>
      in act_bind (api (CreateExternalService opts) (ap_CreateExternalService (rx_server rx) opts)) (\<lambda>_.
           findExisting rx (r_name r)))"

text \<open>
  The error of setting the links is overwritten by nil.  The action is taken on the service found, which is
  nil when the listing does not have it yet.
\<close>

definition createDnsService :: "'x rancher_env \<Rightarrow> RancherService \<Rightarrow> ('x, Service option) api_act" where
  "createDnsService rx r =
     (let opts = \<lparr>dn_Name = r_name r, dn_EnvironmentId = stk_Id (rx_Environment rx),
            dn_SelectorContainer = getSelectorContainer r, dn_SelectorLink = getSelectorLink r\<rparr>
      in act_bind (api (CreateDnsService opts) (ap_CreateDnsService (rx_server rx) opts)) (\<lambda>_.
         act_bind (getServiceLinks rx r) (\<lambda>links.
         act_bind (findExisting rx (r_name r)) (\<lambda>service.
           if links = [] then act_return service
           else (case service of
               None \<Rightarrow> act_lift Panic
             | Some s \<Rightarrow> act_bind
                 (act_ignore (api (SetServiceLinks (rsv_Id s) links) (ap_SetServiceLinks (rx_server rx) s links)))
                 (\<lambda>_. act_return service))))))"

definition findCertByName :: "'x rancher_env \<Rightarrow> string \<Rightarrow> ('x, string) api_act" where
  "findCertByName rx name =
     act_bind (api (ListCertificates name) (ap_ListCertificates (rx_server rx) name)) (\<lambda>certs. case certs of
       [] \<Rightarrow> act_fail (''Failed to find certificate '' @ name)
     | cert # _ \<Rightarrow> act_return cert)"

definition populateCerts :: "'x rancher_env \<Rightarrow> LoadBalancerService \<Rightarrow> RancherConfig \<Rightarrow> ('x, LoadBalancerService) api_act" where
  "populateCerts rx lbService rancherConfig =
     act_bind (if rc_DefaultCert rancherConfig \<noteq> []
         then act_bind (findCertByName rx (rc_DefaultCert rancherConfig)) (\<lambda>certId.
           act_return (lbService\<lparr>lb_DefaultCertificateId := certId\<rparr>))
         else act_return lbService)
       (\<lambda>lbService. act_bind (act_map (findCertByName rx) (rc_Certs rancherConfig)) (\<lambda>ids.
         act_return (lbService\<lparr>lb_CertificateIds := ids\<rparr>)))"

definition createLbService :: "'x rancher_env \<Rightarrow> RancherService \<Rightarrow> ('x, Service option) api_act" where
  "createLbService rx r =
     (let lbConfig = Option.bind (rx_RancherConfig rx (r_name r)) rc_LoadBalancerConfig;
          config = service_config_of rx (r_name r)
      in act_bind (createLaunchConfig rx r (r_serviceConfig r)) (\<lambda>(launchConfig, serviceConfig).
         (let launchConfig = launchConfig\<lparr>lc_ImageUuid := [], lc_Ports := sc_Ports serviceConfig,
                lc_Expose := sc_Expose serviceConfig\<rparr>;
              lbServiceOpts = \<lparr>lb_Name = r_name r, lb_LoadBalancerConfig = lbConfig, lb_LaunchConfig = launchConfig,
                lb_Scale = getConfiguredScale rx r, lb_EnvironmentId = stk_Id (rx_Environment rx),
                lb_SelectorContainer = getSelectorContainer r, lb_SelectorLink = getSelectorLink r,
                lb_DefaultCertificateId = [], lb_CertificateIds = []\<rparr>
          in act_bind (populateCerts rx lbServiceOpts config) (\<lambda>opts.
             act_bind (api (CreateLoadBalancerService opts) (ap_CreateLoadBalancerService (rx_server rx) opts)) (\<lambda>_.
               findExisting rx (r_name r))))))"

text \<open>The launch configs of the sidekicks; each carries its service's name.\<close>

fun secondary_configs :: "'x rancher_env \<Rightarrow> RancherService \<Rightarrow> string list \<Rightarrow> ('x, (string \<times> LaunchConfig) list) api_act" where
  "secondary_configs rx r [] = act_return []"
| "secondary_configs rx r (secondaryName # rest) = (case rx_Configs rx secondaryName of
     None \<Rightarrow> act_fail (''Failed to find sidekick: '' @ secondaryName)
   | Some serviceConfig \<Rightarrow>
       act_bind (createLaunchConfig rx r serviceConfig) (\<lambda>(launchConfig, _).
       act_bind (secondary_configs rx r rest) (\<lambda>configs.
         act_return ((secondaryName, launchConfig) # configs))))"

definition createNormalService :: "'x rancher_env \<Rightarrow> RancherService \<Rightarrow> ('x, Service option) api_act" where
  "createNormalService rx r =
     act_bind (createLaunchConfig rx r (r_serviceConfig r)) (\<lambda>(launchConfig, serviceConfig).
     act_bind (secondary_configs rx r
         (case si_primariesToSidekicks (rx_SidekickInfo rx) (r_name r) of None \<Rightarrow> [] | Some names \<Rightarrow> names))
       (\<lambda>secondaryLaunchConfigs.
     (let opts = \<lparr>ns_Name = r_name r, ns_Metadata = getMetadata rx r, ns_LaunchConfig = launchConfig,
            ns_SecondaryLaunchConfigs = secondaryLaunchConfigs, ns_Scale = getConfiguredScale rx r,
            ns_EnvironmentId = stk_Id (rx_Environment rx), ns_SelectorContainer = getSelectorContainer r,
            ns_SelectorLink = getSelectorLink r\<rparr>
      in act_bind (api (CreateNormalService opts) (ap_CreateNormalService (rx_server rx) opts)) (\<lambda>service.
           act_return (Some service)))))"

definition create_by_type :: "'x rancher_env \<Rightarrow> RancherService \<Rightarrow> ('x, Service option) api_act" where
  "create_by_type rx r = (case serviceType rx r of
     externalServiceType \<Rightarrow> createExternalService rx r
   | lbServiceType \<Rightarrow> createLbService rx r
   | dnsServiceType \<Rightarrow> createDnsService rx r
   | rancherType \<Rightarrow> createNormalService rx r)"

definition createService :: "'x rancher_env \<Rightarrow> RancherService \<Rightarrow> ('x, Service) api_proc" where
  "createService rx r =
     proc_bind (proc_act (create_by_type rx r)) (\<lambda>service.
     proc_bind (proc_act (setupLinks rx r service)) (\<lambda>_. Wait rx (the service)))"

section \<open>The operations\<close>

definition RancherService_Create :: "'x rancher_env \<Rightarrow> RancherService \<Rightarrow> ('x, unit) api_proc" where
  "RancherService_Create rx r =
     proc_bind (proc_act (findExisting rx (r_name r))) (\<lambda>service. case service of
       Some _ \<Rightarrow> proc_return ()
     | None \<Rightarrow> proc_bind (createService rx r) (\<lambda>_. proc_return ()))"

text \<open>
  \<open>up\<close>: the error of the activation is overwritten by the result of \<open>Wait\<close>.  The deferred start of
  \<open>Log\<close> is left out.
\<close>

definition action_link :: "Service \<Rightarrow> string \<Rightarrow> string" where
  "action_link service a = (case rsv_Actions service a of None \<Rightarrow> [] | Some u \<Rightarrow> u)"

definition RancherService_up :: "'x rancher_env \<Rightarrow> RancherService \<Rightarrow> bool \<Rightarrow> ('x, unit) api_proc" where
  "RancherService_up rx r create =
     proc_bind (proc_act (findExisting rx (r_name r))) (\<lambda>service.
       if service = None \<and> \<not> create then proc_return ()
       else proc_bind
         (case service of
            None \<Rightarrow> createService rx r
          | Some s \<Rightarrow> proc_bind (proc_act (setupLinks rx r service)) (\<lambda>_. proc_return s))
         (\<lambda>service.
           if rsv_State service = ''active'' then proc_return ()
           else if action_link service ''activate'' \<noteq> []
           then proc_bind (wait_result rx (api (Activate (rsv_Id service)) (ap_Activate (rx_server rx) service)))
             (\<lambda>_. proc_return ())
           else proc_return ()))"

definition RancherService_Start :: "'x rancher_env \<Rightarrow> RancherService \<Rightarrow> ('x, unit) api_proc" where
  "RancherService_Start rx r = RancherService_up rx r False"

definition RancherService_Up :: "'x rancher_env \<Rightarrow> RancherService \<Rightarrow> ('x, unit) api_proc" where
  "RancherService_Up rx r = RancherService_up rx r True"

definition RancherService_Down :: "'x rancher_env \<Rightarrow> RancherService \<Rightarrow> ('x, unit) api_proc" where
  "RancherService_Down rx r =
     proc_bind (proc_act (findExisting rx (r_name r))) (\<lambda>service. case service of
       None \<Rightarrow> proc_return ()
     | Some s \<Rightarrow>
         if rsv_State s = ''inactive'' then proc_return ()
         else proc_bind (wait_result rx (api (Deactivate (rsv_Id s)) (ap_Deactivate (rx_server rx) s)))
           (\<lambda>_. proc_return ()))"

definition RancherService_Delete :: "'x rancher_env \<Rightarrow> RancherService \<Rightarrow> ('x, unit) api_proc" where
  "RancherService_Delete rx r =
     proc_bind (proc_act (findExisting rx (r_name r))) (\<lambda>service. case service of
       None \<Rightarrow> proc_return ()
     | Some s \<Rightarrow>
         if rsv_Removed s \<noteq> [] \<or> rsv_State s = ''removing'' \<or> rsv_State s = ''removed'' then proc_return ()
         else proc_bind (proc_act (api (DeleteService (rsv_Id s)) (ap_DeleteService (rx_server rx) s))) (\<lambda>_.
           proc_bind (Wait rx s) (\<lambda>_. proc_return ())))"

definition RancherService_Scale :: "'x rancher_env \<Rightarrow> RancherService \<Rightarrow> int \<Rightarrow> ('x, unit) api_proc" where
  "RancherService_Scale rx r count =
     proc_bind (proc_act (findExisting rx (r_name r))) (\<lambda>service. case service of
       None \<Rightarrow> proc_fail (''Failed to find '' @ r_name r @ '' to scale'')
     | Some s \<Rightarrow> proc_bind (proc_act (api (ScaleService (rsv_Id s) count) (ap_ScaleService (rx_server rx) s count)))
         (\<lambda>s. proc_bind (Wait rx s) (\<lambda>_. proc_return ())))"

text \<open>A service that does not exist is dereferenced.\<close>

definition service_containers :: "'x rancher_env \<Rightarrow> RancherService \<Rightarrow> ('x, Instance list) api_act" where
  "service_containers rx r =
     act_bind (findExisting rx (r_name r)) (\<lambda>service. case service of
       None \<Rightarrow> act_lift Panic
     | Some s \<Rightarrow>
         if (case rsv_Links s ''instances'' of None \<Rightarrow> [] | Some url \<Rightarrow> url) = []
         then act_fail ''Failed to find link: instances''
         else api (GetInstances (rsv_Id s)) (ap_GetInstances (rx_server rx) s))"

text \<open>\<open>Containers\<close>: the identifiers with the names, or the UUIDs of the nameless.\<close>

definition RancherService_Containers :: "'x rancher_env \<Rightarrow> RancherService \<Rightarrow> ('x, (string \<times> string) list) api_act" where
  "RancherService_Containers rx r =
     act_bind (service_containers rx r) (\<lambda>containers.
       act_return (map (\<lambda>c. (ins_Id c, if ins_Name c = [] then ins_Uuid c else ins_Name c)) containers))"

definition restart_container :: "'x rancher_env \<Rightarrow> Instance \<Rightarrow> ('x, unit) api_proc" where
  "restart_container rx container =
     proc_bind (proc_act (api (RestartContainer (ins_Id container)) (ap_RestartContainer (rx_server rx) container)))
       (\<lambda>inst. proc_bind (waitInstance rx inst) (\<lambda>inst.
         if ins_State inst \<noteq> ''running''
         then proc_fail (''Failed to restart '' @ ins_Name inst @ '', in state: '' @ ins_State inst)
         else proc_return ()))"

definition RancherService_Restart :: "'x rancher_env \<Rightarrow> RancherService \<Rightarrow> ('x, unit) api_proc" where
  "RancherService_Restart rx r =
     proc_bind (proc_act (service_containers rx r)) (\<lambda>containers. proc_each (restart_container rx) containers)"

text \<open>The relationships of a service: its links only, all optional.\<close>

definition RancherService_DependentServices :: "(string \<times> ServiceConfig) list \<Rightarrow> ServiceConfig \<Rightarrow> ServiceRelationship list" where
  "RancherService_DependentServices configs config =
     map (\<lambda>rel. rel\<lparr>rel_Optional := True\<rparr>)
       (filter (\<lambda>rel. rel_Type rel = RelTypeLink) (DefaultDependentServices configs (Some config)))"

section \<open>Sidekick services and the factory\<close>

definition Sidekick_Config :: "SidekickInfo \<Rightarrow> string \<Rightarrow> ServiceConfig \<Rightarrow> ServiceConfig" where
  "Sidekick_Config info name serviceConfig =
     serviceConfig\<lparr>sc_Links := NewMaporColonSlice
       (case si_sidekickToPrimaries info name of None \<Rightarrow> [] | Some ps \<Rightarrow> ps), sc_VolumesFrom := []\<rparr>"

definition Sidekick_DependentServices :: "(string \<times> ServiceConfig) list \<Rightarrow> SidekickInfo \<Rightarrow> string \<Rightarrow> ServiceConfig \<Rightarrow>
    ServiceRelationship list" where
  "Sidekick_DependentServices configs info name serviceConfig =
     DefaultDependentServices configs (Some (Sidekick_Config info name serviceConfig))"

text \<open>Every operation of the embedded \<open>EmptyService\<close> returns nil without a call.\<close>

definition EmptyService_op :: "svc_op \<Rightarrow> ('x, unit) api_proc" where
  "EmptyService_op _ = proc_return ()"

definition is_sidekick :: "SidekickInfo \<Rightarrow> string \<Rightarrow> bool" where
  "is_sidekick info name \<longleftrightarrow> length (case si_sidekickToPrimaries info name of None \<Rightarrow> [] | Some ps \<Rightarrow> ps) > 0"

definition factory_Create :: "(string \<times> ServiceConfig) list \<Rightarrow> SidekickInfo \<Rightarrow> string \<Rightarrow> ServiceConfig \<Rightarrow> service_view go" where
  "factory_Create configs info name serviceConfig =
     Ok \<lparr>sv_Name = name, sv_DependentServices =
       (if is_sidekick info name then Sidekick_DependentServices configs info name serviceConfig
        else RancherService_DependentServices configs serviceConfig)\<rparr>"

end
