(* ===== verification/Rancher_Laws.thy ===== *)
theory Rancher_Laws
  imports Rancher_Service
begin

text \<open>
  What the operations of \<open>Rancher_Service\<close> do to the server: which calls they make and how often, what the
  polling loop and the dropped errors amount to, and the bookkeeping of sidekicks.
\<close>

lemma keepsD: "keeps R m \<Longrightarrow> m w = (q, v) \<Longrightarrow> R w v"
  unfolding keeps_def by (metis snd_conv)

section \<open>Waiting\<close>

text \<open>The service and the world after \<open>n\<close> reloads, while all of them succeed and find it in transition.\<close>

fun polled :: "'x rancher_env \<Rightarrow> nat \<Rightarrow> Service \<Rightarrow> 'x rancher_world \<Rightarrow> (Service \<times> 'x rancher_world) option" where
  "polled rx 0 s w = Some (s, w)"
| "polled rx (Suc n) s w =
     (if rsv_Transitioning s \<noteq> ''yes'' then None
      else (case api (ReloadService (rsv_Id s)) (ap_ReloadService (rx_server rx) s) w of
          (Ok s', w') \<Rightarrow> polled rx n s' w'
        | _ \<Rightarrow> None))"

lemma Wait_ready: "rsv_Transitioning s \<noteq> ''yes'' \<Longrightarrow> Wait rx s w = Some (Ok s, w)"
  by (subst Wait.simps) simp

lemma Wait_reload:
  "rsv_Transitioning s = ''yes'' \<Longrightarrow>
     api (ReloadService (rsv_Id s)) (ap_ReloadService (rx_server rx) s) w = (Ok s', w') \<Longrightarrow>
     Wait rx s w = Wait rx s' w'"
  by (subst Wait.simps) simp

lemma Wait_None_step:
  assumes "Wait rx s w = None"
  shows "rsv_Transitioning s = ''yes'' \<and>
    (\<exists>s' w'. api (ReloadService (rsv_Id s)) (ap_ReloadService (rx_server rx) s) w = (Ok s', w') \<and> Wait rx s' w' = None)"
  using assms by (subst (asm) Wait.simps) (auto split: if_splits prod.splits go.splits)

lemmas Wait_induct = Wait.raw_induct [rotated, consumes 1, case_names step]

lemma Wait_None_polled:
  "Wait rx s w = None \<Longrightarrow> \<exists>s' w'. polled rx n s w = Some (s', w') \<and> rsv_Transitioning s' = ''yes''"
proof (induction n arbitrary: s w)
  case 0
  then show ?case using Wait_None_step [OF 0] by simp
next
  case (Suc n)
  from Wait_None_step [OF Suc.prems] Suc.IH show ?case by fastforce
qed

lemma Wait_Some_polled:
  "Wait rx s w = Some y \<Longrightarrow> \<exists>n. \<forall>s' w'. polled rx n s w = Some (s', w') \<longrightarrow> rsv_Transitioning s' \<noteq> ''yes''"
proof (induction rule: Wait_induct)
  case (step W rx s w y)
  show ?case
  proof (cases "rsv_Transitioning s = ''yes''")
    case True
    obtain r w' where a: "api (ReloadService (rsv_Id s)) (ap_ReloadService (rx_server rx) s) w = (r, w')" by fastforce
    show ?thesis
    proof (cases r)
      case (Ok s')
      with step True a obtain n where "\<forall>s'' w''. polled rx n s' w' = Some (s'', w'') \<longrightarrow> rsv_Transitioning s'' \<noteq> ''yes''"
        by fastforce
      with a True Ok show ?thesis by (intro exI [of _ "Suc n"]) simp
    qed (use a True in \<open>auto intro: exI [of _ "Suc 0"]\<close>)
  qed (auto intro: exI [of _ 0])
qed

section \<open>Which calls an operation makes\<close>

text \<open>A call that creates a service: its type, its name and its stack.\<close>

fun creation_of :: "api_call \<Rightarrow> (serviceType \<times> string \<times> string) option" where
  "creation_of (CreateExternalService s) = Some (externalServiceType, es_Name s, es_EnvironmentId s)"
| "creation_of (CreateDnsService s) = Some (dnsServiceType, dn_Name s, dn_EnvironmentId s)"
| "creation_of (CreateLoadBalancerService s) = Some (lbServiceType, lb_Name s, lb_EnvironmentId s)"
| "creation_of (CreateNormalService s) = Some (rancherType, ns_Name s, ns_EnvironmentId s)"
| "creation_of _ = None"

definition is_creation :: "api_call \<Rightarrow> bool" where
  "is_creation c \<longleftrightarrow> creation_of c \<noteq> None"

definition is_deletion :: "api_call \<Rightarrow> bool" where
  "is_deletion c \<longleftrightarrow> (case c of DeleteService _ \<Rightarrow> True | _ \<Rightarrow> False)"

lemma keeps_if [keeps_intro]: "keeps R m \<Longrightarrow> keeps R n \<Longrightarrow> keeps R (if b then m else n)"
  by simp

text \<open>
  A relation between the worlds before and after that the calls which look at the server, set links or wait keep is kept
  by everything built of such calls.
\<close>

locale lookups =
  fixes rx :: "'x rancher_env" and R :: "'x rancher_world \<Rightarrow> 'x rancher_world \<Rightarrow> bool"
  assumes refl: "reflp R" and trans: "transp R"
    and list_services: "keeps R (api (ListServices e n) (ap_ListServices (rx_server rx) e n))"
    and list_stacks: "keeps R (api (ListStacks f) (ap_ListStacks (rx_server rx) f))"
    and set_links: "keeps R (api (SetServiceLinks (rsv_Id s) ls) (ap_SetServiceLinks (rx_server rx) s ls))"
    and transform: "keeps R (api (PostTransform u c) (ap_PostTransform (rx_server rx) u c))"
    and list_certificates: "keeps R (api (ListCertificates n) (ap_ListCertificates (rx_server rx) n))"
    and reload: "keeps R (api (ReloadService (rsv_Id s)) (ap_ReloadService (rx_server rx) s))"
begin

lemmas look_calls = refl trans list_services list_stacks set_links transform list_certificates reload

lemma keeps_resolve: "keeps R (resolveServiceAndEnvironmentId rx name)"
  unfolding resolveServiceAndEnvironmentId_def Let_def
  by (auto intro!: keeps_intro look_calls split: list.split)

lemma keeps_findExisting [keeps_intro]: "keeps R (findExisting rx name)"
  unfolding findExisting_def
  by (auto intro!: keeps_intro look_calls keeps_resolve split: prod.split)

lemma keeps_collect_links: "keeps R (collect_links rx links result)"
  by (induction links arbitrary: result) (auto intro!: keeps_intro look_calls)

lemma keeps_getLinks: "keeps R (getLinks rx r)"
  unfolding getLinks_def by (auto intro!: keeps_intro look_calls keeps_collect_links)

lemma keeps_links [keeps_intro]: "keeps R (getLbLinks rx r)" "keeps R (getServiceLinks rx r)"
  unfolding getLbLinks_def getServiceLinks_def by (auto intro!: keeps_intro look_calls keeps_getLinks)

lemma keeps_setupLinks [keeps_intro]: "keeps R (setupLinks rx r service)"
  unfolding setupLinks_def by (auto intro!: keeps_intro look_calls split: option.split)

lemma keeps_createLaunchConfig [keeps_intro]: "keeps R (createLaunchConfig rx r config)"
  unfolding createLaunchConfig_def Let_def by (auto intro!: keeps_intro look_calls split: prod.split)

lemma keeps_secondary [keeps_intro]: "keeps R (secondary_configs rx r names)"
proof (induction names)
  case Nil
  show ?case unfolding secondary_configs.simps by (intro keeps_intro look_calls)
next
  case (Cons name names)
  then show ?case by (auto intro!: keeps_intro look_calls split: option.split prod.split)
qed

lemma keeps_certs [keeps_intro]: "keeps R (populateCerts rx lb config)"
  unfolding populateCerts_def findCertByName_def
  by (auto intro!: keeps_intro look_calls split: list.split)

lemma proc_keeps_Wait [keeps_intro]: "proc_keeps R (Wait rx s)"
proof -
  have "Wait rx' s w = Some y \<Longrightarrow> rx' = rx \<Longrightarrow> R w (snd y)" for rx' s w y
  proof (induction rule: Wait_induct)
    case (step W rx' s w y)
    show ?case
    proof (cases "rsv_Transitioning s = ''yes''")
      case True
      obtain q v where a: "api (ReloadService (rsv_Id s)) (ap_ReloadService (rx_server rx) s) w = (q, v)" by fastforce
      then have wv: "R w v" by (rule keepsD [OF reload])
      show ?thesis
      proof (cases q)
        case (Ok s')
        with step a True have "R v (snd y)" by auto
        with wv show ?thesis using trans by (blast dest: transpD)
      qed (use step(2,3) a True wv in auto)
    qed (use step(2) refl in \<open>auto dest: reflpD\<close>)
  qed
  then show ?thesis by (fastforce simp: proc_keeps_def)
qed

end

interpretation creation_free: lookups rx "same_calls is_creation" for rx
  by unfold_locales (auto intro!: keeps_intro simp: is_creation_def)

interpretation deletion_free: lookups rx "same_calls is_deletion" for rx
  by unfold_locales (auto intro!: keeps_intro simp: is_deletion_def)

text \<open>Creating: the one creating call, with calls that only look around it.\<close>

definition creates :: "'x rancher_env \<Rightarrow> RancherService \<Rightarrow> 'x rancher_world \<Rightarrow> 'x rancher_world \<Rightarrow> bool" where
  "creates rx r w w' \<longleftrightarrow> (\<exists>c. creation_of c = Some (serviceType rx r, r_name r, stk_Id (rx_Environment rx)) \<and>
     calls_of is_creation w' = calls_of is_creation w @ [c])"

lemma creates_same: "same_calls is_creation u v \<Longrightarrow> creates rx r v w \<Longrightarrow> creates rx r u w"
  "creates rx r u v \<Longrightarrow> same_calls is_creation v w \<Longrightarrow> creates rx r u w"
  by (simp_all add: same_calls_def creates_def)

lemma api_creates:
  assumes "creation_of call = Some (serviceType rx r, r_name r, stk_Id (rx_Environment rx))" "api call m w = (q, w')"
  shows "creates rx r w w'"
  using assms api_log [of call m w] by (auto simp: creates_def calls_of_def is_creation_def)

text \<open>
  \<open>creating\<close>: a call that, when it succeeds, has created the service once, and otherwise at most once.
\<close>

definition creating :: "'x rancher_env \<Rightarrow> RancherService \<Rightarrow> ('x, 'a) api_act \<Rightarrow> bool" where
  "creating rx r m \<longleftrightarrow> (\<forall>w. (same_calls is_creation w (snd (m w)) \<and> \<not> go_ok (fst (m w))) \<or> creates rx r w (snd (m w)))"

lemma creating_bind_before:
  assumes "keeps (same_calls is_creation) m" "\<And>w a v. m w = (Ok a, v) \<Longrightarrow> creating rx r (f a)"
  shows "creating rx r (act_bind m f)"
  unfolding creating_def
proof
  fix w
  obtain q v where m: "m w = (q, v)" by fastforce
  from keepsD [OF assms(1) this] have v: "same_calls is_creation w v" .
  show "(same_calls is_creation w (snd (act_bind m f w)) \<and> \<not> go_ok (fst (act_bind m f w))) \<or> creates rx r w (snd (act_bind m f w))"
  proof (cases q)
    case (Ok a)
    then have "act_bind m f w = f a v" using m by (simp add: act_bind_def)
    moreover have "(same_calls is_creation v (snd (f a v)) \<and> \<not> go_ok (fst (f a v))) \<or> creates rx r v (snd (f a v))"
      using assms(2) m Ok by (simp add: creating_def)
    ultimately show ?thesis using v creates_same(1) [OF v] by (auto simp: same_calls_def)
  qed (use m v in \<open>auto simp: act_bind_def\<close>)
qed

lemma creating_bind_call:
  assumes "creation_of call = Some (serviceType rx r, r_name r, stk_Id (rx_Environment rx))"
    "\<And>a. keeps (same_calls is_creation) (f a)"
  shows "creating rx r (act_bind (api call m) f)"
  unfolding creating_def
proof
  fix w
  obtain q v where m: "api call m w = (q, v)" by fastforce
  have v: "creates rx r w v" by (rule api_creates [OF assms(1) m])
  have "creates rx r w (snd (act_bind (api call m) f w))"
  proof (cases q)
    case (Ok a)
    then have "act_bind (api call m) f w = f a v" using m by (simp add: act_bind_def)
    moreover have "same_calls is_creation v (snd (f a v))" using assms(2) by (simp add: keeps_def)
    ultimately show ?thesis using creates_same(2) [OF v] by simp
  qed (use m v in \<open>auto simp: act_bind_def\<close>)
  then show "(same_calls is_creation w (snd (act_bind (api call m) f w)) \<and> \<not> go_ok (fst (act_bind (api call m) f w))) \<or>
      creates rx r w (snd (act_bind (api call m) f w))" by simp
qed

lemma creating_by_type: "creating rx r (create_by_type rx r)"
proof (cases "serviceType rx r")
  case rancherType
  then show ?thesis
    unfolding create_by_type_def createNormalService_def
    by (auto intro!: creating_bind_before creating_bind_call keeps_intro simp: Let_def split: prod.split)
next
  case lbServiceType
  have name: "lb_Name opts' = lb_Name opts \<and> lb_EnvironmentId opts' = lb_EnvironmentId opts"
    if "populateCerts rx opts config w = (Ok opts', v)" for opts opts' config w v
    using that by (auto simp: populateCerts_def act_bind_Ok_iff act_return_def split: if_splits)
  show ?thesis
    unfolding create_by_type_def createLbService_def Let_def lbServiceType serviceType.case
    by (auto intro!: creating_bind_before creating_bind_call keeps_intro dest!: name simp: lbServiceType split: prod.split)
next
  case dnsServiceType
  then show ?thesis
    unfolding create_by_type_def createDnsService_def Let_def
    by (auto intro!: creating_bind_call keeps_intro simp: is_creation_def split: option.split)
next
  case externalServiceType
  then show ?thesis
    unfolding create_by_type_def createExternalService_def Let_def
    by (auto intro!: creating_bind_call keeps_intro)
qed

section \<open>A small server for the witnesses\<close>

text \<open>Its state is the list of the services; it refuses to activate, and new services are ready at once.\<close>

definition demo_launch :: LaunchConfig where
  "demo_launch = \<lparr>lc_Transformed = [], lc_ImageUuid = [], lc_NetworkMode = [], lc_NetworkLaunchConfig = [],
     lc_DataVolumesFromLaunchConfigs = [], lc_Build = None, lc_HealthCheck = None, lc_Ports = [], lc_Expose = []\<rparr>"

definition demo_service :: "string \<Rightarrow> Service" where
  "demo_service name = Service_zero\<lparr>rsv_Id := ''1s1'', rsv_Name := name, rsv_State := ''inactive'',
     rsv_Actions := [''activate'' \<mapsto> ''/v1/services/1s1/?action=activate'']\<rparr>"

definition demo_server :: "Service list rancher_server" where
  "demo_server = \<lparr>ap_ListServices = (\<lambda>e n x. (Ok (filter (\<lambda>s. rsv_Name s = n) x), x)),
     ap_ListStacks = (\<lambda>n x. (Ok [], x)), ap_CreateStack = (\<lambda>n x. (Ok \<lparr>stk_Id = ''1e1'', stk_Name = n\<rparr>, x)),
     ap_CreateExternalService = (\<lambda>s x. (Ok (), x)), ap_CreateDnsService = (\<lambda>s x. (Ok (), x)),
     ap_CreateLoadBalancerService = (\<lambda>s x. (Ok (), x)),
     ap_CreateNormalService = (\<lambda>s x. (Ok (demo_service (ns_Name s)), demo_service (ns_Name s) # x)),
     ap_SetServiceLinks = (\<lambda>s ls x. (Ok (), x)), ap_Activate = (\<lambda>s x. (Err ''no host'', x)),
     ap_Deactivate = (\<lambda>s x. (Err ''no host'', x)), ap_DeleteService = (\<lambda>s x. (Ok (), [])),
     ap_ScaleService = (\<lambda>s n x. (Ok s, x)), ap_ReloadService = (\<lambda>s x. (Ok s, x)),
     ap_PostTransform = (\<lambda>u c x. (Ok demo_launch, x)), ap_GetInstances = (\<lambda>s x. (Ok [], x)),
     ap_RestartContainer = (\<lambda>i x. (Ok i, x)), ap_ReloadInstance = (\<lambda>i x. (Ok i, x)),
     ap_ListCertificates = (\<lambda>n x. (Ok [], x)), ap_GetSetting = (\<lambda>n x. (Ok [], x)),
     ap_CreatePullTask = (\<lambda>t x. (Ok t, x)), ap_ReloadPullTask = (\<lambda>t x. (Ok t, x))\<rparr>"

definition demo_rx :: "Service list rancher_env" where
  "demo_rx = \<lparr>rx_ProjectName = ''p'', rx_Environment = \<lparr>stk_Id = ''1e1'', stk_Name = ''p''\<rparr>,
     rx_RancherConfig = [''ext'' \<mapsto> RancherConfig_zero\<lparr>rc_Hostname := ''h''\<rparr>], rx_Configs = Map.empty,
     rx_SidekickInfo = NewSidekickInfo [], rx_SchemasLink = ''/v1/schemas'',
     rx_Upload = None, rx_PullCached = False, rx_NowMillis = 0, rx_server = demo_server, rx_order = (\<lambda>ls. ls)\<rparr>"

definition demo_world :: "Service list \<Rightarrow> Service list rancher_world" where
  "demo_world services = \<lparr>rw_log = [], rw_server = services\<rparr>"

definition demo_r :: "string \<Rightarrow> RancherService" where
  "demo_r name = NewService name ServiceConfig_zero"

lemmas demo_rancher = demo_launch_def demo_service_def demo_server_def demo_rx_def demo_world_def demo_r_def
  NewService_def Service_zero_def ServiceConfig_zero_def RancherConfig_zero_def api_def findExisting_def
  resolveServiceAndEnvironmentId_def split2_def act_bind_def proc_bind_def Let_def

section \<open>Properties\<close>

text \<open>
  C19: Creation.  \<open>Create\<close> of a service that the stack already has makes no call but the lookup.  Otherwise it
  sends at most one creating call, of the service's own type, name and stack; when it reports success it has
  sent exactly that one.
\<close>

theorem Create_creates_once:
  assumes "RancherService_Create rx r w = Some (res, w')"
  shows "case findExisting rx (r_name r) w of
      (Ok (Some _), v) \<Rightarrow> res = Ok () \<and> w' = v
    | (Ok None, _) \<Rightarrow> creates rx r w w' \<or> (\<not> go_ok res \<and> same_calls is_creation w w')
    | _ \<Rightarrow> \<not> go_ok res \<and> same_calls is_creation w w'"
proof -
  obtain q v where f: "findExisting rx (r_name r) w = (q, v)" by fastforce
  have wv: "same_calls is_creation w v" by (rule keepsD [OF creation_free.keeps_findExisting f])
  show ?thesis
  proof (cases q)
    case (Ok existing)
    show ?thesis
    proof (cases existing)
      case None
      have tail: "proc_keeps (same_calls is_creation) (proc_bind (proc_act (setupLinks rx r s)) (\<lambda>_. Wait rx (the s)))" for s
        by (auto intro!: keeps_intro)
      from assms f Ok None have c: "proc_bind (createService rx r) (\<lambda>_. proc_return ()) v = Some (res, w')"
        by (simp add: RancherService_Create_def proc_bind_def)
      obtain p u where p: "create_by_type rx r v = (p, u)" by fastforce
      from creating_by_type [of rx r] p have vu: "(same_calls is_creation v u \<and> \<not> go_ok p) \<or> creates rx r v u"
        by (auto simp: creating_def dest!: spec [of _ v])
      have "same_calls is_creation u w' \<and> (\<not> go_ok p \<longrightarrow> \<not> go_ok res)"
      proof (cases p)
        case (Ok s)
        with c p have "proc_bind (proc_bind (proc_act (setupLinks rx r s)) (\<lambda>_. Wait rx (the s))) (\<lambda>_. proc_return ()) u = Some (res, w')"
          by (simp add: createService_def proc_bind_def)
        moreover have "proc_keeps (same_calls is_creation)
            (proc_bind (proc_bind (proc_act (setupLinks rx r s)) (\<lambda>_. Wait rx (the s))) (\<lambda>_. proc_return ()))"
          using tail by (auto intro!: proc_keeps_bind keeps_intro)
        ultimately show ?thesis using Ok by (auto simp: proc_keeps_def)
      qed (use c p in \<open>auto simp: createService_def proc_bind_def same_calls_def\<close>)
      with vu wv f Ok None show ?thesis
        by (auto simp: same_calls_def creates_def)
    qed (use assms f Ok in \<open>simp add: RancherService_Create_def proc_bind_def\<close>)
  qed (use assms f wv in \<open>auto simp: RancherService_Create_def proc_bind_def\<close>)
qed

lemma demo_launch_config:
  "\<exists>lc c u. createLaunchConfig demo_rx (demo_r ''web'') ServiceConfig_zero v = (Ok (lc, c), u) \<and> rw_server u = rw_server v"
proof -
  have "ap_PostTransform (rx_server demo_rx) url ci x = (Ok demo_launch, x)" for url ci x
    by (simp add: demo_rx_def demo_server_def)
  moreover have "\<exists>config hostConfig. Convert ServiceConfig_zero = Ok (config, hostConfig)"
    by (simp add: Convert_def ServiceConfig_zero_def ParsePortSpecs_def ParseRestartPolicy_def parseDevices_def)
  moreover have "setupBuild demo_rx r result ServiceConfig_zero = Ok (result, ServiceConfig_zero)" for r result
    by (simp add: setupBuild_def ServiceConfig_zero_def)
  ultimately show ?thesis by (auto simp: createLaunchConfig_def api_def act_bind_def Let_def)
qed

lemma demo_by_type:
  assumes "rw_server v = []"
  shows "\<exists>u. create_by_type demo_rx (demo_r ''web'') v = (Ok (Some (demo_service ''web'')), u)"
proof -
  obtain lc c u where u: "createLaunchConfig demo_rx (demo_r ''web'') ServiceConfig_zero v = (Ok (lc, c), u)"
    using demo_launch_config by blast
  have t: "serviceType demo_rx (demo_r ''web'') = rancherType"
    by (simp add: serviceType_def service_config_of_def demo_rx_def demo_r_def NewService_def RancherConfig_zero_def
        ServiceConfig_zero_def LB_IMAGE_def DNS_IMAGE_def)
  have c: "r_serviceConfig (demo_r ''web'') = ServiceConfig_zero" "r_name (demo_r ''web'') = ''web''"
    by (simp_all add: demo_r_def NewService_def)
  have k: "si_primariesToSidekicks (rx_SidekickInfo demo_rx) ''web'' = None"
    by (simp add: demo_rx_def NewSidekickInfo_def)
  show ?thesis
    using u by (simp add: create_by_type_def t createNormalService_def c k act_bind_def Let_def)
      (simp add: api_def demo_rx_def demo_server_def)
qed

lemma demo_setup_links: "\<exists>u. setupLinks demo_rx (demo_r name) (Some s) v = (Ok (), u) \<and> rw_server u = rw_server v"
  by (simp add: setupLinks_def getLbLinks_def getServiceLinks_def getLinks_def MaporColonSlice_Slice_def demo_rancher)

lemma demo_create: "\<exists>w'. RancherService_Create demo_rx (demo_r ''web'') (demo_world []) = Some (Ok (), w')"
proof -
  obtain v where v: "findExisting demo_rx ''web'' (demo_world []) = (Ok None, v)" "rw_server v = []"
    by (simp add: demo_rancher)
  obtain u where u: "create_by_type demo_rx (demo_r ''web'') v = (Ok (Some (demo_service ''web'')), u)"
    using demo_by_type [OF v(2)] by blast
  obtain t where t: "setupLinks demo_rx (demo_r ''web'') (Some (demo_service ''web'')) u = (Ok (), t)"
    using demo_setup_links by blast
  have n: "r_name (demo_r ''web'') = ''web''" by (simp add: demo_r_def NewService_def)
  have "Wait demo_rx (demo_service ''web'') t = Some (Ok (demo_service ''web''), t)"
    by (rule Wait_ready) (simp add: demo_service_def Service_zero_def)
  with v u t n show ?thesis
    by (simp add: RancherService_Create_def createService_def proc_bind_def)
qed

theorem Create_creates_once_witness:
  "\<exists>w'. RancherService_Create demo_rx (demo_r ''web'') (demo_world []) = Some (Ok (), w') \<and>
     creates demo_rx (demo_r ''web'') (demo_world []) w'"
proof -
  from demo_create obtain w' where w': "RancherService_Create demo_rx (demo_r ''web'') (demo_world []) = Some (Ok (), w')"
    by blast
  have "fst (findExisting demo_rx ''web'' (demo_world [])) = Ok None" by (simp add: demo_rancher)
  then obtain v where "findExisting demo_rx ''web'' (demo_world []) = (Ok None, v)" by (metis prod.collapse)
  with Create_creates_once [OF w'] w' show ?thesis by (auto simp: demo_r_def NewService_def)
qed

text \<open>
  C20: Deletion.  \<open>Delete\<close> sends at most one deleting call, for the service the lookup found, and none when there
  is no such service or the server is already removing it; then it succeeds with no further call.
\<close>

theorem Delete_deletes_once:
  assumes "RancherService_Delete rx r w = Some (res, w')"
  shows "(case findExisting rx (r_name r) w of
      (Ok None, v) \<Rightarrow> res = Ok () \<and> w' = v
    | (Ok (Some s), v) \<Rightarrow>
        if rsv_Removed s \<noteq> [] \<or> rsv_State s \<in> {''removing'', ''removed''} then res = Ok () \<and> w' = v
        else calls_of is_deletion w' = calls_of is_deletion w @ [DeleteService (rsv_Id s)]
    | _ \<Rightarrow> \<not> go_ok res \<and> calls_of is_deletion w' = calls_of is_deletion w)"
proof -
  obtain q v where f: "findExisting rx (r_name r) w = (q, v)" by fastforce
  have wv: "same_calls is_deletion w v" by (rule keepsD [OF deletion_free.keeps_findExisting f])
  show ?thesis
  proof (cases q)
    case (Ok existing)
    show ?thesis
    proof (cases existing)
      case (Some s)
      show ?thesis
      proof (cases "rsv_Removed s \<noteq> [] \<or> rsv_State s \<in> {''removing'', ''removed''}")
        case False
        obtain p u where p: "api (DeleteService (rsv_Id s)) (ap_DeleteService (rx_server rx) s) v = (p, u)" by fastforce
        have "rw_log u = rw_log v @ [DeleteService (rsv_Id s)]" using p by (simp add: api_eq)
        then have vu: "calls_of is_deletion u = calls_of is_deletion v @ [DeleteService (rsv_Id s)]"
          by (simp add: calls_of_def is_deletion_def)
        have tail: "proc_keeps (same_calls is_deletion) (proc_bind (Wait rx s) (\<lambda>_. proc_return ()))"
          by (auto intro!: keeps_intro)
        have "same_calls is_deletion u w'"
        proof (cases p)
          case (Ok a)
          with assms f \<open>q = Ok existing\<close> Some False p
          have "proc_bind (Wait rx s) (\<lambda>_. proc_return ()) u = Some (res, w')"
            by (auto simp: RancherService_Delete_def proc_bind_def [of "proc_act _"])
          with tail show ?thesis by (auto simp: proc_keeps_def)
        qed (use assms f \<open>q = Ok existing\<close> Some False p in
            \<open>auto simp: RancherService_Delete_def proc_bind_def same_calls_def\<close>)
        with vu wv f Ok Some False show ?thesis by (simp add: same_calls_def)
      qed (use assms f Ok Some in \<open>auto simp: RancherService_Delete_def proc_bind_def\<close>)
    qed (use assms f Ok in \<open>simp add: RancherService_Delete_def proc_bind_def\<close>)
  qed (use assms f wv in \<open>auto simp: RancherService_Delete_def proc_bind_def same_calls_def\<close>)
qed

lemma demo_delete:
  "\<exists>w'. RancherService_Delete demo_rx (demo_r ''web'') (demo_world [demo_service ''web'']) = Some (Ok (), w')"
  by (simp add: RancherService_Delete_def Wait_ready demo_rancher)

theorem Delete_deletes_once_witness:
  "\<exists>w'. RancherService_Delete demo_rx (demo_r ''web'') (demo_world [demo_service ''web'']) = Some (Ok (), w') \<and>
     calls_of is_deletion w' = [DeleteService ''1s1'']"
proof -
  from demo_delete obtain w' where
    w': "RancherService_Delete demo_rx (demo_r ''web'') (demo_world [demo_service ''web'']) = Some (Ok (), w')" by blast
  obtain v where v: "findExisting demo_rx ''web'' (demo_world [demo_service ''web'']) = (Ok (Some (demo_service ''web'')), v)"
    by (simp add: demo_rancher)
  have s: "rsv_Removed (demo_service ''web'') = []" "rsv_State (demo_service ''web'') = ''inactive''"
    "rsv_Id (demo_service ''web'') = ''1s1''" "calls_of is_deletion (demo_world [demo_service ''web'']) = []"
    by (simp_all add: demo_service_def Service_zero_def demo_world_def calls_of_def)
  show ?thesis using Delete_deletes_once [OF w'] w' v s by (simp add: demo_r_def NewService_def)
qed

text \<open>
  C24: Waiting.  \<open>Wait\<close> never returns exactly when every one of its reloads succeeds and finds the service still
  in transition.
\<close>

theorem Wait_hangs_iff:
  "Wait rx s w = None \<longleftrightarrow>
     (\<forall>n. \<exists>s' w'. polled rx n s w = Some (s', w') \<and> rsv_Transitioning s' = ''yes'')"
proof
  assume "Wait rx s w = None"
  then show "\<forall>n. \<exists>s' w'. polled rx n s w = Some (s', w') \<and> rsv_Transitioning s' = ''yes''"
    using Wait_None_polled by blast
next
  assume polls: "\<forall>n. \<exists>s' w'. polled rx n s w = Some (s', w') \<and> rsv_Transitioning s' = ''yes''"
  show "Wait rx s w = None"
  proof (rule ccontr)
    assume "Wait rx s w \<noteq> None"
    then obtain y where "Wait rx s w = Some y" by blast
    from Wait_Some_polled [OF this] polls show False by metis
  qed
qed

text \<open>
  A lost activation error.  When the service is found and its links are set, \<open>Up\<close> of a service that is not
  active reports success although the activation failed: the error is overwritten by \<open>Wait\<close> on the zero
  service that the client returns beside it.
\<close>

theorem Up_loses_activation_error:
  assumes "findExisting rx (r_name r) w = (Ok (Some s), v)" "setupLinks rx r (Some s) v = (Ok (), u)"
    "rsv_State s \<noteq> ''active''" "action_link s ''activate'' \<noteq> []"
    "ap_Activate (rx_server rx) s (rw_server u) = (Err e, x)"
  shows "RancherService_Up rx r w = Some (Ok (), \<lparr>rw_log = rw_log u @ [Activate (rsv_Id s)], rw_server = x\<rparr>)"
  using assms
  by (simp add: RancherService_Up_def RancherService_up_def proc_bind_def wait_result_def act_try_def api_def
      Wait_ready Service_zero_def)

theorem Up_loses_activation_error_witness:
  "\<exists>w'. RancherService_Up demo_rx (demo_r ''web'') (demo_world [demo_service ''web'']) = Some (Ok (), w')"
proof -
  obtain v where v: "findExisting demo_rx (r_name (demo_r ''web'')) (demo_world [demo_service ''web'']) =
      (Ok (Some (demo_service ''web'')), v)" "rw_server v = [demo_service ''web'']"
    by (simp add: demo_rancher)
  obtain u where u: "setupLinks demo_rx (demo_r ''web'') (Some (demo_service ''web'')) v = (Ok (), u)"
    by (simp add: setupLinks_def getServiceLinks_def getLinks_def MaporColonSlice_Slice_def demo_rancher)
  have a: "ap_Activate (rx_server demo_rx) (demo_service ''web'') (rw_server u) = (Err ''no host'', rw_server u)"
    by (simp add: demo_rx_def demo_server_def)
  show ?thesis
    using Up_loses_activation_error [OF v(1) u _ _ a]
    by (simp add: demo_service_def Service_zero_def action_link_def)
qed

text \<open>
  A service the listing does not show.  An external, a DNS or a load balancer service is looked up again after it
  was created; when the listing does not have it yet, its links are set on a nil service: the process panics
  after the server has created the service.
\<close>

theorem unlisted_service_panics:
  assumes "create_by_type rx r w = (Ok None, v)"
  shows "createService rx r w = Some (Panic, v) \<and> creates rx r w v"
proof
  show "createService rx r w = Some (Panic, v)"
    using assms by (simp add: createService_def proc_bind_def setupLinks_def)
  show "creates rx r w v" using creating_by_type [of rx r] assms by (auto simp: creating_def dest!: spec [of _ w])
qed

theorem unlisted_service_panics_witness:
  "\<exists>v. createService demo_rx (demo_r ''ext'') (demo_world []) = Some (Panic, v)"
proof -
  obtain v where "create_by_type demo_rx (demo_r ''ext'') (demo_world []) = (Ok None, v)"
    by (simp add: create_by_type_def serviceType_def service_config_of_def createExternalService_def demo_rancher)
  from unlisted_service_panics [OF this] show ?thesis by blast
qed

section \<open>Metadata\<close>

text \<open>What YAML decodes to, and what \<open>json.Marshal\<close> accepts: it refuses maps keyed by interfaces.\<close>

fun yaml_value :: "metadata \<Rightarrow> bool" where
  "yaml_value (MScalar s) = True"
| "yaml_value (MSeq vs) = list_all yaml_value vs"
| "yaml_value (MIfaceMap kvs) = list_all (\<lambda>(k, v). yaml_value v) kvs"
| "yaml_value (MStringMap kvs) = False"

fun json_value :: "metadata \<Rightarrow> bool" where
  "json_value (MScalar s) = True"
| "json_value (MSeq vs) = list_all json_value vs"
| "json_value (MIfaceMap kvs) = False"
| "json_value (MStringMap kvs) = list_all (\<lambda>(k, v). json_value v) kvs"

lemma alist_set_all: "P b \<Longrightarrow> list_all (\<lambda>(k, v). P v) m \<Longrightarrow> list_all (\<lambda>(k, v). P v) (alist_set a b m)"
  by (induction a b m rule: alist_set.induct) auto

lemma fold_alist_set_all:
  "list_all (\<lambda>(k, v). P v) kvs \<Longrightarrow> list_all (\<lambda>(k, v). P v) m \<Longrightarrow>
     list_all (\<lambda>(k, v). P v) (fold (\<lambda>(k, v) m. alist_set k v m) kvs m)"
  by (induction kvs arbitrary: m) (auto simp: alist_set_all)

lemma nested_walk_json: "yaml_value v \<Longrightarrow> json_value (nested_walk v)"
proof (induction v rule: nested_walk.induct)
  case (1 kvs)
  then have "list_all (\<lambda>(k, v). json_value v) (map (\<lambda>(k, v). (k, nested_walk v)) kvs)"
    by (fastforce simp: list_all_iff)
  from fold_alist_set_all [where m = "[]", OF this] show ?case by simp
qed (auto simp: list_all_iff)

text \<open>
  Metadata.  Whatever YAML decoded, the metadata sent with a service holds no map keyed by interfaces, at any
  depth, so it can be marshalled; its keys are those of the configuration.
\<close>

theorem metadata_marshallable:
  assumes "\<forall>(k, v) \<in> set data. yaml_value v"
  shows "(\<forall>(k, v) \<in> set (NestedMapsToMapInterface data). json_value v) \<and>
    map fst (NestedMapsToMapInterface data) = map fst data"
  using assms by (auto simp: NestedMapsToMapInterface_def nested_walk_json)

theorem metadata_marshallable_witness:
  "json_value (nested_walk (MSeq [MIfaceMap [(''port'', MScalar ''80''), (''opts'', MIfaceMap [])]]))"
  using metadata_marshallable [of "[(''a'', MSeq [MIfaceMap [(''port'', MScalar ''80''), (''opts'', MIfaceMap [])]])]"]
  by (simp add: NestedMapsToMapInterface_def)

section \<open>Sidekicks\<close>

definition primaries_of :: "SidekickInfo \<Rightarrow> string \<Rightarrow> string list" where
  "primaries_of info s = (case si_sidekickToPrimaries info s of None \<Rightarrow> [] | Some ps \<Rightarrow> ps)"

lemma primaries_add_sidekicks:
  "set (primaries_of (fold (add_sidekick name) parts info) s) =
     set (primaries_of info s) \<union> (if s \<in> set parts then {name} else {})"
  by (induction parts arbitrary: info) (auto simp: add_sidekick_def primaries_of_def split: option.splits)

lemma add_sidekicks_primaries:
  "si_primaries (fold (add_sidekick name) parts info) = si_primaries info \<union> (if parts = [] then {} else {name})"
  by (induction parts arbitrary: info) (auto simp: add_sidekick_def)

lemma add_sidekicks_primariesToSidekicks [simp]:
  "si_primariesToSidekicks (fold (add_sidekick name) parts info) = si_primariesToSidekicks info"
  by (induction parts arbitrary: info) (auto simp: add_sidekick_def)

lemma fold_add_primary:
  "set (primaries_of (fold add_primary configs info) s) =
     set (primaries_of info s) \<union> {n. \<exists>c. (n, c) \<in> set configs \<and> s \<in> set (sidekick_parts c)}"
  "si_primaries (fold add_primary configs info) =
     si_primaries info \<union> {n. \<exists>c. (n, c) \<in> set configs \<and> sidekick_parts c \<noteq> []}"
  "distinct (map fst configs) \<Longrightarrow> si_primariesToSidekicks (fold add_primary configs info) =
     si_primariesToSidekicks info ++ (map_option sidekick_parts \<circ> map_of configs)"
proof (induction configs arbitrary: info)
  case (Cons p configs)
  obtain n c where p: "p = (n, c)" by fastforce
  have one: "set (primaries_of (add_primary p info) s) =
      set (primaries_of info s) \<union> (if s \<in> set (sidekick_parts c) then {n} else {})" for info
    using primaries_add_sidekicks [of n "sidekick_parts c" info s]
    by (simp add: p add_primary_def Let_def primaries_of_def)
  { case 1 show ?case using Cons.IH(1) one p by auto
  next
    case 2 show ?case using Cons.IH(2) p by (auto simp: add_primary_def Let_def add_sidekicks_primaries)
  next
    case 3
    then have "si_primariesToSidekicks (fold add_primary (p # configs) info) =
        si_primariesToSidekicks (add_primary p info) ++ (map_option sidekick_parts \<circ> map_of configs)"
      using Cons.IH(3) by (simp add: comp_def)
    moreover have "map_of configs n = None" using 3 p by (simp add: map_of_eq_None_iff)
    ultimately show ?case
      by (auto simp: p add_primary_def Let_def fun_eq_iff map_add_def split: option.splits)
  }
qed (auto simp: map_add_def fun_eq_iff)

text \<open>
  Sidekicks.  The two maps are inverse to each other, in every order of the services: \<open>s\<close> is listed as a
  sidekick of \<open>p\<close> exactly when \<open>p\<close> is listed as a primary of \<open>s\<close>; the primaries are the services with a
  sidekick, and the factory makes a sidekick of exactly the services some service names as one.
\<close>

theorem sidekicks_inverse:
  assumes "distinct (map fst configs)"
  shows "(p \<in> set (primaries_of (NewSidekickInfo configs) s) \<longleftrightarrow>
      (\<exists>ss. si_primariesToSidekicks (NewSidekickInfo configs) p = Some ss \<and> s \<in> set ss)) \<and>
    (p \<in> si_primaries (NewSidekickInfo configs) \<longleftrightarrow>
      (\<exists>ss. si_primariesToSidekicks (NewSidekickInfo configs) p = Some ss \<and> ss \<noteq> [])) \<and>
    (is_sidekick (NewSidekickInfo configs) s \<longleftrightarrow> (\<exists>(n, c) \<in> set configs. s \<in> set (sidekick_parts c)))"
proof -
  let ?i = "\<lparr>si_primariesToSidekicks = Map.empty, si_primaries = {}, si_sidekickToPrimaries = Map.empty\<rparr>"
  have prim: "set (primaries_of (NewSidekickInfo configs) s) = {n. \<exists>c. (n, c) \<in> set configs \<and> s \<in> set (sidekick_parts c)}"
    using fold_add_primary(1) [of configs ?i s] by (simp add: NewSidekickInfo_def primaries_of_def)
  have side: "si_primariesToSidekicks (NewSidekickInfo configs) p = map_option sidekick_parts (map_of configs p)"
    using fold_add_primary(3) [OF assms, of ?i] by (simp add: NewSidekickInfo_def)
  have look: "map_of configs p = Some c \<longleftrightarrow> (p, c) \<in> set configs" for c
    using assms by (simp add: map_of_eq_Some_iff)
  have "si_primaries (NewSidekickInfo configs) = {n. \<exists>c. (n, c) \<in> set configs \<and> sidekick_parts c \<noteq> []}"
    using fold_add_primary(2) [of configs ?i] by (simp add: NewSidekickInfo_def)
  moreover have "is_sidekick (NewSidekickInfo configs) s \<longleftrightarrow> set (primaries_of (NewSidekickInfo configs) s) \<noteq> {}"
    unfolding set_empty by (simp add: is_sidekick_def primaries_of_def)
  ultimately show ?thesis by (auto simp: prim side look)
qed

definition demo_labels :: "(string \<times> string) list \<Rightarrow> string list \<Rightarrow> ServiceConfig" where
  "demo_labels labels links = ServiceConfig_zero\<lparr>sc_Labels := NewSliceorMap labels, sc_Links := NewMaporColonSlice links\<rparr>"

text \<open>A stack of two services: \<open>web\<close>, whose sidekick is \<open>logs\<close>, also links to it.\<close>

definition demo_configs :: "(string \<times> ServiceConfig) list" where
  "demo_configs = [(''web'', demo_labels [(''io.rancher.sidekicks'', ''logs'')] [''logs'']), (''logs'', demo_labels [] [])]"

lemmas demo_configs_simps = demo_configs_def demo_labels_def sidekick_parts_def SliceorMap_MapParts_def
  NewSliceorMap_def NewMaporColonSlice_def MaporColonSlice_Slice_def TrimSplit_def trim_space_def is_space_def
  ServiceConfig_zero_def

theorem sidekicks_inverse_witness:
  "primaries_of (NewSidekickInfo demo_configs) ''logs'' = [''web''] \<and> is_sidekick (NewSidekickInfo demo_configs) ''logs''"
proof -
  have d: "distinct (map fst demo_configs)" by (simp add: demo_configs_def)
  have "is_sidekick (NewSidekickInfo demo_configs) ''logs''"
    using sidekicks_inverse [OF d, of _ "''logs''"] by (simp add: demo_configs_simps)
  moreover have "primaries_of (NewSidekickInfo demo_configs) ''logs'' = [''web'']"
    by (simp add: NewSidekickInfo_def add_primary_def add_sidekick_def primaries_of_def demo_configs_simps)
  ultimately show ?thesis by blast
qed

section \<open>Stacks\<close>

text \<open>The services of a project made by the factory, as \<open>CreateService\<close> hands them to the wrappers.\<close>

definition stack_service :: "project_env \<Rightarrow> Project \<Rightarrow> string \<Rightarrow> service_view go" where
  "stack_service pe p name =
     CreateService pe (factory_Create (pr_Configs p) (NewSidekickInfo (pr_Configs p))) name p"

lemma RancherService_deps_optional:
  "rel \<in> set (RancherService_DependentServices configs config) \<Longrightarrow> rel_Optional rel"
  by (auto simp: RancherService_DependentServices_def)

lemma stack_well_behaved:
  assumes "distinct (map fst (pr_Configs p))" "\<forall>(n, c) \<in> set (pr_Configs p). sidekick_parts c = []"
    "\<forall>w. call w op \<noteq> ErrRestart" "op \<noteq> Svc_Up"
  shows "well_behaved op call (stack_service pe p) (map fst (pr_Configs p))"
  unfolding well_behaved_def
proof (intro conjI ballI)
  fix n assume "n \<in> set (map fst (pr_Configs p))"
  then obtain c where c: "map_of (pr_Configs p) n = Some c" by (metis map_of_eq_None_iff not_None_eq set_map)
  have "set (primaries_of (NewSidekickInfo (pr_Configs p)) n) = {}"
    unfolding NewSidekickInfo_def fold_add_primary(1) using assms(2) by (auto simp: primaries_of_def)
  then have "\<not> is_sidekick (NewSidekickInfo (pr_Configs p)) n"
    unfolding set_empty by (simp add: is_sidekick_def primaries_of_def)
  with c show "\<exists>v. stack_service pe p n = Ok v \<and> (\<forall>dep \<in> set (sv_DependentServices v). rel_Optional dep)"
    by (auto simp: stack_service_def CreateService_def factory_Create_def Let_def RancherService_deps_optional)
qed (use assms in auto)


definition demo_project :: "(string \<times> ServiceConfig) list \<Rightarrow> Project" where
  "demo_project configs = (NewProject \<lparr>cx_ComposeFile = [], cx_ComposeBytes = None, cx_ProjectName = ''p'',
     cx_isOpen = True, cx_IgnoreMissingConfig = False\<rparr> 0)\<lparr>pr_Configs := configs\<rparr>"

definition demo_pe :: project_env where
  "demo_pe = \<lparr>pe_os = \<lparr>os_Stdin = Ok [], os_ReadFile = (\<lambda>f. ReadNotExist []), os_Getenv = (\<lambda>k. []), os_Abs = Ok, os_Getwd = Ok []\<rparr>,
     pe_compose = sample_env, pe_order = (\<lambda>ns. ns), pe_fuel = 0, pe_envLookup = None\<rparr>"


definition demo_stack :: "string \<Rightarrow> service_view go" where
  "demo_stack = stack_service demo_pe (demo_project demo_configs)"

definition demo_wrappers :: "string \<rightharpoonup> serviceWrapper" where
  "demo_wrappers = fresh_wrappers demo_stack [''web'', ''logs'']"

definition demo_rel :: "string \<Rightarrow> bool \<Rightarrow> ServiceRelationship" where
  "demo_rel target optional = \<lparr>rel_Target = target, rel_Alias = target, rel_Type = RelTypeLink, rel_Optional = optional\<rparr>"

lemma demo_info:
  "si_sidekickToPrimaries (NewSidekickInfo demo_configs) = [''logs'' \<mapsto> [''web'']]"
  by (rule ext) (simp add: NewSidekickInfo_def add_primary_def add_sidekick_def demo_configs_simps)

lemma demo_views:
  "demo_stack ''web'' = Ok \<lparr>sv_Name = ''web'', sv_DependentServices = [demo_rel ''logs'' True]\<rparr>"
  "demo_stack ''logs'' = Ok \<lparr>sv_Name = ''logs'', sv_DependentServices = [demo_rel ''web'' False]\<rparr>"
proof -
  have stack: "demo_stack n = factory_Create demo_configs (NewSidekickInfo demo_configs) n c"
    if "map_of demo_configs n = Some c" for n c
    using that by (simp add: demo_stack_def stack_service_def CreateService_def demo_project_def demo_pe_def Let_def)
  have fields: "sc_Links (demo_labels ls ks) = NewMaporColonSlice ks" "sc_VolumesFrom (demo_labels ls ks) = []"
    "sc_Net (demo_labels ls ks) = []" "sc_Ipc (demo_labels ls ks) = []" for ls ks
    by (simp_all add: demo_labels_def ServiceConfig_zero_def)
  have deps: "DefaultDependentServices configs (Some c) = map (\<lambda>l. NewServiceRelationship l RelTypeLink) ks"
    if "sc_Links c = NewMaporColonSlice ks" "sc_VolumesFrom c = []" "sc_Net c = []" "sc_Ipc c = []" for configs c ks
    using that by (simp add: DefaultDependentServices_def Let_def appendNs_def GetContainerFromIpcLikeConfig_def
        IpcMode_IsContainer_def NewMaporColonSlice_def MaporColonSlice_Slice_def split2_def)
  have side: "is_sidekick (NewSidekickInfo demo_configs) n \<longleftrightarrow> n = ''logs''" for n
    by (simp add: is_sidekick_def demo_info)
  have rel: "NewServiceRelationship ''logs'' RelTypeLink = demo_rel ''logs'' False"
    "NewServiceRelationship ''web'' RelTypeLink = demo_rel ''web'' False"
    by (simp_all add: NewServiceRelationship_def NameAlias_def split2_def demo_rel_def)
  show "demo_stack ''web'' = Ok \<lparr>sv_Name = ''web'', sv_DependentServices = [demo_rel ''logs'' True]\<rparr>"
    by (subst stack [of _ "demo_labels [(''io.rancher.sidekicks'', ''logs'')] [''logs'']"])
      (simp_all add: demo_configs_def factory_Create_def side [unfolded demo_configs_def]
        RancherService_DependentServices_def deps [where ks = "[''logs'']"] fields rel, simp_all add: demo_rel_def)
  show "demo_stack ''logs'' = Ok \<lparr>sv_Name = ''logs'', sv_DependentServices = [demo_rel ''web'' False]\<rparr>"
    by (subst stack [of _ "demo_labels [] []"])
      (simp_all add: demo_configs_def factory_Create_def side [unfolded demo_configs_def]
        Sidekick_DependentServices_def Sidekick_Config_def demo_info [unfolded demo_configs_def] deps [where ks = "[''web'']"] fields rel)
qed

lemma demo_env:
  "le_wrappers (launch_env_of demo_wrappers {} None) = {''web'', ''logs''}"
  "le_deps (launch_env_of demo_wrappers {} None) ''web'' = [demo_rel ''logs'' True]"
  "le_deps (launch_env_of demo_wrappers {} None) ''logs'' = [demo_rel ''web'' False]"
  "le_cycleAction (launch_env_of demo_wrappers {} None) = None"
  by (auto simp: launch_env_of_def demo_wrappers_def fresh_wrappers_def view_of_def demo_views fresh_wrapper_def split: if_splits)

lemma demo_launch_web:
  "\<exists>errs st. launch (launch_env_of demo_wrappers {} None) [''web'', ''logs''] = Some (errs, st) \<and> errs \<noteq> []"
  by (simp add: launch_def demo_env startService.simps(2) numeral_2_eq_2 launch_init_def demo_rel_def)

lemma demo_launch_logs:
  "\<exists>st. launch (launch_env_of demo_wrappers {} None) [''logs'', ''web''] = Some ([], st)"
  by (simp add: launch_def demo_env startService.simps(2) numeral_2_eq_2 launch_init_def demo_rel_def IgnoreDep_def)

text \<open>
  A sidekick its primary links to.  The relationship of the sidekick to its primary is not optional, so a link from
  the primary back to it is a cycle that depends on the order of Go's map iteration: launched from the
  sidekick the operation runs, launched from the primary some wrapper is never done, and the operation
  never returns.
\<close>

theorem sidekick_link_order_dependent:
  "(\<exists>st. launch (launch_env_of demo_wrappers {} None) [''logs'', ''web''] = Some ([], st)) \<and>
    (\<exists>errs st. launch (launch_env_of demo_wrappers {} None) [''web'', ''logs''] = Some (errs, st) \<and>
      (\<exists>w \<in> dom demo_wrappers. \<forall>op s. runs_to op (run_init demo_wrappers st) s \<longrightarrow> \<not> finished s w))"
proof -
  from demo_launch_web obtain errs st where
    l: "launch (launch_env_of demo_wrappers {} None) [''web'', ''logs''] = Some (errs, st)" "errs \<noteq> []" by blast
  have d: "set [''web'', ''logs''] = dom demo_wrappers" by (simp add: demo_wrappers_def)
  have one: "\<forall>wr \<in> ran demo_wrappers. sw_done wr = 1" by (simp add: demo_wrappers_def fresh_wrappers_one)
  from launch_error_unfinished [OF l d one] l(1) demo_launch_logs show ?thesis by metis
qed

end
