(* ===== verification/Rancher_Pull.thy ===== *)
theory Rancher_Pull
  imports Rancher_Laws
begin

text \<open>
  Pulling the images of a service, \<open>rancher-compose/rancher/service.go\<close>: the pull tasks, the loop that waits for them and
  reports their progress, and \<open>Pull\<close>, which pulls the images of a service and its sidekicks at once.
\<close>

section \<open>Progress\<close>

text \<open>
  \<open>printStatus\<close> remembers what it reported of each host.  A status that is no string is passed over.  The hosts
  are the keys of a map, so the order of the loop does not matter to what is remembered.
\<close>

definition next_printed :: "string \<Rightarrow> string \<Rightarrow> string" where
  "next_printed v status =
     (if v = [] then ''start''
      else if v = ''start'' \<and> status = ''Done'' then ''done''
      else if v = ''start'' \<and> status \<noteq> ''Pulling'' \<and> status \<noteq> v then status
      else v)"

definition print_host :: "string \<times> string option \<Rightarrow> bool \<times> (string \<rightharpoonup> string) \<Rightarrow> bool \<times> (string \<rightharpoonup> string)" where
  "print_host = (\<lambda>(host, objStatus) (good, printed). case objStatus of
     None \<Rightarrow> (good, printed)
   | Some status \<Rightarrow>
       (good \<and> status = ''Done'',
        printed(host \<mapsto> next_printed (case printed host of None \<Rightarrow> [] | Some v \<Rightarrow> v) status)))"

definition printStatus :: "(string \<rightharpoonup> string) \<Rightarrow> (string \<times> string option) list \<Rightarrow> bool \<times> (string \<rightharpoonup> string)" where
  "printStatus printed current = fold print_host current (True, printed)"

section \<open>One image\<close>

definition pull_task :: "'x rancher_env \<Rightarrow> string \<Rightarrow> (string \<times> string) list \<Rightarrow> PullTask" where
  "pull_task rx img labels =
     \<lparr>pt_Id = [], pt_Type = [], pt_Links = Map.empty, pt_Actions = Map.empty, pt_Image = img, pt_Mode = (if rx_PullCached rx then ''cached'' else ''all''), pt_Labels = ToMapInterface labels,
      pt_Transitioning = [], pt_TransitioningMessage = [], pt_Status = []\<rparr>"

text \<open>What the closure given to \<open>WaitFor\<close> does: it reports a new message, and returns the task's transition.\<close>

definition report_task :: "PullTask \<Rightarrow> (string \<rightharpoonup> string) \<times> string \<Rightarrow> (string \<rightharpoonup> string) \<times> string" where
  "report_task task = (\<lambda>(printed, lastMessage).
     if pt_TransitioningMessage task \<noteq> [] \<and> pt_TransitioningMessage task \<noteq> ''In Progress'' \<and>
        pt_TransitioningMessage task \<noteq> lastMessage
     then (snd (printStatus printed (pt_Status task)), pt_TransitioningMessage task)
     else (printed, lastMessage))"

text \<open>
  \<open>WaitFor\<close> on a pull task.  Its error is not looked at by \<open>pullImage\<close>, so the result is the task as last
  loaded and what was reported.  It may poll for ever.
\<close>

partial_function (option) WaitFor :: "'x rancher_env \<Rightarrow> PullTask \<Rightarrow> (string \<rightharpoonup> string) \<times> string \<Rightarrow> 'x rancher_world \<Rightarrow>
    ((PullTask \<times> (string \<rightharpoonup> string)) go \<times> 'x rancher_world) option" where
  "WaitFor rx task st w =
     (if pt_Transitioning task \<noteq> ''yes'' then Some (Ok (task, fst (report_task task st)), w)
      else (case api ReloadPullTask (ap_ReloadPullTask (rx_server rx) task) w of
          (Ok task', w') \<Rightarrow> WaitFor rx task' (report_task task st) w'
        | (Err e, w') \<Rightarrow> Some (Ok (task, fst (report_task task st)), w')
        | (Panic, w') \<Rightarrow> Some (Panic, w')))"

declare WaitFor.simps [simp del]

definition pullImage :: "'x rancher_env \<Rightarrow> string \<Rightarrow> (string \<times> string) list \<Rightarrow> ('x, unit) api_proc" where
  "pullImage rx img labels =
     (let taskOpts = pull_task rx img labels
      in proc_bind (proc_act (api (CreatePullTask taskOpts) (ap_CreatePullTask (rx_server rx) taskOpts))) (\<lambda>task.
         proc_bind (WaitFor rx task (Map.empty, [])) (\<lambda>(task, printed).
           if pt_Transitioning task = ''error'' then proc_fail (pt_TransitioningMessage task)
           else if \<not> fst (printStatus printed (pt_Status task)) then proc_fail ''Pull failed on one of the hosts''
           else proc_return ())))"

section \<open>The images of a service\<close>

text \<open>The sidekicks that exist add their labels and their img.\<close>

definition pull_secondary :: "'x rancher_env \<Rightarrow> string \<Rightarrow> string set \<times> (string \<times> string) list \<Rightarrow> string set \<times> (string \<times> string) list" where
  "pull_secondary rx secondaryName = (\<lambda>(toPull, labels). case rx_Configs rx secondaryName of
     None \<Rightarrow> (toPull, labels)
   | Some serviceConfig \<Rightarrow>
       (if sc_Image serviceConfig \<noteq> [] then insert (sc_Image serviceConfig) toPull else toPull,
        MapUnion labels (SliceorMap_MapParts (Some (sc_Labels serviceConfig)))))"

definition pull_plan :: "'x rancher_env \<Rightarrow> RancherService \<Rightarrow> string set \<times> (string \<times> string) list" where
  "pull_plan rx r =
     fold (pull_secondary rx)
       (case si_primariesToSidekicks (rx_SidekickInfo rx) (r_name r) of None \<Rightarrow> [] | Some secondaries \<Rightarrow> secondaries)
       ({sc_Image (r_serviceConfig r)}, SliceorMap_MapParts (Some (sc_Labels (r_serviceConfig r))))"

text \<open>
  \<open>Pull\<close> as a relation to the error it may return: the images are pulled by goroutines of which each that fails
  overwrites the error, so it is one of theirs, and none when all succeed.  The server a goroutine sees
  is in whatever state the others left it.
\<close>

definition RancherService_Pull :: "'x rancher_env \<Rightarrow> RancherService \<Rightarrow> string option \<Rightarrow> bool" where
  "RancherService_Pull rx r err \<longleftrightarrow>
     (if sc_Image (r_serviceConfig r) = [] \<or> serviceType rx r \<noteq> rancherType then err = None
      else (\<exists>outcome. (\<forall>img \<in> fst (pull_plan rx r). \<exists>w w'.
              pullImage rx img (snd (pull_plan rx r)) w = Some (outcome img, w') \<and> outcome img \<noteq> Panic) \<and>
            (case err of
               None \<Rightarrow> \<forall>img \<in> fst (pull_plan rx r). outcome img = Ok ()
             | Some e \<Rightarrow> \<exists>img \<in> fst (pull_plan rx r). outcome img = Err e)))"

section \<open>Laws\<close>

text \<open>Whether all hosts are done does not depend on what was reported before.\<close>

lemma printStatus_good: "fst (printStatus printed current) \<longleftrightarrow> (\<forall>(host, objStatus) \<in> set current. objStatus \<in> {None, Some ''Done''})"
proof -
  have "fst (fold print_host current (g, printed)) \<longleftrightarrow> g \<and> (\<forall>(host, objStatus) \<in> set current. objStatus \<in> {None, Some ''Done''})" for g printed
    by (induction current arbitrary: g printed) (auto simp: print_host_def split: option.splits)
  then show ?thesis by (simp add: printStatus_def)
qed

text \<open>The task after \<open>n\<close> successful reloads, each while it is in transition.\<close>

fun reloads :: "'x rancher_env \<Rightarrow> nat \<Rightarrow> PullTask \<Rightarrow> 'x \<Rightarrow> (PullTask \<times> 'x) option" where
  "reloads rx 0 t x = Some (t, x)"
| "reloads rx (Suc n) t x =
     (if pt_Transitioning t \<noteq> ''yes'' then None
      else (case ap_ReloadPullTask (rx_server rx) t x of (Ok t', x') \<Rightarrow> reloads rx n t' x' | _ \<Rightarrow> None))"

text \<open>The polling ends with a task that is not in transition, or with a reload that fails.\<close>

definition polling_ended :: "'x rancher_env \<Rightarrow> nat \<Rightarrow> nat \<Rightarrow> PullTask \<Rightarrow> 'x \<Rightarrow> bool" where
  "polling_ended rx n m t y \<longleftrightarrow>
     (if pt_Transitioning t \<noteq> ''yes'' then m = n
      else (\<exists>e z. ap_ReloadPullTask (rx_server rx) t y = (Err e, z)) \<and> m = Suc n)"

lemmas WaitFor_induct = WaitFor.raw_induct [rotated, consumes 1, case_names step]

lemma WaitFor_reloads_aux:
  "WaitFor rx t0 st w = Some q \<Longrightarrow>
   (case q of (Ok (t, printed), w') \<Rightarrow>
      \<exists>n m y. reloads rx n t0 (rw_server w) = Some (t, y) \<and> rw_log w' = rw_log w @ replicate m ReloadPullTask \<and>
        polling_ended rx n m t y
    | _ \<Rightarrow> True)"
proof (induction rule: WaitFor_induct)
  case (step W rx t0 st w q)
  show ?case
  proof (cases "pt_Transitioning t0 = ''yes''")
    case False
    with step(2) show ?thesis by (auto simp: polling_ended_def intro!: exI [of _ 0])
  next
    case True
    obtain r x where a: "ap_ReloadPullTask (rx_server rx) t0 (rw_server w) = (r, x)" by fastforce
    let ?w = "\<lparr>rw_log = rw_log w @ [ReloadPullTask], rw_server = x\<rparr>"
    have api: "api ReloadPullTask (ap_ReloadPullTask (rx_server rx) t0) w = (r, ?w)" using a by (simp add: api_def)
    show ?thesis
    proof (cases r)
      case (Ok t1)
      with step(2) True api have "W rx t1 (report_task t0 st) ?w = Some q" by simp
      note ih = step(1) [OF this]
      show ?thesis
      proof (cases q)
        case (Pair qr w')
        show ?thesis
        proof (cases qr)
          case (Ok tp)
          obtain t printed where tp: "tp = (t, printed)" by fastforce
          from ih obtain n m y where n: "reloads rx n t1 x = Some (t, y)" "rw_log w' = rw_log ?w @ replicate m ReloadPullTask"
            "polling_ended rx n m t y"
            unfolding Pair Ok tp by auto
          have "reloads rx (Suc n) t0 (rw_server w) = Some (t, y)" using True a \<open>r = Ok t1\<close> n(1) by simp
          moreover have "rw_log w' = rw_log w @ replicate (Suc m) ReloadPullTask" using n(2) by simp
          moreover have "polling_ended rx (Suc n) (Suc m) t y" using n(3) by (simp add: polling_ended_def split: if_splits)
          ultimately show ?thesis unfolding Pair Ok tp prod.case go.case
            using n(3) by (intro exI [of _ "Suc n"] exI [of _ "Suc m"] exI [of _ y]) simp
        qed (simp_all add: Pair)
      qed
    next
      case (Err e)
      with step(2) True api have "q = (Ok (t0, fst (report_task t0 st)), ?w)" by simp
      with a Err show ?thesis by (auto simp: polling_ended_def True intro!: exI [of _ 0] exI [of _ "Suc 0"])
    next
      case Panic
      with step(2) True api show ?thesis by auto
    qed
  qed
qed

lemma WaitFor_reloads:
  assumes "WaitFor rx t0 st w = Some (Ok (t, printed), w')"
  obtains n m y where "reloads rx n t0 (rw_server w) = Some (t, y)" "rw_log w' = rw_log w @ replicate m ReloadPullTask"
    "polling_ended rx n m t y"
  using WaitFor_reloads_aux [OF assms] by auto

lemma pullImage_Ok:
  assumes "pullImage rx img labels w = Some (Ok (), w')"
  obtains t0 u t printed where "api (CreatePullTask (pull_task rx img labels)) (ap_CreatePullTask (rx_server rx) (pull_task rx img labels)) w = (Ok t0, u)"
    "WaitFor rx t0 (Map.empty, []) u = Some (Ok (t, printed), w')" "pt_Transitioning t \<noteq> ''error''"
    "fst (printStatus printed (pt_Status t))"
  using assms unfolding pullImage_def Let_def
  by (auto elim!: proc_bind_cases split: if_splits prod.splits)

section \<open>Properties\<close>

text \<open>
  C33: A pulled image.  When \<open>pullImage\<close> succeeds it has created one task, for this image with the labels, and polled
  it: the task as last loaded is not in error and no host reports anything but \<open>Done\<close>.  The task may still be in transition, when its
  last reload failed.
\<close>

theorem pullImage_success:
  assumes "pullImage rx img labels w = Some (Ok (), w')"
  shows "\<exists>t0 x n m t y. ap_CreatePullTask (rx_server rx) (pull_task rx img labels) (rw_server w) = (Ok t0, x) \<and>
    rw_log w' = rw_log w @ CreatePullTask (pull_task rx img labels) # replicate m ReloadPullTask \<and>
    reloads rx n t0 x = Some (t, y) \<and> pt_Transitioning t \<noteq> ''error'' \<and>
    (\<forall>(host, objStatus) \<in> set (pt_Status t). objStatus \<in> {None, Some ''Done''}) \<and>
    (if pt_Transitioning t \<noteq> ''yes'' then m = n
     else (\<exists>e z. ap_ReloadPullTask (rx_server rx) t y = (Err e, z)) \<and> m = Suc n)"
proof -
  from assms obtain t0 u t printed where
    p: "api (CreatePullTask (pull_task rx img labels)) (ap_CreatePullTask (rx_server rx) (pull_task rx img labels)) w = (Ok t0, u)"
      "WaitFor rx t0 (Map.empty, []) u = Some (Ok (t, printed), w')" "pt_Transitioning t \<noteq> ''error''"
      "fst (printStatus printed (pt_Status t))" by (rule pullImage_Ok)
  from p(2) obtain n m y where n: "reloads rx n t0 (rw_server u) = Some (t, y)" "rw_log w' = rw_log u @ replicate m ReloadPullTask"
    "polling_ended rx n m t y"
    by (rule WaitFor_reloads)
  have u: "ap_CreatePullTask (rx_server rx) (pull_task rx img labels) (rw_server w) = (Ok t0, rw_server u)"
    "rw_log u = rw_log w @ [CreatePullTask (pull_task rx img labels)]" using p(1) by (simp_all add: api_eq)
  from n p(3,4) u show ?thesis
    by (intro exI [of _ t0] exI [of _ "rw_server u"] exI [of _ n] exI [of _ m] exI [of _ t] exI [of _ y])
      (simp add: printStatus_good polling_ended_def)
qed

theorem pullImage_success_witness:
  "\<exists>w'. pullImage demo_rx ''nginx'' [] (demo_world []) = Some (Ok (), w') \<and>
     rw_log w' = [CreatePullTask (pull_task demo_rx ''nginx'' [])]"
proof -
  let ?t = "pull_task demo_rx ''nginx'' []"
  have c: "api (CreatePullTask ?t) (ap_CreatePullTask (rx_server demo_rx) ?t) (demo_world []) =
      (Ok ?t, \<lparr>rw_log = [CreatePullTask ?t], rw_server = []\<rparr>)"
    by (simp add: api_def demo_world_def demo_rx_def demo_server_def)
  have t: "pt_Transitioning ?t = []" "pt_Status ?t = []" by (simp_all add: pull_task_def)
  have "pullImage demo_rx ''nginx'' [] (demo_world []) = Some (Ok (), \<lparr>rw_log = [CreatePullTask ?t], rw_server = []\<rparr>)"
    using c t by (simp add: pullImage_def Let_def proc_bind_def WaitFor.simps printStatus_def)
  from pullImage_success [OF this] this t show ?thesis by auto
qed

text \<open>The images pulled: that of the service, and those of its sidekicks that exist and have one.\<close>

lemma pull_plan_images:
  "fst (pull_plan rx r) = insert (sc_Image (r_serviceConfig r))
     {img. img \<noteq> [] \<and> (\<exists>ss s c. si_primariesToSidekicks (rx_SidekickInfo rx) (r_name r) = Some ss \<and> s \<in> set ss \<and>
        rx_Configs rx s = Some c \<and> sc_Image c = img)}"
proof -
  have "fst (fold (pull_secondary rx) ss (I, labels)) =
      I \<union> {img. img \<noteq> [] \<and> (\<exists>s \<in> set ss. \<exists>c. rx_Configs rx s = Some c \<and> sc_Image c = img)}" for ss I labels
    by (induction ss arbitrary: I labels) (auto simp: pull_secondary_def split: option.splits if_splits)
  then show ?thesis
    by (cases "si_primariesToSidekicks (rx_SidekickInfo rx) (r_name r)") (auto simp: pull_plan_def)
qed

text \<open>When \<open>Pull\<close> succeeds, each of the images was pulled.\<close>

theorem Pull_success:
  assumes "RancherService_Pull rx r None" "serviceType rx r = rancherType" "sc_Image (r_serviceConfig r) \<noteq> []"
    "si_primariesToSidekicks (rx_SidekickInfo rx) (r_name r) = Some ss"
    "img = sc_Image (r_serviceConfig r) \<or> img \<noteq> [] \<and> (\<exists>s \<in> set ss. \<exists>c. rx_Configs rx s = Some c \<and> sc_Image c = img)"
  shows "\<exists>w w'. pullImage rx img (snd (pull_plan rx r)) w = Some (Ok (), w')"
proof -
  have "img \<in> fst (pull_plan rx r)" using assms(4,5) by (auto simp: pull_plan_images)
  with assms(1-3) show ?thesis unfolding RancherService_Pull_def by fastforce
qed

text \<open>
  A pull whose first reload fails is reported as finished, though its task is in transition: the error of
  \<open>WaitFor\<close> is dropped, and no host has reported yet.
\<close>

lemma pull_unfinished_succeeds:
  assumes "ap_CreatePullTask (rx_server rx) (pull_task rx img labels) (rw_server w) = (Ok t, x)"
    "pt_Transitioning t = ''yes''" "pt_Status t = []" "ap_ReloadPullTask (rx_server rx) t x = (Err e, y)"
  shows "pullImage rx img labels w =
    Some (Ok (), \<lparr>rw_log = rw_log w @ [CreatePullTask (pull_task rx img labels), ReloadPullTask], rw_server = y\<rparr>)"
  using assms by (simp add: pullImage_def Let_def proc_bind_def WaitFor.simps api_def printStatus_def)

text \<open>What is remembered of a host never goes back: nothing, then that it was started, then its last word.\<close>

lemma next_printed_stays: "v \<noteq> [] \<Longrightarrow> v \<noteq> ''start'' \<Longrightarrow> next_printed v status = v"
  by (simp add: next_printed_def)

end
