(* ===== verification/Client.thy ===== *)
theory Client
  imports Go_World
begin

text \<open>
  The hand-written base of the Rancher API client, \<open>go-rancher/client/common.go\<close>: every typed operation of
  the generated client is one of these calls on the schema of its resource type.

  Parameters: the HTTP server (\<open>he_serve\<close>), what \<open>http.NewRequest\<close> says of a method and URL, the
  query editing of \<open>net/url\<close>, and the JSON codec.
\<close>

section \<open>Requests and responses\<close>

record http_request =
  rq_Method :: string
  rq_Url :: string
  rq_Body :: "string option"
  rq_Auth :: "string \<times> string"

record http_response =
  rp_StatusCode :: int
  rp_Status :: string
  rp_Header :: "string \<Rightarrow> string"
  rp_Body :: "string go"

text \<open>The world: the requests sent so far, and the server.\<close>

record 'x net =
  net_log :: "http_request list"
  net_server :: 'x

record Resource =
  res_Id :: string
  res_Type :: string
  res_Links :: "string \<rightharpoonup> string"
  res_Actions :: "string \<rightharpoonup> string"

record Schema =
  sch_Id :: string
  sch_Links :: "string \<rightharpoonup> string"
  sch_PluralName :: string
  sch_ResourceMethods :: "string list"
  sch_CollectionMethods :: "string list"

record ClientOpts =
  co_Url :: string
  co_AccessKey :: string
  co_SecretKey :: string

record RancherBaseClient =
  rb_Opts :: ClientOpts
  rb_Types :: "string \<rightharpoonup> Schema"

text \<open>
  \<open>he_Fields\<close> is \<open>json.Unmarshal\<close> into a map, each value rendered by \<open>%v\<close> (\<open>None\<close> for a null).
\<close>

record ('x, 'j) http_env =
  he_serve :: "http_request \<Rightarrow> 'x \<Rightarrow> http_response go \<times> 'x"
  he_NewRequest :: "string \<Rightarrow> string \<Rightarrow> unit go"
  he_AddQuery :: "string \<Rightarrow> (string \<times> string) list \<Rightarrow> string go"
  he_Marshal :: "'j \<Rightarrow> string go"
  he_Unmarshal :: "string \<Rightarrow> 'j go"
  he_Fields :: "string \<Rightarrow> (string \<times> string option) list option"
  he_Schemas :: "string \<Rightarrow> Schema list go"

type_synonym ('x, 'a) net_act = "('x net, 'a) act"

text \<open>\<open>client.Do(req)\<close> for a request of \<open>http.NewRequest\<close> with basic authentication.\<close>

definition http_Do :: "('x, 'j) http_env \<Rightarrow> http_request \<Rightarrow> ('x, http_response) net_act" where
  "http_Do he req w = (case he_serve he req (net_server w) of
     (resp, x) \<Rightarrow> (resp, \<lparr>net_log = net_log w @ [req], net_server = x\<rparr>))"

definition new_request :: "('x, 'j) http_env \<Rightarrow> ClientOpts \<Rightarrow> string \<Rightarrow> string \<Rightarrow> string option \<Rightarrow>
    ('x, http_request) net_act" where
  "new_request he opts method url body =
     act_bind (act_lift (he_NewRequest he method url)) (\<lambda>_.
       act_return \<lparr>rq_Method = method, rq_Url = url, rq_Body = body, rq_Auth = (co_AccessKey opts, co_SecretKey opts)\<rparr>)"

text \<open>The text of an \<open>ApiError\<close>; the fields the error does not repeat are removed.\<close>

definition api_error_body :: "('x, 'j) http_env \<Rightarrow> http_response \<Rightarrow> string" where
  "api_error_body he resp =
     (let contents = (case rp_Body resp of Ok b \<Rightarrow> b | _ \<Rightarrow> []);
          body = (case rp_Body resp of Ok b \<Rightarrow> b | _ \<Rightarrow> ''Unreadable body.'')
      in case he_Fields he contents of
           None \<Rightarrow> body
         | Some data \<Rightarrow> join '', '' (map (\<lambda>(k, v). k @ ''='' @ the v)
             (filter (\<lambda>(k, v). k \<notin> {''id'', ''links'', ''actions'', ''type'', ''status''} \<and> v \<noteq> None) data)))"

definition newApiError :: "('x, 'j) http_env \<Rightarrow> http_response \<Rightarrow> string \<Rightarrow> string" where
  "newApiError he resp url =
     ''Bad response statusCode ['' @ show_int (rp_StatusCode resp) @ '']. Status ['' @ rp_Status resp @ '']. Body: ['' @
       api_error_body he resp @ ''] from ['' @ url @ '']''"

definition client_contains :: "string list \<Rightarrow> string \<Rightarrow> bool" where
  "client_contains array item \<longleftrightarrow> list_ex (\<lambda>check. check = item) array"

definition appendFilters :: "('x, 'j) http_env \<Rightarrow> string \<Rightarrow> (string \<times> string) list \<Rightarrow> string go" where
  "appendFilters he urlString filters =
     (if length filters = 0 then Ok urlString else he_AddQuery he urlString filters)"

section \<open>The calls\<close>

definition doDelete :: "('x, 'j) http_env \<Rightarrow> RancherBaseClient \<Rightarrow> string \<Rightarrow> ('x, unit) net_act" where
  "doDelete he client url =
     act_bind (new_request he (rb_Opts client) ''DELETE'' url None) (\<lambda>req.
     act_bind (http_Do he req) (\<lambda>resp.
       if 300 \<le> rp_StatusCode resp then act_fail (newApiError he resp url) else act_return ()))"

definition doGet :: "('x, 'j) http_env \<Rightarrow> RancherBaseClient \<Rightarrow> string \<Rightarrow> (string \<times> string) list \<Rightarrow> ('x, 'j) net_act" where
  "doGet he client url filters =
     act_bind (act_lift (appendFilters he url filters)) (\<lambda>url.
     act_bind (new_request he (rb_Opts client) ''GET'' url None) (\<lambda>req.
     act_bind (http_Do he req) (\<lambda>resp.
       if rp_StatusCode resp \<noteq> 200 then act_fail (newApiError he resp url)
       else act_bind (act_lift (rp_Body resp)) (\<lambda>byteContent. act_lift (he_Unmarshal he byteContent)))))"

text \<open>An empty response leaves the response object alone: the result is \<open>None\<close>.\<close>

definition doModify :: "('x, 'j) http_env \<Rightarrow> RancherBaseClient \<Rightarrow> string \<Rightarrow> string \<Rightarrow> 'j \<Rightarrow> ('x, 'j option) net_act" where
  "doModify he client method url createObj =
     act_bind (act_lift (he_Marshal he createObj)) (\<lambda>bodyContent.
     act_bind (new_request he (rb_Opts client) method url (Some bodyContent)) (\<lambda>req.
     act_bind (http_Do he req) (\<lambda>resp.
       if 300 \<le> rp_StatusCode resp then act_fail (newApiError he resp url)
       else act_bind (act_lift (rp_Body resp)) (\<lambda>byteContent.
         if length byteContent > 0
         then act_bind (act_lift (he_Unmarshal he byteContent)) (\<lambda>j. act_return (Some j))
         else act_return None))))"

definition unknown_schema :: "string \<Rightarrow> string" where
  "unknown_schema schemaType = ''Unknown schema type ['' @ schemaType @ '']''"

definition doList :: "('x, 'j) http_env \<Rightarrow> RancherBaseClient \<Rightarrow> string \<Rightarrow> (string \<times> string) list \<Rightarrow> ('x, 'j) net_act" where
  "doList he client schemaType filters = (case rb_Types client schemaType of
     None \<Rightarrow> act_fail (unknown_schema schemaType)
   | Some schema \<Rightarrow>
       if \<not> client_contains (sch_CollectionMethods schema) ''GET''
       then act_fail (''Resource type ['' @ schemaType @ ''] is not listable'')
       else (case sch_Links schema ''collection'' of
           None \<Rightarrow> act_fail (''Failed to find collection URL for ['' @ schemaType @ '']'')
         | Some collectionUrl \<Rightarrow> doGet he client collectionUrl filters))"

definition Post :: "('x, 'j) http_env \<Rightarrow> RancherBaseClient \<Rightarrow> string \<Rightarrow> 'j \<Rightarrow> ('x, 'j option) net_act" where
  "Post he client url createObj = doModify he client ''POST'' url createObj"

definition GetLink :: "('x, 'j) http_env \<Rightarrow> RancherBaseClient \<Rightarrow> Resource \<Rightarrow> string \<Rightarrow> ('x, 'j) net_act" where
  "GetLink he client resource link =
     (let url = (case res_Links resource link of None \<Rightarrow> [] | Some u \<Rightarrow> u)
      in if url = [] then act_fail (''Failed to find link: '' @ link) else doGet he client url [])"

text \<open>The fallback URL of \<open>doCreate\<close>: \<open>schemas.*\<close> in the self link becomes the plural name.\<close>

function replace_schemas :: "string \<Rightarrow> string \<Rightarrow> string" where
  "replace_schemas plural s =
     (if has_prefix s ''schemas''
      then plural @ replace_schemas plural (dropWhile (\<lambda>c. c \<noteq> CHR 0x0A) (drop 7 s))
      else (case s of [] \<Rightarrow> [] | c # cs \<Rightarrow> c # replace_schemas plural cs))"
  by pat_completeness auto
termination
proof (relation "measure (\<lambda>(_, s). length s)")
  fix plural s assume "has_prefix s ''schemas''"
  then have "length s \<ge> 7" by (auto simp: has_prefix_def dest: arg_cong [of _ _ length])
  then show "((plural, dropWhile (\<lambda>c. c \<noteq> CHR 0x0A) (drop 7 s)), plural, s) \<in> measure (\<lambda>(_, s). length s)"
    using length_dropWhile_le [of "\<lambda>c. c \<noteq> CHR 0x0A" "drop 7 s"] by simp
qed auto

declare replace_schemas.simps [simp del]

definition doCreate :: "('x, 'j) http_env \<Rightarrow> RancherBaseClient \<Rightarrow> string \<Rightarrow> 'j \<Rightarrow> ('x, 'j option) net_act" where
  "doCreate he client schemaType createObj = (case rb_Types client schemaType of
     None \<Rightarrow> act_fail (unknown_schema schemaType)
   | Some schema \<Rightarrow>
       if \<not> client_contains (sch_CollectionMethods schema) ''POST''
       then act_fail (''Resource type ['' @ schemaType @ ''] is not creatable'')
       else (let collectionUrl = (case sch_Links schema ''collection'' of
                 Some url \<Rightarrow> url
               | None \<Rightarrow> replace_schemas (sch_PluralName schema)
                   (case sch_Links schema ''self'' of None \<Rightarrow> [] | Some u \<Rightarrow> u))
             in doModify he client ''POST'' collectionUrl createObj))"

text \<open>\<open>existing\<close> is nil where the model has \<open>None\<close>; \<open>shown\<close> is its rendering by \<open>%v\<close>.\<close>

definition doUpdate :: "('x, 'j) http_env \<Rightarrow> RancherBaseClient \<Rightarrow> (Resource \<Rightarrow> string) \<Rightarrow> string \<Rightarrow> Resource option \<Rightarrow> 'j \<Rightarrow>
    ('x, 'j option) net_act" where
  "doUpdate he client shown schemaType existing updates = (case existing of
     None \<Rightarrow> act_fail ''Existing object is nil''
   | Some existing \<Rightarrow> (case res_Links existing ''self'' of
       None \<Rightarrow> act_fail (''Failed to find self URL of ['' @ shown existing @ '']'')
     | Some selfUrl \<Rightarrow> (case rb_Types client schemaType of
         None \<Rightarrow> act_fail (unknown_schema schemaType)
       | Some schema \<Rightarrow>
           if \<not> client_contains (sch_ResourceMethods schema) ''PUT''
           then act_fail (''Resource type ['' @ schemaType @ ''] is not updatable'')
           else doModify he client ''PUT'' selfUrl updates)))"

definition doById :: "('x, 'j) http_env \<Rightarrow> RancherBaseClient \<Rightarrow> string \<Rightarrow> string \<Rightarrow> ('x, 'j) net_act" where
  "doById he client schemaType ident = (case rb_Types client schemaType of
     None \<Rightarrow> act_fail (unknown_schema schemaType)
   | Some schema \<Rightarrow>
       if \<not> client_contains (sch_ResourceMethods schema) ''GET''
       then act_fail (''Resource type ['' @ schemaType @ ''] can not be looked up by ID'')
       else (case sch_Links schema ''collection'' of
           None \<Rightarrow> act_fail (''Failed to find collection URL for ['' @ schemaType @ '']'')
         | Some collectionUrl \<Rightarrow> doGet he client (collectionUrl @ ''/'' @ ident) []))"

definition doResourceDelete :: "('x, 'j) http_env \<Rightarrow> RancherBaseClient \<Rightarrow> (Resource \<Rightarrow> string) \<Rightarrow> string \<Rightarrow> Resource \<Rightarrow>
    ('x, unit) net_act" where
  "doResourceDelete he client shown schemaType existing = (case rb_Types client schemaType of
     None \<Rightarrow> act_fail (unknown_schema schemaType)
   | Some schema \<Rightarrow>
       if \<not> client_contains (sch_ResourceMethods schema) ''DELETE''
       then act_fail (''Resource type ['' @ schemaType @ ''] can not be deleted'')
       else (case res_Links existing ''self'' of
           None \<Rightarrow> act_fail (''Failed to find self URL of ['' @ shown existing @ '']'')
         | Some selfUrl \<Rightarrow> doDelete he client selfUrl))"

definition Reload :: "('x, 'j) http_env \<Rightarrow> RancherBaseClient \<Rightarrow> (Resource \<Rightarrow> string) \<Rightarrow> Resource \<Rightarrow> ('x, 'j) net_act" where
  "Reload he client shown existing = (case res_Links existing ''self'' of
     None \<Rightarrow> act_fail (''Failed to find self URL of ['' @ shown existing @ '']'')
   | Some selfUrl \<Rightarrow> doGet he client selfUrl [])"

definition doAction :: "('x, 'j) http_env \<Rightarrow> RancherBaseClient \<Rightarrow> (Resource \<Rightarrow> string) \<Rightarrow> string \<Rightarrow> string \<Rightarrow>
    Resource option \<Rightarrow> 'j option \<Rightarrow> ('x, 'j) net_act" where
  "doAction he client shown schemaType action existing inputObject = (case existing of
     None \<Rightarrow> act_fail ''Existing object is nil''
   | Some existing \<Rightarrow> (case res_Actions existing action of
       None \<Rightarrow> act_fail (''Action ['' @ action @ ''] not available on ['' @ shown existing @ '']'')
     | Some actionUrl \<Rightarrow>
         if rb_Types client schemaType = None then act_fail (unknown_schema schemaType)
         else act_bind (case inputObject of
               None \<Rightarrow> act_return None
             | Some j \<Rightarrow> act_bind (act_lift (he_Marshal he j)) (\<lambda>b. act_return (Some b))) (\<lambda>input.
           act_bind (new_request he (rb_Opts client) ''POST'' actionUrl input) (\<lambda>req.
           act_bind (http_Do he req) (\<lambda>resp.
             if 300 \<le> rp_StatusCode resp then act_fail (newApiError he resp actionUrl)
             else act_bind (act_lift (rp_Body resp)) (\<lambda>byteContent. act_lift (he_Unmarshal he byteContent)))))))"

section \<open>Connecting\<close>

text \<open>
  \<open>setupRancherBaseClient\<close>: the schemas, by way of the header of a first request.  The second
  \<open>http.NewRequest\<close> is used before its error is looked at, a nil dereference when it failed.
\<close>

definition setupRancherBaseClient :: "('x, 'j) http_env \<Rightarrow> ClientOpts \<Rightarrow> ('x, RancherBaseClient) net_act" where
  "setupRancherBaseClient he opts =
     act_bind (new_request he opts ''GET'' (co_Url opts) None) (\<lambda>req.
     act_bind (http_Do he req) (\<lambda>resp.
       if rp_StatusCode resp \<noteq> 200 then act_fail (newApiError he resp (co_Url opts))
       else (let schemasUrls = rp_Header resp ''X-API-Schemas'' in
         if schemasUrls = [] then act_fail (''Failed to find schema at ['' @ co_Url opts @ '']'')
         else act_bind
           (if schemasUrls \<noteq> co_Url opts then
              (case he_NewRequest he ''GET'' schemasUrls of
                 Ok _ \<Rightarrow>
                   act_bind (new_request he opts ''GET'' schemasUrls None) (\<lambda>req.
                   act_bind (http_Do he req) (\<lambda>resp.
                     if rp_StatusCode resp \<noteq> 200 then act_fail (newApiError he resp (co_Url opts))
                     else act_return resp))
               | _ \<Rightarrow> act_lift Panic)
            else act_return resp)
           (\<lambda>resp. act_bind (act_lift (rp_Body resp)) (\<lambda>bytes.
             act_bind (act_lift (he_Schemas he bytes)) (\<lambda>schemas.
               act_return \<lparr>rb_Opts = opts,
                 rb_Types = (\<lambda>t. map_of (rev (map (\<lambda>s. (sch_Id s, s)) schemas)) t)\<rparr>))))))"

section \<open>What the client sends\<close>

text \<open>One call of the client, and whether the client's schemas (or the resource) permit the request it sends.\<close>

datatype 'j client_call =
    CList string "(string \<times> string) list" | CCreate string 'j | CUpdate string "Resource option" 'j
  | CById string string | CDelete string Resource | CAction string string "Resource option" "'j option"

definition run_call :: "('x, 'j) http_env \<Rightarrow> (Resource \<Rightarrow> string) \<Rightarrow> RancherBaseClient \<Rightarrow> 'j client_call \<Rightarrow> ('x, unit) net_act" where
  "run_call he shown client call = (case call of
     CList t filters \<Rightarrow> act_ignore (doList he client t filters)
   | CCreate t j \<Rightarrow> act_ignore (doCreate he client t j)
   | CUpdate t r j \<Rightarrow> act_ignore (doUpdate he client shown t r j)
   | CById t i \<Rightarrow> act_ignore (doById he client t i)
   | CDelete t r \<Rightarrow> act_ignore (doResourceDelete he client shown t r)
   | CAction t a r j \<Rightarrow> act_ignore (doAction he client shown t a r j))"

definition schema_permits :: "RancherBaseClient \<Rightarrow> (Schema \<Rightarrow> string list) \<Rightarrow> string \<Rightarrow> string \<Rightarrow> bool" where
  "schema_permits client methods t m \<longleftrightarrow>
     (case rb_Types client t of None \<Rightarrow> False | Some s \<Rightarrow> m \<in> set (methods s))"

definition permitted :: "RancherBaseClient \<Rightarrow> 'j client_call \<Rightarrow> http_request \<Rightarrow> bool" where
  "permitted client call r \<longleftrightarrow> (case call of
     CList t _ \<Rightarrow> rq_Method r = ''GET'' \<and> schema_permits client sch_CollectionMethods t ''GET''
   | CCreate t _ \<Rightarrow> rq_Method r = ''POST'' \<and> schema_permits client sch_CollectionMethods t ''POST''
   | CUpdate t (Some x) _ \<Rightarrow> rq_Method r = ''PUT'' \<and> schema_permits client sch_ResourceMethods t ''PUT'' \<and>
       res_Links x ''self'' = Some (rq_Url r)
   | CUpdate t None _ \<Rightarrow> False
   | CById t _ \<Rightarrow> rq_Method r = ''GET'' \<and> schema_permits client sch_ResourceMethods t ''GET''
   | CDelete t x \<Rightarrow> rq_Method r = ''DELETE'' \<and> schema_permits client sch_ResourceMethods t ''DELETE'' \<and>
       res_Links x ''self'' = Some (rq_Url r)
   | CAction t a (Some x) _ \<Rightarrow> rq_Method r = ''POST'' \<and> rb_Types client t \<noteq> None \<and>
       res_Actions x a = Some (rq_Url r)
   | CAction t a None _ \<Rightarrow> False)"

text \<open>At most one request, with the client's credentials, that satisfies \<open>P\<close>.\<close>

definition sends :: "RancherBaseClient \<Rightarrow> (http_request \<Rightarrow> bool) \<Rightarrow> ('x, 'a) net_act \<Rightarrow> bool" where
  "sends client P m \<longleftrightarrow> (\<forall>w. net_log (snd (m w)) = net_log w \<or>
     (\<exists>r. net_log (snd (m w)) = net_log w @ [r] \<and> P r \<and>
        rq_Auth r = (co_AccessKey (rb_Opts client), co_SecretKey (rb_Opts client))))"

definition quiet :: "('x, 'a) net_act \<Rightarrow> bool" where
  "quiet m \<longleftrightarrow> (\<forall>w. snd (m w) = w)"

named_theorems sends_intro

lemma quiet_rules [sends_intro]:
  "quiet (act_return a)" "quiet (act_fail e)" "quiet (act_lift r)"
  by (simp_all add: quiet_def)

lemma quiet_bind [sends_intro]: "quiet m \<Longrightarrow> (\<And>a. quiet (f a)) \<Longrightarrow> quiet (act_bind m f)"
  unfolding quiet_def act_bind_def by (auto split: go.splits prod.splits, (metis snd_conv)+)

lemma quiet_sends: "quiet m \<Longrightarrow> sends client P m"
  by (simp add: quiet_def sends_def)

lemma sends_after_quiet: "quiet m \<Longrightarrow> (\<And>a. sends client P (f a)) \<Longrightarrow> sends client P (act_bind m f)"
  unfolding quiet_def sends_def act_bind_def by (auto split: go.splits prod.splits, (metis snd_conv)+)

lemma sends_ignore: "sends client P m \<Longrightarrow> sends client P (act_ignore m)"
  unfolding sends_def act_ignore_def act_bind_def act_try_def
  by (auto split: go.splits prod.splits) (metis snd_conv)+

text \<open>A request that is sent and then only looked at.\<close>

lemma sends_request:
  assumes "\<And>req. rq_Method req = method \<Longrightarrow> rq_Url req = url \<Longrightarrow> P req" "\<And>resp. quiet (k resp)"
  shows "sends client P (act_bind (new_request he (rb_Opts client) method url body) (\<lambda>req.
    act_bind (http_Do he req) k))"
proof -
  have k: "snd (k resp w) = w" for resp w using assms(2) by (simp add: quiet_def)
  show ?thesis
    unfolding sends_def new_request_def http_Do_def act_bind_def act_lift_def act_return_def
    using assms(1) k by (auto split: go.splits prod.splits)
qed

lemma doGet_sends:
  "(\<And>req. rq_Method req = ''GET'' \<Longrightarrow> P req) \<Longrightarrow> sends client P (doGet he client url filters)"
  unfolding doGet_def
  by (intro sends_after_quiet sends_request) (auto intro!: sends_intro)

lemma doDelete_sends:
  "(\<And>req. rq_Method req = ''DELETE'' \<Longrightarrow> rq_Url req = url \<Longrightarrow> P req) \<Longrightarrow> sends client P (doDelete he client url)"
  unfolding doDelete_def by (intro sends_request) (auto intro!: sends_intro)

lemma doModify_sends:
  "(\<And>req. rq_Method req = method \<Longrightarrow> rq_Url req = url \<Longrightarrow> P req) \<Longrightarrow>
     sends client P (doModify he client method url j)"
  unfolding doModify_def
  by (intro sends_after_quiet sends_request) (auto intro!: sends_intro)

lemma client_contains_iff [simp]: "client_contains xs x \<longleftrightarrow> x \<in> set xs"
  by (auto simp: client_contains_def list_ex_iff)

lemma schema_permitsI: "rb_Types client t = Some s \<Longrightarrow> m \<in> set (methods s) \<Longrightarrow> schema_permits client methods t m"
  by (simp add: schema_permits_def)

lemma fail_sends: "sends client P (act_fail e)" "sends client P (act_return a)"
  by (simp_all add: quiet_sends quiet_def)

lemma doAction_sends:
  assumes "\<And>x req. existing = Some x \<Longrightarrow> rb_Types client t \<noteq> None \<Longrightarrow> rq_Method req = ''POST'' \<Longrightarrow>
    res_Actions x a = Some (rq_Url req) \<Longrightarrow> P req"
  shows "sends client P (doAction he client shown t a existing j)"
proof (cases existing)
  case (Some x)
  show ?thesis
  proof (cases "res_Actions x a")
    case url: (Some url)
    show ?thesis
    proof (cases "rb_Types client t = None")
      case False
      have "quiet (case j of None \<Rightarrow> act_return None
          | Some j \<Rightarrow> act_bind (act_lift (he_Marshal he j)) (\<lambda>b. act_return (Some b)))"
        by (auto intro!: sends_intro split: option.split)
      then show ?thesis
        using Some url False assms unfolding doAction_def
        by (auto intro!: sends_after_quiet sends_request sends_intro)
    qed (simp add: doAction_def Some url fail_sends)
  qed (simp add: doAction_def Some fail_sends)
qed (simp add: doAction_def fail_sends)

section \<open>Properties\<close>

text \<open>
  C35: The client's requests.  Every call sends at most one request; it carries the access and the secret
  key of the client's options, and it is sent only when the resource type's schema (for an action or an
  update, the resource itself) permits it.
\<close>

theorem client_call_requests:
  "net_log (snd (run_call he shown client call w)) = net_log w \<or>
   (\<exists>r. net_log (snd (run_call he shown client call w)) = net_log w @ [r] \<and> permitted client call r \<and>
      rq_Auth r = (co_AccessKey (rb_Opts client), co_SecretKey (rb_Opts client)))"
proof -
  have "sends client (permitted client call) (run_call he shown client call)"
  proof (cases call)
    case (CList t filters)
    then show ?thesis
      by (auto simp: run_call_def doList_def permitted_def fail_sends schema_permitsI
          intro!: sends_ignore doGet_sends split: option.splits)
  next
    case (CCreate t j)
    then show ?thesis
      by (auto simp: run_call_def doCreate_def permitted_def fail_sends schema_permitsI Let_def
          intro!: sends_ignore doModify_sends split: option.splits)
  next
    case (CUpdate t r j)
    then show ?thesis
      by (cases r) (auto simp: run_call_def doUpdate_def permitted_def fail_sends schema_permitsI
          intro!: sends_ignore doModify_sends split: option.split)
  next
    case (CById t i)
    then show ?thesis
      by (auto simp: run_call_def doById_def permitted_def fail_sends schema_permitsI
          intro!: sends_ignore doGet_sends split: option.splits)
  next
    case (CDelete t r)
    then show ?thesis
      by (auto simp: run_call_def doResourceDelete_def permitted_def fail_sends schema_permitsI
          intro!: sends_ignore doDelete_sends split: option.splits)
  next
    case (CAction t a r j)
    then show ?thesis
      by (auto simp: run_call_def permitted_def intro!: sends_ignore doAction_sends)
  qed
  then show ?thesis by (simp add: sends_def)
qed

text \<open>
  Connecting crashes on a bad header.  When the first answer names a schema URL that
  \<open>http.NewRequest\<close> refuses, the request is used before its error is checked: the process panics
  where the code means to return the error.
\<close>

theorem setup_bad_schema_url_panics:
  assumes "he_NewRequest he ''GET'' (co_Url opts) = Ok ()"
    "he_serve he \<lparr>rq_Method = ''GET'', rq_Url = co_Url opts, rq_Body = None,
       rq_Auth = (co_AccessKey opts, co_SecretKey opts)\<rparr> (net_server w) = (Ok resp, x)"
    "rp_StatusCode resp = 200" "rp_Header resp ''X-API-Schemas'' \<notin> {[], co_Url opts}"
    "he_NewRequest he ''GET'' (rp_Header resp ''X-API-Schemas'') = Err e"
  shows "fst (setupRancherBaseClient he opts w) = Panic"
  using assms by (simp add: setupRancherBaseClient_def new_request_def http_Do_def act_bind_def Let_def)

definition sample_http :: "(unit, unit) http_env" where
  "sample_http = \<lparr>he_serve = (\<lambda>r x. (Ok \<lparr>rp_StatusCode = 200, rp_Status = ''200 OK'',
       rp_Header = (\<lambda>_. ''http://[::1''), rp_Body = Ok []\<rparr>, x)),
     he_NewRequest = (\<lambda>m u. if u = ''http://[::1'' then Err ''missing ] in host'' else Ok ()),
     he_AddQuery = (\<lambda>u _. Ok u), he_Marshal = (\<lambda>_. Ok []), he_Unmarshal = (\<lambda>_. Ok ()),
     he_Fields = (\<lambda>_. None), he_Schemas = (\<lambda>_. Ok [])\<rparr>"

theorem setup_bad_schema_url_panics_witness:
  "fst (setupRancherBaseClient sample_http \<lparr>co_Url = ''http://cattle'', co_AccessKey = [], co_SecretKey = []\<rparr>
     \<lparr>net_log = [], net_server = ()\<rparr>) = Panic"
  by (rule setup_bad_schema_url_panics [where e = "''missing ] in host''" and x = "()" and
        resp = "\<lparr>rp_StatusCode = 200, rp_Status = ''200 OK'', rp_Header = (\<lambda>_. ''http://[::1''), rp_Body = Ok []\<rparr>"])
    (simp_all add: sample_http_def)

end
