(* ===== verification/Rancher_Http.thy ===== *)
theory Rancher_Http
  imports Rancher_Pull Client
begin

text \<open>
  The server of \<open>Rancher_Api\<close> as the generated API client reaches it: the calls of \<open>go-rancher/client/generated_*.go\<close> that the
  services and the context use, over the client base and an HTTP server.
\<close>

section \<open>The codec\<close>

text \<open>
  The JSON forms are parameters.  Decoding is into a value: what the JSON does not mention keeps the value's
  field, as \<open>json.Unmarshal\<close> does when a resource is reloaded in place.
\<close>

record 'j codec =
  en_Service :: "NormalService \<Rightarrow> 'j"
  en_Scale :: "int \<Rightarrow> 'j"
  en_Links :: "service_link list \<Rightarrow> 'j"
  en_Stack :: "Stack \<Rightarrow> 'j"
  en_External :: "ExternalService \<Rightarrow> 'j"
  en_Dns :: "DnsService \<Rightarrow> 'j"
  en_LoadBalancer :: "LoadBalancerService \<Rightarrow> 'j"
  en_Inspect :: "ContainerInspect \<Rightarrow> 'j"
  en_PullTask :: "PullTask \<Rightarrow> 'j"
  de_Service :: "Service \<Rightarrow> 'j \<Rightarrow> Service go"
  de_Services :: "'j \<Rightarrow> Service list go"
  de_Stack :: "Stack \<Rightarrow> 'j \<Rightarrow> Stack go"
  de_Stacks :: "'j \<Rightarrow> Stack list go"
  de_Typed :: "'j \<Rightarrow> unit go"
  de_LaunchConfig :: "LaunchConfig \<Rightarrow> 'j \<Rightarrow> LaunchConfig go"
  de_Instance :: "Instance \<Rightarrow> 'j \<Rightarrow> Instance go"
  de_Containers :: "'j \<Rightarrow> Instance list go"
  de_Certificates :: "'j \<Rightarrow> string list go"
  de_Setting :: "'j \<Rightarrow> string go"
  de_PullTask :: "PullTask \<Rightarrow> 'j \<Rightarrow> PullTask go"

definition Stack_zero :: Stack where
  "Stack_zero = \<lparr>stk_Id = [], stk_Name = []\<rparr>"

definition LaunchConfig_zero :: LaunchConfig where
  "LaunchConfig_zero = \<lparr>lc_Transformed = [], lc_ImageUuid = [], lc_NetworkMode = [], lc_NetworkLaunchConfig = [],
     lc_DataVolumesFromLaunchConfigs = [], lc_Build = None, lc_HealthCheck = None, lc_Ports = [], lc_Expose = []\<rparr>"

definition Instance_zero :: Instance where
  "Instance_zero = \<lparr>ins_Id = [], ins_Name = [], ins_Uuid = [], ins_State = [], ins_Transitioning = [], ins_Type = [],
     ins_Links = Map.empty, ins_Actions = Map.empty\<rparr>"

definition PullTask_zero :: PullTask where
  "PullTask_zero = \<lparr>pt_Id = [], pt_Type = [], pt_Links = Map.empty, pt_Actions = Map.empty, pt_Image = [], pt_Mode = [],
     pt_Labels = [], pt_Transitioning = [], pt_TransitioningMessage = [], pt_Status = []\<rparr>"

text \<open>The embedded resources.\<close>

definition service_resource :: "Service \<Rightarrow> Resource" where
  "service_resource s = \<lparr>res_Id = rsv_Id s, res_Type = rsv_Type s, res_Links = rsv_Links s, res_Actions = rsv_Actions s\<rparr>"

definition instance_resource :: "Instance \<Rightarrow> Resource" where
  "instance_resource i = \<lparr>res_Id = ins_Id i, res_Type = ins_Type i, res_Links = ins_Links i, res_Actions = ins_Actions i\<rparr>"

definition task_resource :: "PullTask \<Rightarrow> Resource" where
  "task_resource t = \<lparr>res_Id = pt_Id t, res_Type = pt_Type t, res_Links = pt_Links t, res_Actions = pt_Actions t\<rparr>"

section \<open>Typed calls\<close>

text \<open>A response that is decoded, and one whose empty body leaves the zero value.\<close>

definition decoded :: "('j \<Rightarrow> 'a go) \<Rightarrow> ('h, 'j) net_act \<Rightarrow> ('h, 'a) net_act" where
  "decoded decode m = act_bind m (\<lambda>j. act_lift (decode j))"

definition decoded_or :: "'a \<Rightarrow> ('j \<Rightarrow> 'a go) \<Rightarrow> ('h, 'j option) net_act \<Rightarrow> ('h, 'a) net_act" where
  "decoded_or zero decode m = act_bind m (\<lambda>j. act_lift (case j of None \<Rightarrow> Ok zero | Some j \<Rightarrow> decode j))"

text \<open>The connection: the HTTP side, the codec, the client, and the text \<open>%v\<close> gives of a resource.\<close>

record ('h, 'j) api_conn =
  cn_http :: "('h, 'j) http_env"
  cn_codec :: "'j codec"
  cn_client :: RancherBaseClient
  cn_shown :: "Resource \<Rightarrow> string"

definition ServiceClient_Create :: "('h, 'j) api_conn \<Rightarrow> NormalService \<Rightarrow> ('h, Service) net_act" where
  "ServiceClient_Create cn container = decoded_or Service_zero (de_Service (cn_codec cn) Service_zero)
     (doCreate (cn_http cn) (cn_client cn) ''service'' (en_Service (cn_codec cn) container))"

definition ServiceClient_Update :: "('h, 'j) api_conn \<Rightarrow> Service \<Rightarrow> 'j \<Rightarrow> ('h, Service) net_act" where
  "ServiceClient_Update cn existing updates = decoded_or Service_zero (de_Service (cn_codec cn) Service_zero)
     (doUpdate (cn_http cn) (cn_client cn) (cn_shown cn) ''service'' (Some (service_resource existing)) updates)"

definition ServiceClient_List :: "('h, 'j) api_conn \<Rightarrow> (string \<times> string) list \<Rightarrow> ('h, Service list) net_act" where
  "ServiceClient_List cn filters =
     decoded (de_Services (cn_codec cn)) (doList (cn_http cn) (cn_client cn) ''service'' filters)"

definition ServiceClient_ById :: "('h, 'j) api_conn \<Rightarrow> string \<Rightarrow> ('h, Service) net_act" where
  "ServiceClient_ById cn i =
     decoded (de_Service (cn_codec cn) Service_zero) (doById (cn_http cn) (cn_client cn) ''service'' i)"

definition ServiceClient_Delete :: "('h, 'j) api_conn \<Rightarrow> Service \<Rightarrow> ('h, unit) net_act" where
  "ServiceClient_Delete cn container =
     doResourceDelete (cn_http cn) (cn_client cn) (cn_shown cn) ''service'' (service_resource container)"

definition service_action :: "('h, 'j) api_conn \<Rightarrow> string \<Rightarrow> Service \<Rightarrow> 'j option \<Rightarrow> ('h, Service) net_act" where
  "service_action cn action resource input = decoded (de_Service (cn_codec cn) Service_zero)
     (doAction (cn_http cn) (cn_client cn) (cn_shown cn) ''service'' action (Some (service_resource resource)) input)"

definition ServiceClient_ActionActivate :: "('h, 'j) api_conn \<Rightarrow> Service \<Rightarrow> ('h, Service) net_act" where
  "ServiceClient_ActionActivate cn resource = service_action cn ''activate'' resource None"

definition ServiceClient_ActionDeactivate :: "('h, 'j) api_conn \<Rightarrow> Service \<Rightarrow> ('h, Service) net_act" where
  "ServiceClient_ActionDeactivate cn resource = service_action cn ''deactivate'' resource None"

definition ServiceClient_ActionSetservicelinks :: "('h, 'j) api_conn \<Rightarrow> Service \<Rightarrow> service_link list \<Rightarrow> ('h, Service) net_act" where
  "ServiceClient_ActionSetservicelinks cn resource input =
     service_action cn ''setservicelinks'' resource (Some (en_Links (cn_codec cn) input))"

definition EnvironmentClient_Create :: "('h, 'j) api_conn \<Rightarrow> Stack \<Rightarrow> ('h, Stack) net_act" where
  "EnvironmentClient_Create cn container = decoded_or Stack_zero (de_Stack (cn_codec cn) Stack_zero)
     (doCreate (cn_http cn) (cn_client cn) ''environment'' (en_Stack (cn_codec cn) container))"

definition EnvironmentClient_List :: "('h, 'j) api_conn \<Rightarrow> (string \<times> string) list \<Rightarrow> ('h, Stack list) net_act" where
  "EnvironmentClient_List cn filters =
     decoded (de_Stacks (cn_codec cn)) (doList (cn_http cn) (cn_client cn) ''environment'' filters)"

definition ExternalServiceClient_Create :: "('h, 'j) api_conn \<Rightarrow> ExternalService \<Rightarrow> ('h, unit) net_act" where
  "ExternalServiceClient_Create cn container = decoded_or () (de_Typed (cn_codec cn))
     (doCreate (cn_http cn) (cn_client cn) ''externalService'' (en_External (cn_codec cn) container))"

definition DnsServiceClient_Create :: "('h, 'j) api_conn \<Rightarrow> DnsService \<Rightarrow> ('h, unit) net_act" where
  "DnsServiceClient_Create cn container = decoded_or () (de_Typed (cn_codec cn))
     (doCreate (cn_http cn) (cn_client cn) ''dnsService'' (en_Dns (cn_codec cn) container))"

definition LoadBalancerServiceClient_Create :: "('h, 'j) api_conn \<Rightarrow> LoadBalancerService \<Rightarrow> ('h, unit) net_act" where
  "LoadBalancerServiceClient_Create cn container = decoded_or () (de_Typed (cn_codec cn))
     (doCreate (cn_http cn) (cn_client cn) ''loadBalancerService'' (en_LoadBalancer (cn_codec cn) container))"

definition CertificateClient_List :: "('h, 'j) api_conn \<Rightarrow> (string \<times> string) list \<Rightarrow> ('h, string list) net_act" where
  "CertificateClient_List cn filters =
     decoded (de_Certificates (cn_codec cn)) (doList (cn_http cn) (cn_client cn) ''certificate'' filters)"

definition SettingClient_ById :: "('h, 'j) api_conn \<Rightarrow> string \<Rightarrow> ('h, string) net_act" where
  "SettingClient_ById cn i = decoded (de_Setting (cn_codec cn)) (doById (cn_http cn) (cn_client cn) ''setting'' i)"

definition PullTaskClient_Create :: "('h, 'j) api_conn \<Rightarrow> PullTask \<Rightarrow> ('h, PullTask) net_act" where
  "PullTaskClient_Create cn container = decoded_or PullTask_zero (de_PullTask (cn_codec cn) PullTask_zero)
     (doCreate (cn_http cn) (cn_client cn) ''pullTask'' (en_PullTask (cn_codec cn) container))"

definition ContainerClient_ActionRestart :: "('h, 'j) api_conn \<Rightarrow> Instance \<Rightarrow> ('h, Instance) net_act" where
  "ContainerClient_ActionRestart cn resource = decoded (de_Instance (cn_codec cn) Instance_zero)
     (doAction (cn_http cn) (cn_client cn) (cn_shown cn) ''container'' ''restart'' (Some (instance_resource resource)) None)"

section \<open>The server\<close>

text \<open>\<open>"removed_null": nil\<close> is sent as the text of nil.\<close>

definition not_removed :: "string \<times> string" where
  "not_removed = (''removed_null'', ''<nil>'')"

text \<open>The calls as \<open>service.go\<close>, \<open>certs.go\<close> and \<open>context.go\<close> make them.\<close>

definition http_server :: "('h, 'j) api_conn \<Rightarrow> 'h net rancher_server" where
  "http_server cn =
     \<lparr>ap_ListServices = (\<lambda>environmentId name.
        ServiceClient_List cn [(''environmentId'', environmentId), (''name'', name), not_removed]),
      ap_ListStacks = (\<lambda>name. EnvironmentClient_List cn
        (case name of None \<Rightarrow> [not_removed] | Some n \<Rightarrow> [(''name'', n), not_removed])),
      ap_CreateStack = (\<lambda>name. EnvironmentClient_Create cn (Stack_zero\<lparr>stk_Name := name\<rparr>)),
      ap_CreateExternalService = ExternalServiceClient_Create cn,
      ap_CreateDnsService = DnsServiceClient_Create cn,
      ap_CreateLoadBalancerService = LoadBalancerServiceClient_Create cn,
      ap_CreateNormalService = ServiceClient_Create cn,
      ap_SetServiceLinks = (\<lambda>s ls. act_bind (ServiceClient_ActionSetservicelinks cn s ls) (\<lambda>_. act_return ())),
      ap_Activate = ServiceClient_ActionActivate cn,
      ap_Deactivate = ServiceClient_ActionDeactivate cn,
      ap_DeleteService = ServiceClient_Delete cn,
      ap_ScaleService = (\<lambda>s count. ServiceClient_Update cn s (en_Scale (cn_codec cn) count)),
      ap_ReloadService = (\<lambda>s. decoded (de_Service (cn_codec cn) s)
        (Reload (cn_http cn) (cn_client cn) (cn_shown cn) (service_resource s))),
      ap_PostTransform = (\<lambda>url container. decoded_or LaunchConfig_zero (de_LaunchConfig (cn_codec cn) LaunchConfig_zero)
        (Post (cn_http cn) (cn_client cn) url (en_Inspect (cn_codec cn) container))),
      ap_GetInstances = (\<lambda>s. decoded (de_Containers (cn_codec cn))
        (GetLink (cn_http cn) (cn_client cn) (service_resource s) ''instances'')),
      ap_RestartContainer = ContainerClient_ActionRestart cn,
      ap_ReloadInstance = (\<lambda>i. decoded (de_Instance (cn_codec cn) i)
        (Reload (cn_http cn) (cn_client cn) (cn_shown cn) (instance_resource i))),
      ap_ListCertificates = (\<lambda>name. CertificateClient_List cn [not_removed, (''name'', name)]),
      ap_GetSetting = SettingClient_ById cn,
      ap_CreatePullTask = PullTaskClient_Create cn,
      ap_ReloadPullTask = (\<lambda>t. decoded (de_PullTask (cn_codec cn) t)
        (Reload (cn_http cn) (cn_client cn) (cn_shown cn) (task_resource t)))\<rparr>"

section \<open>Running an operation\<close>

text \<open>The operations of a \<open>RancherService\<close>, and the pull of one image.\<close>

datatype service_request =
    ReqCreate | ReqUp | ReqStart | ReqDown | ReqDelete | ReqScale int | ReqRestart | ReqContainers
  | ReqPullImage string "(string \<times> string) list"

fun run_service :: "'x rancher_env \<Rightarrow> RancherService \<Rightarrow> service_request \<Rightarrow> ('x, unit) api_proc" where
  "run_service rx r ReqCreate = RancherService_Create rx r"
| "run_service rx r ReqUp = RancherService_Up rx r"
| "run_service rx r ReqStart = RancherService_Start rx r"
| "run_service rx r ReqDown = RancherService_Down rx r"
| "run_service rx r ReqDelete = RancherService_Delete rx r"
| "run_service rx r (ReqScale count) = RancherService_Scale rx r count"
| "run_service rx r ReqRestart = RancherService_Restart rx r"
| "run_service rx r ReqContainers = proc_bind (proc_act (RancherService_Containers rx r)) (\<lambda>_. proc_return ())"
| "run_service rx r (ReqPullImage img labels) = pullImage rx img labels"

text \<open>
  A relation that every call to the server keeps is kept by every operation.
\<close>

locale operations = lookups rx R
  for rx :: "'x rancher_env" and R :: "'x rancher_world \<Rightarrow> 'x rancher_world \<Rightarrow> bool" +
  assumes create_external: "keeps R (api (CreateExternalService es) (ap_CreateExternalService (rx_server rx) es))"
    and create_dns: "keeps R (api (CreateDnsService ds) (ap_CreateDnsService (rx_server rx) ds))"
    and create_lb: "keeps R (api (CreateLoadBalancerService lb) (ap_CreateLoadBalancerService (rx_server rx) lb))"
    and create_normal: "keeps R (api (CreateNormalService ns) (ap_CreateNormalService (rx_server rx) ns))"
    and activate: "keeps R (api (Activate (rsv_Id s)) (ap_Activate (rx_server rx) s))"
    and deactivate: "keeps R (api (Deactivate (rsv_Id s)) (ap_Deactivate (rx_server rx) s))"
    and delete: "keeps R (api (DeleteService (rsv_Id s)) (ap_DeleteService (rx_server rx) s))"
    and scale: "keeps R (api (ScaleService (rsv_Id s) count) (ap_ScaleService (rx_server rx) s count))"
    and instances: "keeps R (api (GetInstances (rsv_Id s)) (ap_GetInstances (rx_server rx) s))"
    and restart: "keeps R (api (RestartContainer (ins_Id i)) (ap_RestartContainer (rx_server rx) i))"
    and reload_instance: "keeps R (api (ReloadInstance (ins_Id i)) (ap_ReloadInstance (rx_server rx) i))"
    and create_task: "keeps R (api (CreatePullTask t) (ap_CreatePullTask (rx_server rx) t))"
    and reload_task: "keeps R (api ReloadPullTask (ap_ReloadPullTask (rx_server rx) t))"
begin

lemmas run_calls = look_calls create_external create_dns create_lb create_normal activate deactivate delete scale
  instances restart create_task

lemma keeps_create_by_type: "keeps R (create_by_type rx r)"
  unfolding create_by_type_def createExternalService_def createDnsService_def createLbService_def createNormalService_def
    Let_def
  by (auto intro!: keeps_intro run_calls split: serviceType.split option.split prod.split)

lemma proc_keeps_createService [keeps_intro]: "proc_keeps R (createService rx r)"
  unfolding createService_def by (intro keeps_intro run_calls keeps_create_by_type)

lemma proc_keeps_wait_result [keeps_intro]: "keeps R m \<Longrightarrow> proc_keeps R (wait_result rx m)"
  unfolding wait_result_def by (intro keeps_intro run_calls)

lemma proc_keeps_waitInstance [keeps_intro]: "proc_keeps R (waitInstance rx i)"
proof -
  have "waitInstance rx' i w = Some y \<Longrightarrow> rx' = rx \<Longrightarrow> R w (snd y)" for rx' i w y
  proof (induction rule: waitInstance.raw_induct [rotated, consumes 1, case_names step])
    case (step W rx' i w y)
    show ?case
    proof (cases "ins_Transitioning i = ''yes''")
      case True
      obtain q v where a: "api (ReloadInstance (ins_Id i)) (ap_ReloadInstance (rx_server rx) i) w = (q, v)" by fastforce
      then have wv: "R w v" by (rule keepsD [OF reload_instance])
      show ?thesis
      proof (cases q)
        case (Ok i')
        with step a True have "R v (snd y)" by auto
        with wv show ?thesis using trans by (blast dest: transpD)
      qed (use step(2,3) a True wv in auto)
    qed (use step(2) refl in \<open>auto dest: reflpD\<close>)
  qed
  then show ?thesis by (fastforce simp: proc_keeps_def)
qed

lemma proc_keeps_WaitFor [keeps_intro]: "proc_keeps R (WaitFor rx t st)"
proof -
  have "WaitFor rx' t st w = Some y \<Longrightarrow> rx' = rx \<Longrightarrow> R w (snd y)" for rx' t st w y
  proof (induction rule: WaitFor.raw_induct [rotated, consumes 1, case_names step])
    case (step W rx' t st w y)
    show ?case
    proof (cases "pt_Transitioning t = ''yes''")
      case True
      obtain q v where a: "api ReloadPullTask (ap_ReloadPullTask (rx_server rx) t) w = (q, v)" by fastforce
      then have wv: "R w v" by (rule keepsD [OF reload_task])
      show ?thesis
      proof (cases q)
        case (Ok t')
        with step a True have "R v (snd y)" by auto
        with wv show ?thesis using trans by (blast dest: transpD)
      qed (use step(2,3) a True wv in auto)
    qed (use step(2) refl in \<open>auto dest: reflpD\<close>)
  qed
  then show ?thesis by (fastforce simp: proc_keeps_def)
qed

lemma keeps_containers [keeps_intro]: "keeps R (service_containers rx r)"
  unfolding service_containers_def by (auto intro!: keeps_intro run_calls split: option.split)

lemma proc_keeps_up [keeps_intro]: "proc_keeps R (RancherService_up rx r create)"
  unfolding RancherService_up_def by (auto intro!: keeps_intro run_calls split: option.split)

lemma proc_keeps_run: "proc_keeps R (run_service rx r c)"
  by (cases c)
    (auto simp: RancherService_Create_def RancherService_Up_def RancherService_Start_def RancherService_Down_def
      RancherService_Delete_def RancherService_Scale_def RancherService_Restart_def restart_container_def
      RancherService_Containers_def pullImage_def Let_def
      intro!: keeps_intro run_calls split: option.split prod.split)

end

section \<open>What the operations send\<close>

text \<open>Requests of the client's keys were added, at most one for each call.\<close>

definition authorised :: "RancherBaseClient \<Rightarrow> 'h net rancher_world \<Rightarrow> 'h net rancher_world \<Rightarrow> bool" where
  "authorised client w w' \<longleftrightarrow> (\<exists>calls requests.
     rw_log w' = rw_log w @ calls \<and> net_log (rw_server w') = net_log (rw_server w) @ requests \<and>
     length requests \<le> length calls \<and>
     (\<forall>req \<in> set requests. rq_Auth req = (co_AccessKey (rb_Opts client), co_SecretKey (rb_Opts client))))"

lemma authorised_refl [simp]: "reflp (authorised client)"
  unfolding reflp_def authorised_def by (auto intro: exI [of _ "[]"])

lemma authorised_trans [simp]: "transp (authorised client)"
proof (rule transpI)
  fix u v w assume "authorised client u v" "authorised client v w"
  then obtain cs rs cs' rs' where
    "rw_log v = rw_log u @ cs" "net_log (rw_server v) = net_log (rw_server u) @ rs" "length rs \<le> length cs"
    "\<forall>req \<in> set rs. rq_Auth req = (co_AccessKey (rb_Opts client), co_SecretKey (rb_Opts client))"
    "rw_log w = rw_log v @ cs'" "net_log (rw_server w) = net_log (rw_server v) @ rs'" "length rs' \<le> length cs'"
    "\<forall>req \<in> set rs'. rq_Auth req = (co_AccessKey (rb_Opts client), co_SecretKey (rb_Opts client))"
    unfolding authorised_def by blast
  then show "authorised client u w"
    unfolding authorised_def by (intro exI [of _ "cs @ cs'"] exI [of _ "rs @ rs'"]) auto
qed

text \<open>A call that sends at most one request, whatever the request.\<close>

abbreviation one :: "('h, 'j) api_conn \<Rightarrow> ('h, 'a) net_act \<Rightarrow> bool" where
  "one cn m \<equiv> sends (cn_client cn) (\<lambda>_. True) m"

lemma authorised_call: "one cn m \<Longrightarrow> keeps (authorised (cn_client cn)) (api call m)"
proof -
  assume "one cn m"
  then have s: "net_log (snd (m x)) = net_log x \<or> (\<exists>r. net_log (snd (m x)) = net_log x @ [r] \<and>
      rq_Auth r = (co_AccessKey (rb_Opts (cn_client cn)), co_SecretKey (rb_Opts (cn_client cn))))" for x
    by (simp add: sends_def)
  show ?thesis
    unfolding keeps_def
  proof
    fix w :: "'a net rancher_world"
    obtain q x where m: "m (rw_server w) = (q, x)" by fastforce
    with s [of "rw_server w"] show "authorised (cn_client cn) w (snd (api call m w))"
      unfolding authorised_def api_def
      by (auto intro!: exI [of _ "[call]"])
  qed
qed

text \<open>What is done with a response sends nothing more.\<close>

lemma sends_then_quiet:
  assumes "sends client P m" "\<And>a. quiet (f a)"
  shows "sends client P (act_bind m f)"
  unfolding sends_def
proof
  fix w
  have f: "snd (f a v) = v" for a v using assms(2) by (simp add: quiet_def)
  have "snd (act_bind m f w) = snd (m w)"
    using f by (auto simp: act_bind_def split: prod.split go.split)
  then show "net_log (snd (act_bind m f w)) = net_log w \<or>
      (\<exists>r. net_log (snd (act_bind m f w)) = net_log w @ [r] \<and> P r \<and>
        rq_Auth r = (co_AccessKey (rb_Opts client), co_SecretKey (rb_Opts client)))"
    using assms(1) by (simp add: sends_def)
qed

lemma decoded_sends:
  "sends client P m \<Longrightarrow> sends client P (decoded f m)"
  "sends client P m' \<Longrightarrow> sends client P (decoded_or z f m')"
  unfolding decoded_def decoded_or_def by (auto intro!: sends_then_quiet sends_intro)

lemma base_sends:
  "one cn (doList (cn_http cn) (cn_client cn) t filters)"
  "one cn (doCreate (cn_http cn) (cn_client cn) t j)"
  "one cn (doUpdate (cn_http cn) (cn_client cn) shown t r j)"
  "one cn (doById (cn_http cn) (cn_client cn) t i)"
  "one cn (doResourceDelete (cn_http cn) (cn_client cn) shown t resource)"
  "one cn (doAction (cn_http cn) (cn_client cn) shown t a r input)"
  "one cn (Reload (cn_http cn) (cn_client cn) shown resource)"
  "one cn (Post (cn_http cn) (cn_client cn) url j)"
  "one cn (GetLink (cn_http cn) (cn_client cn) resource link)"
  by (auto simp: doList_def doCreate_def doUpdate_def doById_def doResourceDelete_def Reload_def Post_def GetLink_def
      Let_def fail_sends intro!: doGet_sends doModify_sends doDelete_sends doAction_sends split: option.split)

lemmas client_defs = ServiceClient_Create_def ServiceClient_Update_def ServiceClient_List_def ServiceClient_ById_def
  ServiceClient_Delete_def service_action_def ServiceClient_ActionActivate_def ServiceClient_ActionDeactivate_def
  ServiceClient_ActionSetservicelinks_def EnvironmentClient_Create_def EnvironmentClient_List_def
  ExternalServiceClient_Create_def DnsServiceClient_Create_def LoadBalancerServiceClient_Create_def
  CertificateClient_List_def SettingClient_ById_def PullTaskClient_Create_def ContainerClient_ActionRestart_def

interpretation http: operations "rx\<lparr>rx_server := http_server cn\<rparr>" "authorised (cn_client cn)" for rx cn
  by unfold_locales
    (simp_all add: http_server_def client_defs,
     (intro authorised_call decoded_sends sends_then_quiet base_sends quiet_rules)+)

section \<open>Properties\<close>

text \<open>
  C34: Every request of an operation is authorised.  Over the HTTP connection, whatever the server answers, a service
  operation that returns has sent at most one request for each call to the API it made, and each of them carries
  the access and the secret key of the client the connection was set up with.
\<close>

theorem operation_requests_authorised:
  assumes "run_service (rx\<lparr>rx_server := http_server cn\<rparr>) r c w = Some (result, w')"
  shows "\<exists>calls requests. rw_log w' = rw_log w @ calls \<and>
    net_log (rw_server w') = net_log (rw_server w) @ requests \<and> length requests \<le> length calls \<and>
    (\<forall>req \<in> set requests. rq_Auth req =
       (co_AccessKey (rb_Opts (cn_client cn)), co_SecretKey (rb_Opts (cn_client cn))))"
  using http.proc_keeps_run [of cn rx r c] assms unfolding proc_keeps_def authorised_def by blast

text \<open>A connection that may list the services, to a server that has one.\<close>

definition sample_codec :: "unit codec" where
  "sample_codec = \<lparr>en_Service = (\<lambda>_. ()), en_Scale = (\<lambda>_. ()), en_Links = (\<lambda>_. ()), en_Stack = (\<lambda>_. ()),
     en_External = (\<lambda>_. ()), en_Dns = (\<lambda>_. ()), en_LoadBalancer = (\<lambda>_. ()), en_Inspect = (\<lambda>_. ()),
     en_PullTask = (\<lambda>_. ()), de_Service = (\<lambda>s _. Ok s), de_Services = (\<lambda>_. Ok [demo_service ''web'']),
     de_Stack = (\<lambda>s _. Ok s), de_Stacks = (\<lambda>_. Ok []), de_Typed = (\<lambda>_. Ok ()), de_LaunchConfig = (\<lambda>c _. Ok c),
     de_Instance = (\<lambda>i _. Ok i), de_Containers = (\<lambda>_. Ok []), de_Certificates = (\<lambda>_. Ok []),
     de_Setting = (\<lambda>_. Ok []), de_PullTask = (\<lambda>t _. Ok t)\<rparr>"

definition sample_connection :: "(unit, unit) api_conn" where
  "sample_connection = \<lparr>cn_http = sample_http\<lparr>he_NewRequest := \<lambda>_ _. Ok ()\<rparr>, cn_codec = sample_codec,
     cn_client = \<lparr>rb_Opts = \<lparr>co_Url = ''http://cattle'', co_AccessKey = ''a'', co_SecretKey = ''s''\<rparr>,
       rb_Types = [''service'' \<mapsto> \<lparr>sch_Id = ''service'', sch_Links = [''collection'' \<mapsto> ''/v1/services''],
         sch_PluralName = ''services'', sch_ResourceMethods = [], sch_CollectionMethods = [''GET'']\<rparr>]\<rparr>,
     cn_shown = res_Id\<rparr>"

definition sample_env :: "unit net rancher_env" where
  "sample_env = \<lparr>rx_ProjectName = ''p'', rx_Environment = \<lparr>stk_Id = ''1e1'', stk_Name = ''p''\<rparr>,
     rx_RancherConfig = Map.empty, rx_Configs = Map.empty,
     rx_SidekickInfo = NewSidekickInfo [], rx_SchemasLink = ''/v1/schemas'', rx_Upload = None, rx_PullCached = False,
     rx_NowMillis = 0, rx_server = http_server sample_connection, rx_order = (\<lambda>ls. ls)\<rparr>"

definition sample_before :: "unit net rancher_world" where
  "sample_before = \<lparr>rw_log = [], rw_server = \<lparr>net_log = [], net_server = ()\<rparr>\<rparr>"

lemma sample_lists:
  "api (ListServices e n) (ap_ListServices (http_server sample_connection) e n) sample_before =
     (Ok [demo_service ''web''], \<lparr>rw_log = [ListServices e n], rw_server = \<lparr>net_log =
        [\<lparr>rq_Method = ''GET'', rq_Url = ''/v1/services'', rq_Body = None, rq_Auth = (''a'', ''s'')\<rparr>],
        net_server = ()\<rparr>\<rparr>)"
  by (simp add: http_server_def ServiceClient_List_def decoded_def doList_def doGet_def new_request_def http_Do_def
      appendFilters_def sample_connection_def sample_codec_def sample_http_def sample_before_def api_def act_bind_def)

lemma sample_env_simps [simp]:
  "rx_server sample_env = http_server sample_connection" "rx_Environment sample_env = \<lparr>stk_Id = ''1e1'', stk_Name = ''p''\<rparr>"
  by (simp_all add: sample_env_def)

lemma sample_finds: "\<exists>w'. findExisting (sample_env\<lparr>rx_server := http_server sample_connection\<rparr>) ''web'' sample_before =
    (Ok (Some (demo_service ''web'')), w') \<and> net_log (rw_server w') \<noteq> []"
proof -
  have parts: "split2 (CHR ''/'') ''web'' = [''web'']" by code_simp
  show ?thesis
    by (simp add: findExisting_def resolveServiceAndEnvironmentId_def parts sample_lists act_bind_def act_return_def)
qed

theorem operation_requests_authorised_witness:
  "\<exists>result w' calls requests.
     run_service (sample_env\<lparr>rx_server := http_server sample_connection\<rparr>) (NewService ''web'' ServiceConfig_zero) ReqCreate
       sample_before = Some (result, w') \<and>
     rw_log w' = rw_log sample_before @ calls \<and> net_log (rw_server w') = net_log (rw_server sample_before) @ requests \<and>
     length requests \<le> length calls \<and> requests \<noteq> [] \<and>
     (\<forall>req \<in> set requests. rq_Auth req = (''a'', ''s''))"
proof -
  from sample_finds obtain w' where found: "findExisting (sample_env\<lparr>rx_server := http_server sample_connection\<rparr>) ''web''
      sample_before = (Ok (Some (demo_service ''web'')), w')" and sent: "net_log (rw_server w') \<noteq> []" by blast
  then have run: "run_service (sample_env\<lparr>rx_server := http_server sample_connection\<rparr>)
      (NewService ''web'' ServiceConfig_zero) ReqCreate sample_before = Some (Ok (), w')"
    by (simp add: RancherService_Create_def NewService_def proc_bind_def)
  from operation_requests_authorised [OF run] run sent show ?thesis
    by (auto simp: sample_connection_def sample_before_def)
qed

end
