(* ===== verification/Yaml_Resolve.thy ===== *)
theory Yaml_Resolve
  imports Interpolation "HOL-Library.Char_ord"
begin

text \<open>
  The scalars of YAML, \<open>gopkg.in/yaml.v2/resolve.go\<close>: which value the text of a scalar stands for, with the parts of
  \<open>strconv\<close>, \<open>unicode/utf8\<close> and \<open>encoding/base64\<close> it uses.  \<open>strconv.ParseFloat\<close> is a parameter: a float is carried as its
  text.
\<close>

section \<open>Numbers\<close>

text \<open>\<open>strconv.ParseUint\<close> and \<open>ParseInt\<close>; base 0 is told by the prefix.  \<open>None\<close> is an error.\<close>

definition digit_value :: "char \<Rightarrow> nat option" where
  "digit_value c = (let n = of_char c :: nat in
     if 48 \<le> n \<and> n \<le> 57 then Some (n - 48)
     else if 97 \<le> n \<and> n \<le> 122 then Some (n - 97 + 10)
     else if 65 \<le> n \<and> n \<le> 90 then Some (n - 65 + 10)
     else None)"

fun base_digits :: "nat \<Rightarrow> nat \<Rightarrow> string \<Rightarrow> nat option" where
  "base_digits base acc [] = Some acc"
| "base_digits base acc (c # cs) = (case digit_value c of
     None \<Rightarrow> None
   | Some d \<Rightarrow> if d < base then base_digits base (acc * base + d) cs else None)"

definition parse_base :: "nat \<Rightarrow> string \<Rightarrow> nat option" where
  "parse_base base s =
     (if s = [] then None
      else if base \<noteq> 0 then base_digits base 0 s
      else (case s of
          c # x # rest \<Rightarrow>
            if c = CHR ''0'' \<and> (x = CHR ''x'' \<or> x = CHR ''X'') then (if rest = [] then None else base_digits 16 0 rest)
            else if c = CHR ''0'' then base_digits 8 0 s
            else base_digits 10 0 s
        | _ \<Rightarrow> if s = ''0'' then Some 0 else base_digits 10 0 s))"

definition yaml_ParseUint :: "nat \<Rightarrow> string \<Rightarrow> int option" where
  "yaml_ParseUint base s = (case parse_base base s of
     None \<Rightarrow> None
   | Some n \<Rightarrow> if int n < 2 ^ 64 then Some (int n) else None)"

definition yaml_ParseInt :: "nat \<Rightarrow> string \<Rightarrow> int option" where
  "yaml_ParseInt base s = (case s of
     [] \<Rightarrow> None
   | c # cs \<Rightarrow>
       (let neg = (c = CHR ''-''); digits = (if c = CHR ''-'' \<or> c = CHR ''+'' then cs else s)
        in case yaml_ParseUint base digits of
             None \<Rightarrow> None
           | Some un \<Rightarrow>
               if \<not> neg \<and> un \<ge> 2 ^ 63 then None
               else if neg \<and> un > 2 ^ 63 then None
               else Some (if neg then - un else un)))"

section \<open>Texts\<close>

text \<open>\<open>utf8.ValidString\<close>.\<close>

definition utf8_between :: "nat \<Rightarrow> nat \<Rightarrow> char \<Rightarrow> bool" where
  "utf8_between a b c \<longleftrightarrow> a \<le> of_char c \<and> of_char c \<le> b"

abbreviation utf8_cont :: "char \<Rightarrow> bool" where
  "utf8_cont \<equiv> utf8_between 0x80 0xBF"

fun utf8_valid :: "string \<Rightarrow> bool" where
  "utf8_valid [] = True"
| "utf8_valid (a # s) =
     (if utf8_between 0 0x7F a then utf8_valid s
      else (case s of
          b # s2 \<Rightarrow>
            if utf8_between 0xC2 0xDF a then utf8_cont b \<and> utf8_valid s2
            else (case s2 of
                c # s3 \<Rightarrow>
                  if utf8_between 0xE0 0xEF a
                  then (if of_char a = (0xE0 :: nat) then utf8_between 0xA0 0xBF b
                        else if of_char a = (0xED :: nat) then utf8_between 0x80 0x9F b
                        else utf8_cont b) \<and> utf8_cont c \<and> utf8_valid s3
                  else (case s3 of
                      d # s4 \<Rightarrow> utf8_between 0xF0 0xF4 a \<and>
                        (if of_char a = (0xF0 :: nat) then utf8_between 0x90 0xBF b
                         else if of_char a = (0xF4 :: nat) then utf8_between 0x80 0x8F b
                         else utf8_cont b) \<and> utf8_cont c \<and> utf8_cont d \<and> utf8_valid s4
                    | [] \<Rightarrow> False)
              | [] \<Rightarrow> False)
        | [] \<Rightarrow> False))"

text \<open>\<open>base64.StdEncoding\<close>, and \<open>encodeBase64\<close>, which breaks the text into lines of 70.\<close>

definition base64_alphabet :: string where
  "base64_alphabet = ''ABCDEFGHIJKLMNOPQRSTUVWXYZabcdefghijklmnopqrstuvwxyz0123456789+/''"

definition base64_char :: "nat \<Rightarrow> char" where
  "base64_char n = base64_alphabet ! n"

definition base64_value :: "char \<Rightarrow> nat option" where
  "base64_value c = map_option fst (find (\<lambda>(i, d). d = c) (zip [0..<64] base64_alphabet))"

fun base64_encode :: "nat list \<Rightarrow> string" where
  "base64_encode [] = []"
| "base64_encode [x] = [base64_char (x div 4), base64_char (x mod 4 * 16), CHR ''='', CHR ''='']"
| "base64_encode [x, y] =
     [base64_char (x div 4), base64_char (x mod 4 * 16 + y div 16), base64_char (y mod 16 * 4), CHR ''='']"
| "base64_encode (x # y # z # bs) =
     base64_char (x div 4) # base64_char (x mod 4 * 16 + y div 16) # base64_char (y mod 16 * 4 + z div 64) #
       base64_char (z mod 64) # base64_encode bs"

fun base64_decode :: "string \<Rightarrow> nat list option" where
  "base64_decode [] = Some []"
| "base64_decode (a # b # c # d # s) = (case (base64_value a, base64_value b) of
     (Some a', Some b') \<Rightarrow>
       if c = CHR ''='' then (if d = CHR ''='' \<and> s = [] then Some [a' * 4 + b' div 16] else None)
       else (case base64_value c of
           None \<Rightarrow> None
         | Some c' \<Rightarrow>
             if d = CHR ''='' then (if s = [] then Some [a' * 4 + b' div 16, b' mod 16 * 16 + c' div 4] else None)
             else (case base64_value d of
                 None \<Rightarrow> None
               | Some d' \<Rightarrow> map_option (\<lambda>bs. (a' * 4 + b' div 16) # (b' mod 16 * 16 + c' div 4) # (c' mod 4 * 64 + d') # bs)
                   (base64_decode s)))
   | _ \<Rightarrow> None)"
| "base64_decode s = None"

definition base64_DecodeString :: "string \<Rightarrow> string option" where
  "base64_DecodeString s =
     map_option (map char_of) (base64_decode (filter (\<lambda>c. c \<noteq> CHR 0x0A \<and> c \<noteq> CHR 0x0D) s))"

function break_lines :: "string \<Rightarrow> string" where
  "break_lines s = (if s = [] then [] else take 70 s @ [CHR 0x0A] @ break_lines (drop 70 s))"
  by pat_completeness auto
termination by (relation "measure length") auto

declare break_lines.simps [simp del]

definition encodeBase64 :: "string \<Rightarrow> string" where
  "encodeBase64 s =
     (let text = base64_encode (map of_char s)
      in if length text div 70 + 1 > 1 then break_lines text else text)"

section \<open>Tags\<close>

definition longTagPrefix :: string where "longTagPrefix = ''tag:yaml.org,2002:''"

definition yaml_tag :: "string \<Rightarrow> string" where
  "yaml_tag name = longTagPrefix @ name"

definition shortTag :: "string \<Rightarrow> string" where
  "shortTag tag = (if has_prefix tag longTagPrefix then ''!!'' @ drop (length longTagPrefix) tag else tag)"

definition longTag :: "string \<Rightarrow> string" where
  "longTag tag = (if has_prefix tag ''!!'' then longTagPrefix @ drop 2 tag else tag)"

definition resolvableTag :: "string \<Rightarrow> bool" where
  "resolvableTag tag \<longleftrightarrow> tag = [] \<or> tag \<in> yaml_tag ` {''str'', ''bool'', ''int'', ''float'', ''null''}"

text \<open>The first byte says whether the text can be anything but a string: a sign, a digit, a dot, or the start of a listed word.\<close>

datatype resolve_hint = HintNone | HintSign | HintDigit | HintMap | HintDot

definition resolveTable :: "char \<Rightarrow> resolve_hint" where
  "resolveTable c =
     (if c = CHR ''+'' \<or> c = CHR ''-'' then HintSign
      else if is_digit c then HintDigit
      else if c \<in> set ''yYnNtTfFoO~'' then HintMap
      else if c = CHR ''.'' then HintDot
      else HintNone)"

definition resolveMap :: "(string \<times> yval \<times> string) list" where
  "resolveMap =
     map (\<lambda>s. (s, YBool True, yaml_tag ''bool'')) [''y'', ''Y'', ''yes'', ''Yes'', ''YES'', ''true'', ''True'', ''TRUE'', ''on'', ''On'', ''ON''] @
     map (\<lambda>s. (s, YBool False, yaml_tag ''bool'')) [''n'', ''N'', ''no'', ''No'', ''NO'', ''false'', ''False'', ''FALSE'', ''off'', ''Off'', ''OFF''] @
     map (\<lambda>s. (s, YNull, yaml_tag ''null'')) [[], ''~'', ''null'', ''Null'', ''NULL''] @
     map (\<lambda>s. (s, YFloat ''NaN'', yaml_tag ''float'')) [''.nan'', ''.NaN'', ''.NAN''] @
     map (\<lambda>s. (s, YFloat ''+Inf'', yaml_tag ''float'')) [''.inf'', ''.Inf'', ''.INF'', ''+.inf'', ''+.Inf'', ''+.INF''] @
     map (\<lambda>s. (s, YFloat ''-Inf'', yaml_tag ''float'')) [''-.inf'', ''-.Inf'', ''-.INF''] @
     [(''<<'', YStr ''<<'', yaml_tag ''merge'')]"

section \<open>Resolving\<close>

text \<open>A number in the text, with the underscores removed.\<close>

definition resolve_number :: "(string \<Rightarrow> string option) \<Rightarrow> string \<Rightarrow> (string \<times> yval) option" where
  "resolve_number ParseFloat plain = (case yaml_ParseInt 0 plain of
     Some i \<Rightarrow> Some (yaml_tag ''int'', YInt i)
   | None \<Rightarrow> (case yaml_ParseUint 0 plain of
     Some u \<Rightarrow> Some (yaml_tag ''int'', YInt u)
   | None \<Rightarrow> (case ParseFloat plain of
     Some f \<Rightarrow> Some (yaml_tag ''float'', YFloat f)
   | None \<Rightarrow>
       if has_prefix plain ''0b''
       then (case yaml_ParseInt 2 (drop 2 plain) of
           Some i \<Rightarrow> Some (yaml_tag ''int'', YInt i)
         | None \<Rightarrow> map_option (\<lambda>u. (yaml_tag ''int'', YInt u)) (yaml_ParseUint 2 (drop 2 plain)))
       else if has_prefix plain ''-0b''
       then map_option (\<lambda>i. (yaml_tag ''int'', YInt (if i = - (2 ^ 63) then i else - i))) (yaml_ParseInt 2 (drop 3 plain))
       else None)))"

text \<open>The body of \<open>resolve\<close>, before the deferred check of the tag.\<close>

definition resolve_text :: "string \<Rightarrow> string \<times> yval" where
  "resolve_text s = (if utf8_valid s then (yaml_tag ''str'', YStr s) else (yaml_tag ''binary'', YStr (encodeBase64 s)))"

definition resolve_plain :: "(string \<Rightarrow> string option) \<Rightarrow> string \<Rightarrow> string \<times> yval" where
  "resolve_plain ParseFloat s =
     (let hint = (case s of [] \<Rightarrow> HintMap | c # _ \<Rightarrow> resolveTable c)
      in if hint = HintNone then resolve_text s
         else (case map_of resolveMap s of
             Some (v, tag) \<Rightarrow> (tag, v)
           | None \<Rightarrow> (case hint of
               HintDot \<Rightarrow> (case ParseFloat s of Some f \<Rightarrow> (yaml_tag ''float'', YFloat f) | None \<Rightarrow> resolve_text s)
             | HintMap \<Rightarrow> resolve_text s
             | _ \<Rightarrow> (case resolve_number ParseFloat (filter (\<lambda>c. c \<noteq> CHR ''_'') s) of
                 Some r \<Rightarrow> r
               | None \<Rightarrow> resolve_text s))))"

definition resolve :: "(string \<Rightarrow> string option) \<Rightarrow> string \<Rightarrow> string \<Rightarrow> (string \<times> yval) go" where
  "resolve ParseFloat tag s =
     (if \<not> resolvableTag tag then Ok (tag, YStr s)
      else (let (rtag, out) = (if tag = yaml_tag ''str'' then resolve_text s else resolve_plain ParseFloat s)
        in if tag = [] \<or> tag = rtag \<or> tag = yaml_tag ''str'' then Ok (rtag, out)
           else Err (''yaml: cannot decode '' @ shortTag rtag @ '' `'' @ s @ ''` as a '' @ shortTag tag)))"

section \<open>Laws\<close>

lemma yaml_ParseUint_bounds: "yaml_ParseUint base s = Some i \<Longrightarrow> 0 \<le> i \<and> i < 2 ^ 64"
  by (auto simp: yaml_ParseUint_def split: option.splits if_splits)

lemma yaml_ParseInt_bounds: "yaml_ParseInt base s = Some i \<Longrightarrow> - (2 ^ 63) \<le> i \<and> i < 2 ^ 63"
  using yaml_ParseUint_bounds
  by (force simp: yaml_ParseInt_def Let_def split: list.splits option.splits if_splits)

text \<open>A decimal number is read back.\<close>

lemma base_digits_decimal: "\<forall>c \<in> set s. is_digit c \<Longrightarrow> base_digits 10 acc s = digits_val acc s"
  by (induction s arbitrary: acc) (auto simp: digit_value_def is_digit_def Let_def)

lemma show_nat_zero: "show_nat n = CHR ''0'' # cs \<Longrightarrow> n = 0 \<and> cs = []"
proof (induction n arbitrary: cs rule: show_nat.induct)
  case (1 n)
  show ?case
  proof (cases "n < 10")
    case True
    then have one: "show_nat n = [char_of (48 + n)]" by (subst show_nat.simps) simp
    with "1.prems" have "char_of (48 + n) = CHR ''0''" "cs = []" by simp_all
    moreover have "(48 + n) mod 256 = 48"
      using arg_cong [OF calculation(1), of "of_char :: char \<Rightarrow> nat"] by (simp only: of_char_of) simp
    ultimately show ?thesis using True by simp
  next
    case False
    with "1.prems" have "show_nat (n div 10) @ [char_of (48 + n mod 10)] = CHR ''0'' # cs"
      by (subst (asm) show_nat.simps) simp
    then obtain cs' where "show_nat (n div 10) = CHR ''0'' # cs'" by (cases "show_nat (n div 10)") auto
    with "1.IH" [OF False] False show ?thesis by force
  qed
qed

lemma parse_base_show_nat: "parse_base 0 (show_nat n) = Some n"
proof -
  have "base_digits 10 0 (show_nat n) = Some n"
    using base_digits_decimal [of "show_nat n"] show_nat_digits digits_val_show_nat by simp
  moreover have "show_nat 0 = ''0''" by code_simp
  ultimately show ?thesis
    using show_nat_zero [of n] by (auto simp: parse_base_def split: list.split)
qed

lemma yaml_ParseInt_show_nat: "n < 2 ^ 63 \<Longrightarrow> yaml_ParseInt 0 (show_nat n) = Some (int n)"
proof (cases "show_nat n")
  case (Cons c cs)
  assume "n < 2 ^ 63"
  then show ?thesis
    using Cons show_nat_not_sign [OF Cons] parse_base_show_nat [of n]
    by (auto simp: yaml_ParseInt_def yaml_ParseUint_def Let_def)
qed simp

lemma yaml_ParseInt_big: "2 ^ 63 \<le> n \<Longrightarrow> yaml_ParseInt 0 (show_nat n) = None"
proof (cases "show_nat n")
  case (Cons c cs)
  assume "2 ^ 63 \<le> n"
  then show ?thesis
    using Cons show_nat_not_sign [OF Cons] parse_base_show_nat [of n]
    by (auto simp: yaml_ParseInt_def yaml_ParseUint_def Let_def split: option.split)
qed simp

lemma yaml_ParseInt_negative: "n \<le> 2 ^ 63 \<Longrightarrow> yaml_ParseInt 0 (CHR ''-'' # show_nat n) = Some (- int n)"
  using parse_base_show_nat [of n] by (auto simp: yaml_ParseInt_def yaml_ParseUint_def Let_def split: option.split)

lemma resolve_number_show_int:
  assumes "- (2 ^ 63) \<le> i" "i < 2 ^ 64"
  shows "resolve_number pf (show_int i) = Some (yaml_tag ''int'', YInt i)"
proof (cases "i < 0")
  case True
  then show ?thesis
    using assms yaml_ParseInt_negative [of "nat (- i)"] by (simp add: resolve_number_def show_int_def)
next
  case False
  show ?thesis
  proof (cases "i < 2 ^ 63")
    case True
    then show ?thesis
      using False yaml_ParseInt_show_nat [of "nat i"] by (simp add: resolve_number_def show_int_def)
  next
    case False
    then have "yaml_ParseInt 0 (show_nat (nat i)) = None" by (intro yaml_ParseInt_big) simp
    moreover have "yaml_ParseUint 0 (show_nat (nat i)) = Some i"
      using False assms parse_base_show_nat [of "nat i"] by (simp add: yaml_ParseUint_def)
    ultimately show ?thesis using False by (simp add: resolve_number_def show_int_def)
  qed
qed

lemma resolveMap_keys: "\<forall>k \<in> set (map fst resolveMap). k = [] \<or> \<not> is_digit (hd k) \<and> (hd k = CHR ''-'' \<longrightarrow> \<not> is_digit (k ! 1))"
  by code_simp

lemma resolveMap_digit:
  assumes "is_digit c"
  shows "map_of resolveMap (c # cs) = None" "map_of resolveMap (CHR ''-'' # c # cs) = None"
  using assms resolveMap_keys by (force simp: map_of_eq_None_iff)+

lemma resolve_show_int:
  assumes "- (2 ^ 63) \<le> i" "i < 2 ^ 64"
  shows "resolve_plain pf (show_int i) = (yaml_tag ''int'', YInt i)"
proof -
  have digits: "c \<noteq> CHR ''_''" if "c \<in> set (show_nat n)" for c n
    using show_nat_digits [OF that] by (auto simp: is_digit_def)
  then have plain: "filter (\<lambda>c. c \<noteq> CHR ''_'') (show_int i) = show_int i"
    by (auto simp: show_int_def intro!: filter_True)
  obtain c cs where nat: "show_nat (nat \<bar>i\<bar>) = c # cs" by (cases "show_nat (nat \<bar>i\<bar>)") auto
  then have c: "is_digit c" using show_nat_digits by (metis list.set_intros(1))
  then have hint: "resolveTable c = HintDigit" by (auto simp: resolveTable_def is_digit_def)
  show ?thesis
  proof (cases "i < 0")
    case True
    then have "show_int i = CHR ''-'' # c # cs" using nat by (simp add: show_int_def)
    then show ?thesis
      using resolveMap_digit(2) [OF c, of cs] plain resolve_number_show_int [OF assms, of pf]
      by (simp add: resolve_plain_def resolveTable_def)
  next
    case False
    then have "show_int i = c # cs" using nat by (simp add: show_int_def)
    then show ?thesis
      using resolveMap_digit(1) [OF c, of cs] plain resolve_number_show_int [OF assms, of pf] hint
      by (simp add: resolve_plain_def)
  qed
qed

text \<open>Base 64 is read back.\<close>

lemma base64_table: "\<forall>n \<in> set [0..<64]. base64_value (base64_char n) = Some n \<and>
    base64_char n \<noteq> CHR ''='' \<and> base64_char n \<noteq> CHR 0x0A \<and> base64_char n \<noteq> CHR 0x0D"
  by code_simp

lemma base64_value_char: "n < 64 \<Longrightarrow> base64_value (base64_char n) = Some n"
  "n < 64 \<Longrightarrow> base64_char n \<noteq> CHR ''=''" "n < 64 \<Longrightarrow> base64_char n \<noteq> CHR 0x0A" "n < 64 \<Longrightarrow> base64_char n \<noteq> CHR 0x0D"
  using base64_table by auto

lemma base64_bits:
  fixes x y z :: nat
  assumes "x < 256" "y < 256" "z < 256"
  shows "x div 4 < 64" "x mod 4 * 16 < 64" "x mod 4 * 16 + y div 16 < 64" "y mod 16 * 4 < 64" "y mod 16 * 4 + z div 64 < 64" "z mod 64 < 64"
    "x div 4 * 4 + x mod 4 * 16 div 16 = x" "x div 4 * 4 + (x mod 4 * 16 + y div 16) div 16 = x"
    "(x mod 4 * 16 + y div 16) mod 16 * 16 + y mod 16 * 4 div 4 = y"
    "(x mod 4 * 16 + y div 16) mod 16 * 16 + (y mod 16 * 4 + z div 64) div 4 = y"
    "(y mod 16 * 4 + z div 64) mod 4 * 64 + z mod 64 = z" "y div 16 mod 16 * 16 + y mod 16 = y"
proof -
  have "x mod 4 < 4" "y mod 16 < 16" "y div 16 < 16" "z div 64 < 4"
    using assms by (simp_all add: less_mult_imp_div_less)
  moreover show "x div 4 < 64" "z mod 64 < 64" using assms by (simp_all add: less_mult_imp_div_less)
  ultimately show "x mod 4 * 16 < 64" "x mod 4 * 16 + y div 16 < 64" "y mod 16 * 4 < 64" "y mod 16 * 4 + z div 64 < 64"
    "x div 4 * 4 + x mod 4 * 16 div 16 = x" "x div 4 * 4 + (x mod 4 * 16 + y div 16) div 16 = x"
    "(x mod 4 * 16 + y div 16) mod 16 * 16 + y mod 16 * 4 div 4 = y"
    "(x mod 4 * 16 + y div 16) mod 16 * 16 + (y mod 16 * 4 + z div 64) div 4 = y"
    "(y mod 16 * 4 + z div 64) mod 4 * 64 + z mod 64 = z" "y div 16 mod 16 * 16 + y mod 16 = y"
    by simp_all
qed

lemma base64_decode_encode: "\<forall>b \<in> set bs. b < 256 \<Longrightarrow> base64_decode (base64_encode bs) = Some bs"
proof (induction bs rule: base64_encode.induct)
  case (2 x)
  then show ?case using base64_bits [of x 0 0] by (simp add: base64_value_char)
next
  case (3 x y)
  then show ?case using base64_bits [of x y 0] by (simp add: base64_value_char)
next
  case (4 x y z bs)
  then show ?case using base64_bits [of x y z] by (simp add: base64_value_char)
qed simp

lemma base64_no_breaks: "\<forall>b \<in> set bs. b < 256 \<Longrightarrow> \<forall>c \<in> set (base64_encode bs). c \<noteq> CHR 0x0A \<and> c \<noteq> CHR 0x0D"
proof (induction bs rule: base64_encode.induct)
  case (2 x)
  then show ?case using base64_bits [of x 0 0] by (simp add: base64_value_char)
next
  case (3 x y)
  then show ?case using base64_bits [of x y 0] by (simp add: base64_value_char)
next
  case (4 x y z bs)
  then show ?case using base64_bits [of x y z] by (simp add: base64_value_char)
qed simp

lemma filter_break_lines: "filter (\<lambda>c. c \<noteq> CHR 0x0A \<and> c \<noteq> CHR 0x0D) (break_lines s) = filter (\<lambda>c. c \<noteq> CHR 0x0A \<and> c \<noteq> CHR 0x0D) s"
proof (induction s rule: break_lines.induct)
  case (1 s)
  show ?case
  proof (cases "s = []")
    case False
    then have "filter (\<lambda>c. c \<noteq> CHR 0x0A \<and> c \<noteq> CHR 0x0D) (break_lines s) =
        filter (\<lambda>c. c \<noteq> CHR 0x0A \<and> c \<noteq> CHR 0x0D) (take 70 s @ drop 70 s)"
      unfolding filter_append using 1 by (subst break_lines.simps) simp
    then show ?thesis by (simp only: append_take_drop_id)
  qed (simp add: break_lines.simps)
qed

lemma encodeBase64_decodes: "base64_DecodeString (encodeBase64 s) = Some s"
proof -
  have bytes: "\<forall>b \<in> set (map of_char s). (b :: nat) < 256" by simp
  have "filter (\<lambda>c. c \<noteq> CHR 0x0A \<and> c \<noteq> CHR 0x0D) (encodeBase64 s) = base64_encode (map of_char s)"
    using base64_no_breaks [OF bytes] by (auto simp: encodeBase64_def Let_def filter_break_lines intro!: filter_True)
  then show ?thesis using base64_decode_encode [OF bytes] by (simp add: base64_DecodeString_def comp_def)
qed

text \<open>What a scalar resolves to is no collection, and its integers fit 64 bits.\<close>

fun scalar_value :: "yval \<Rightarrow> bool" where
  "scalar_value (YInt i) = (- (2 ^ 63) \<le> i \<and> i < 2 ^ 64)"
| "scalar_value (YSeq _) = False"
| "scalar_value (YMap _) = False"
| "scalar_value _ = True"

lemma resolveMap_scalar: "map_of resolveMap s = Some (v, t) \<Longrightarrow> scalar_value v"
proof -
  have "\<forall>p \<in> set resolveMap. scalar_value (fst (snd p))" by (simp add: resolveMap_def)
  then show "map_of resolveMap s = Some (v, t) \<Longrightarrow> scalar_value v" by (fastforce dest!: map_of_SomeD)
qed

lemma resolve_text_scalar: "scalar_value (snd (resolve_text s))"
  by (simp add: resolve_text_def)

lemma resolve_number_scalar: "resolve_number pf s = Some r \<Longrightarrow> scalar_value (snd r)"
  by (auto simp: resolve_number_def split: option.splits if_splits dest!: yaml_ParseInt_bounds yaml_ParseUint_bounds)

lemma resolve_plain_scalar: "scalar_value (snd (resolve_plain pf s))"
  using resolve_text_scalar [of s] resolveMap_scalar [of s] resolve_number_scalar [of pf]
  by (auto simp: resolve_plain_def Let_def split: option.split resolve_hint.split)

lemma resolve_scalar: "resolve pf tag s = Ok (rtag, v) \<Longrightarrow> scalar_value v"
  using resolve_text_scalar [of s] resolve_plain_scalar [of pf s]
  by (auto simp: resolve_def Let_def split: if_splits prod.splits)

end
