(* ===== verification/Yaml_Decode.thy ===== *)
theory Yaml_Decode
  imports Yaml_Resolve "HOL-Library.Word"
begin

text \<open>
  The YAML decoder, \<open>gopkg.in/yaml.v2/decode.go\<close>, from the events of the scanner to a Go value, and \<open>Unmarshal\<close> of
  \<open>yaml.go\<close>.  The scanner, which turns bytes into events, is a parameter.  The types decoded into are those a compose
  file is read as: strings, booleans, 64-bit integers, \<open>interface{}\<close>, and slices and maps of these; structs,
  pointers, \<open>MapSlice\<close> and types with an unmarshaller of their own are left out.
\<close>

section \<open>Events and nodes\<close>

text \<open>
  An event carries what the decoder reads of it: anchor, tag (empty when there is none), text, whether a scalar is plain, and the line.
  A node holds the same; only scalars keep their tag.
\<close>

datatype yevent =
    EScalar "string option" string string bool nat
  | EAlias string nat
  | ESeqStart "string option" nat
  | ESeqEnd
  | EMapStart "string option" nat
  | EMapEnd
  | EStreamStart
  | EDocStart
  | EDocEnd
  | EStreamEnd

datatype ynode =
    NScalar (node_tag: string) (node_value: string) (node_implicit: bool) nat
  | NSeq nat "ynode list"
  | NMap nat "(ynode \<times> ynode) list"
  | NAlias nat string

type_synonym anchors = "(string \<times> ynode) list"

text \<open>The event stream, with the error the scanner reports when it runs out.  \<open>skip\<close> fetches the next event.\<close>

type_synonym yevents = "yevent list \<times> string"

fun yaml_skip :: "yevents \<Rightarrow> yevents go" where
  "yaml_skip (EStreamEnd # evs, problem) = Err ''yaml: attempted to go past the end of stream; corrupted value?''"
| "yaml_skip (_ # e # evs, problem) = Ok (e # evs, problem)"
| "yaml_skip (_, problem) = Err (''yaml: '' @ problem)"

definition anchor_entry :: "string option \<Rightarrow> ynode \<Rightarrow> anchors" where
  "anchor_entry a n = (case a of None \<Rightarrow> [] | Some name \<Rightarrow> [(name, n)])"

lemma yaml_skip_shorter: "yaml_skip s = Ok s' \<Longrightarrow> length (fst s') < length (fst s)"
  by (cases s rule: yaml_skip.cases) auto

text \<open>
  \<open>parse\<close>: the node at the current event, the anchors it defines in the order they are recorded (a collection
  before its elements), and the events after it.  An event that cannot start a node is a panic; so are a stream end and
  a document within a document, which a scanner never yields there.  The tests of the lengths always hold
  (\<open>yaml_parse_shorter\<close>); they show that the loops end.
\<close>

definition at_event :: "yevent \<Rightarrow> yevents \<Rightarrow> bool" where
  "at_event e s \<longleftrightarrow> fst s \<noteq> [] \<and> hd (fst s) = e"

lemma go_bind_cong [fundef_cong]: "m = m' \<Longrightarrow> (\<And>x. m' = Ok x \<Longrightarrow> f x = f' x) \<Longrightarrow> go_bind m f = go_bind m' f'"
  by (cases m) auto

function (sequential) yaml_parse :: "yevents \<Rightarrow> (ynode \<times> anchors \<times> yevents) go"
  and yaml_parse_items :: "yevents \<Rightarrow> (ynode list \<times> anchors \<times> yevents) go"
  and yaml_parse_pairs :: "yevents \<Rightarrow> ((ynode \<times> ynode) list \<times> anchors \<times> yevents) go" where
  "yaml_parse s = (case fst s of
     EScalar a tag value implicit line # _ \<Rightarrow>
       (let n = NScalar tag value implicit line in go_bind (yaml_skip s) (\<lambda>s'. Ok (n, anchor_entry a n, s')))
   | EAlias name line # _ \<Rightarrow> go_bind (yaml_skip s) (\<lambda>s'. Ok (NAlias line name, [], s'))
   | ESeqStart a line # _ \<Rightarrow> go_bind (yaml_skip s) (\<lambda>s'. go_bind (yaml_parse_items s') (\<lambda>(ns, es, s'').
       Ok (NSeq line ns, anchor_entry a (NSeq line ns) @ es, s'')))
   | EMapStart a line # _ \<Rightarrow> go_bind (yaml_skip s) (\<lambda>s'. go_bind (yaml_parse_pairs s') (\<lambda>(ps, es, s'').
       Ok (NMap line ps, anchor_entry a (NMap line ps) @ es, s'')))
   | _ \<Rightarrow> Panic)"
| "yaml_parse_items s =
     (if at_event ESeqEnd s then go_bind (yaml_skip s) (\<lambda>s'. Ok ([], [], s'))
      else go_bind (yaml_parse s) (\<lambda>(n, es, s').
        if length (fst s') < length (fst s)
        then go_bind (yaml_parse_items s') (\<lambda>(ns, es', s''). Ok (n # ns, es @ es', s'')) else Panic))"
| "yaml_parse_pairs s =
     (if at_event EMapEnd s then go_bind (yaml_skip s) (\<lambda>s'. Ok ([], [], s'))
      else go_bind (yaml_parse s) (\<lambda>(k, es, s').
        if length (fst s') < length (fst s)
        then go_bind (yaml_parse s') (\<lambda>(v, es', s'').
          if length (fst s'') < length (fst s')
          then go_bind (yaml_parse_pairs s'') (\<lambda>(ps, es2, s3). Ok ((k, v) # ps, es @ es' @ es2, s3)) else Panic)
        else Panic))"
  by pat_completeness auto
termination
  by (relation "measure (\<lambda>x. case x of Inl s \<Rightarrow> 2 * length (fst s)
      | Inr (Inl s) \<Rightarrow> 2 * length (fst s) + 1 | Inr (Inr s) \<Rightarrow> 2 * length (fst s) + 1)")
    (auto dest!: yaml_skip_shorter)

declare yaml_parse.simps [simp del] yaml_parse_items.simps [simp del] yaml_parse_pairs.simps [simp del]

text \<open>\<open>document\<close> of the parser: the anchors are the last recorded under each name.\<close>

definition yaml_parse_document :: "yevents \<Rightarrow> (ynode \<times> anchors) go" where
  "yaml_parse_document s =
     go_bind (yaml_skip s) (\<lambda>s1. go_bind (yaml_parse s1) (\<lambda>(n, es, s2).
       if at_event EDocEnd s2 then go_bind (yaml_skip s2) (\<lambda>_. Ok (n, rev es)) else Panic))"

section \<open>Types\<close>

text \<open>A map carries its name, which only error messages show.  A nil slice or map is \<^term>\<open>YNull\<close>.\<close>

datatype gtype = TStr | TBool | TInt | TIface | TSlice gtype | TMap string gtype gtype

fun gtype_name :: "gtype \<Rightarrow> string" where
  "gtype_name TStr = ''string''"
| "gtype_name TBool = ''bool''"
| "gtype_name TInt = ''int64''"
| "gtype_name TIface = ''interface {}''"
| "gtype_name (TSlice t) = ''[]'' @ gtype_name t"
| "gtype_name (TMap name kt et) = name"

fun zero_value :: "gtype \<Rightarrow> yval" where
  "zero_value TStr = YStr []"
| "zero_value TBool = YBool False"
| "zero_value TInt = YInt 0"
| "zero_value TIface = YNull"
| "zero_value (TSlice t) = YNull"
| "zero_value (TMap name kt et) = YNull"

definition defaultMapType :: gtype where
  "defaultMapType = TMap ''map[interface {}]interface {}'' TIface TIface"

text \<open>Setting a key of a Go map: NaN is equal to no key, not even itself.\<close>

definition map_put :: "yval \<Rightarrow> yval \<Rightarrow> (yval \<times> yval) list \<Rightarrow> (yval \<times> yval) list" where
  "map_put k v m = (if k = YFloat ''NaN'' then m @ [(k, v)] else alist_set k v m)"

fun map_entries :: "yval \<Rightarrow> (yval \<times> yval) list" where
  "map_entries (YMap m) = m"
| "map_entries _ = []"

text \<open>
  What the decoder uses of the standard library: \<open>ParseFloat\<close>, a float as an \<open>int64\<close> (\<open>None\<close> when it exceeds \<open>MaxInt64\<close>), and the
  Go syntax of a value (\<open>%#v\<close>).
\<close>

record yaml_std =
  ys_ParseFloat :: "string \<Rightarrow> string option"
  ys_FloatInt :: "string \<Rightarrow> 64 word option"
  ys_GoSyntax :: "yval \<Rightarrow> string"

section \<open>Decoding\<close>

text \<open>The value, whether it is good, and the type errors so far.\<close>

type_synonym decoded = "(yval \<times> bool \<times> string list) go"

type_synonym decode_fn = "ynode \<Rightarrow> gtype \<Rightarrow> yval \<Rightarrow> string list \<Rightarrow> decoded"

definition terror_text :: "nat \<Rightarrow> string \<Rightarrow> string \<Rightarrow> string \<Rightarrow> string \<Rightarrow> string" where
  "terror_text line ntag value tag0 type_name =
     (let tag = (if ntag \<noteq> [] then ntag else tag0);
          text = (if tag \<noteq> yaml_tag ''seq'' \<and> tag \<noteq> yaml_tag ''map''
            then (if length value > 10 then '' `'' @ take 7 value @ ''...`'' else '' `'' @ value @ ''`'') else value)
      in ''line '' @ show_nat (line + 1) @ '': cannot unmarshal '' @ shortTag tag @ text @ '' into '' @ type_name)"

definition terror :: "nat \<Rightarrow> string \<Rightarrow> string \<Rightarrow> string \<Rightarrow> gtype \<Rightarrow> string list \<Rightarrow> string list" where
  "terror line ntag value tag0 ty terrors = terrors @ [terror_text line ntag value tag0 (gtype_name ty)]"

text \<open>The value and the tag a scalar resolves to; binary data is decoded.\<close>

definition scalar_resolved :: "yaml_std \<Rightarrow> string \<Rightarrow> string \<Rightarrow> bool \<Rightarrow> (string \<times> yval) go" where
  "scalar_resolved ys ntag value implicit =
     (if ntag = [] \<and> \<not> implicit then Ok (yaml_tag ''str'', YStr value)
      else go_bind (resolve (ys_ParseFloat ys) ntag value) (\<lambda>(tag, resolved).
        if tag = yaml_tag ''binary''
        then (case base64_DecodeString (case resolved of YStr s \<Rightarrow> s | _ \<Rightarrow> []) of
            None \<Rightarrow> Err ''yaml: !!binary value contains invalid base64 data''
          | Some data \<Rightarrow> Ok (tag, YStr data))
        else Ok (tag, resolved)))"

definition scalar_into :: "yaml_std \<Rightarrow> string \<Rightarrow> string \<Rightarrow> yval \<Rightarrow> gtype \<Rightarrow> yval option" where
  "scalar_into ys value tag resolved ty = (case ty of
     TStr \<Rightarrow> Some (if tag = yaml_tag ''binary'' then resolved else YStr value)
   | TIface \<Rightarrow> Some resolved
   | TInt \<Rightarrow> (case resolved of
         YInt i \<Rightarrow> if i < 2 ^ 63 then Some (YInt i) else None
       | YFloat f \<Rightarrow> map_option (\<lambda>w. YInt (sint w)) (ys_FloatInt ys f)
       | _ \<Rightarrow> None)
   | TBool \<Rightarrow> (case resolved of YBool b \<Rightarrow> Some resolved | _ \<Rightarrow> None)
   | _ \<Rightarrow> None)"

definition yaml_scalar :: "yaml_std \<Rightarrow> string \<Rightarrow> string \<Rightarrow> bool \<Rightarrow> nat \<Rightarrow> gtype \<Rightarrow> yval \<Rightarrow> string list \<Rightarrow> decoded" where
  "yaml_scalar ys ntag value implicit line ty cur terrors =
     go_bind (scalar_resolved ys ntag value implicit) (\<lambda>(tag, resolved).
       if resolved = YNull then Ok (zero_value ty, True, terrors)
       else (case scalar_into ys value tag resolved ty of
           Some v \<Rightarrow> Ok (v, True, terrors)
         | None \<Rightarrow> Ok (cur, False, terror line ntag value tag ty terrors)))"

definition sequence_step :: "decode_fn \<Rightarrow> gtype \<Rightarrow> ynode \<Rightarrow> yval list \<times> string list \<Rightarrow> (yval list \<times> string list) go" where
  "sequence_step um et n = (\<lambda>(vs, terrors).
     go_bind (um n et (zero_value et) terrors) (\<lambda>(v, good, terrors').
       Ok (if good then vs @ [v] else vs, terrors')))"

definition yaml_sequence :: "decode_fn \<Rightarrow> nat \<Rightarrow> ynode list \<Rightarrow> gtype \<Rightarrow> yval \<Rightarrow> string list \<Rightarrow> decoded" where
  "yaml_sequence um line ns ty cur terrors =
     (case (case ty of TSlice t \<Rightarrow> Some t | TIface \<Rightarrow> Some TIface | _ \<Rightarrow> None) of
       None \<Rightarrow> Ok (cur, False, terror line [] [] (yaml_tag ''seq'') ty terrors)
     | Some et \<Rightarrow> go_bind (go_fold (sequence_step um et) ns ([], terrors)) (\<lambda>(vs, terrors'). Ok (YSeq vs, True, terrors')))"

text \<open>\<open>merge\<close> of the value of a \<open><<\<close> key into the map being decoded; a sequence backwards, as its earlier maps take precedence.\<close>

definition failWantMap :: string where
  "failWantMap = ''yaml: map merge requires map or sequence of maps as the value''"

fun is_mapping :: "ynode \<Rightarrow> bool" where
  "is_mapping (NMap _ _) = True"
| "is_mapping _ = False"

definition mergeable :: "anchors \<Rightarrow> ynode \<Rightarrow> bool" where
  "mergeable anchors n = (case n of
     NMap _ _ \<Rightarrow> True
   | NAlias _ name \<Rightarrow> (case map_of anchors name of Some an \<Rightarrow> is_mapping an | None \<Rightarrow> True)
   | _ \<Rightarrow> False)"

definition merge_step :: "decode_fn \<Rightarrow> anchors \<Rightarrow> gtype \<Rightarrow> ynode \<Rightarrow> (yval \<times> yval) list \<times> string list
    \<Rightarrow> ((yval \<times> yval) list \<times> string list) go" where
  "merge_step um anchors mt n = (\<lambda>(m, terrors).
     if mergeable anchors n
     then go_bind (um n mt (YMap m) terrors) (\<lambda>(v, good, terrors'). Ok (map_entries v, terrors'))
     else Err failWantMap)"

definition yaml_merge :: "decode_fn \<Rightarrow> anchors \<Rightarrow> gtype \<Rightarrow> ynode \<Rightarrow> (yval \<times> yval) list \<times> string list
    \<Rightarrow> ((yval \<times> yval) list \<times> string list) go" where
  "yaml_merge um anchors mt n = (case n of
     NSeq _ ns \<Rightarrow> go_fold (merge_step um anchors mt) (rev ns)
   | _ \<Rightarrow> merge_step um anchors mt n)"

fun isMerge :: "ynode \<Rightarrow> bool" where
  "isMerge (NScalar tag value implicit _) = (value = ''<<'' \<and> (implicit \<or> tag = yaml_tag ''merge''))"
| "isMerge _ = False"

fun is_container :: "yval \<Rightarrow> bool" where
  "is_container (YSeq _) = True"
| "is_container (YMap _) = True"
| "is_container _ = False"

text \<open>One turn of the loop of \<open>mapping\<close>, for a map of type \<open>mt\<close> with keys \<open>kt\<close> and elements \<open>et\<close>.\<close>

definition mapping_step :: "yaml_std \<Rightarrow> decode_fn \<Rightarrow> anchors \<Rightarrow> gtype \<Rightarrow> gtype \<Rightarrow> gtype \<Rightarrow> ynode \<times> ynode
    \<Rightarrow> (yval \<times> yval) list \<times> string list \<Rightarrow> ((yval \<times> yval) list \<times> string list) go" where
  "mapping_step ys um anchors mt kt et = (\<lambda>(kn, vn) (m, terrors).
     if isMerge kn then yaml_merge um anchors mt vn (m, terrors)
     else go_bind (um kn kt (zero_value kt) terrors) (\<lambda>(k, kgood, terrors1).
       if \<not> kgood then Ok (m, terrors1)
       else if is_container k then Err (''yaml: invalid map key: '' @ ys_GoSyntax ys k)
       else go_bind (um vn et (zero_value et) terrors1) (\<lambda>(v, vgood, terrors2).
         Ok (if vgood then map_put k v m else m, terrors2))))"

definition yaml_mapping :: "yaml_std \<Rightarrow> decode_fn \<Rightarrow> anchors \<Rightarrow> nat \<Rightarrow> (ynode \<times> ynode) list \<Rightarrow> gtype \<Rightarrow> yval \<Rightarrow> string list \<Rightarrow> decoded" where
  "yaml_mapping ys um anchors line ps ty cur terrors =
     (case (case ty of TIface \<Rightarrow> Some (defaultMapType, TIface, TIface, []) | TMap _ kt et \<Rightarrow> Some (ty, kt, et, map_entries cur) | _ \<Rightarrow> None) of
       None \<Rightarrow> Ok (cur, False, terror line [] [] (yaml_tag ''map'') ty terrors)
     | Some (mt, kt, et, m) \<Rightarrow>
         go_bind (go_fold (mapping_step ys um anchors mt kt et) ps (m, terrors)) (\<lambda>(m', terrors'). Ok (YMap m', True, terrors')))"

text \<open>
  The nodes a collection decodes: its children, and the elements of a sequence that is merged.  The three rules say that
  the methods above call the decoder on these only, and so that the recursion of \<open>unmarshal\<close> ends.
\<close>

fun node_elems :: "ynode \<Rightarrow> ynode list" where
  "node_elems (NSeq _ ns) = ns"
| "node_elems _ = []"

lemma yaml_sequence_cong [fundef_cong]:
  assumes "line = line'" "ns = ns'" "ty = ty'" "cur = cur'" "terrors = terrors'"
    and "\<And>n t c tr. n \<in> set ns' \<Longrightarrow> um n t c tr = um' n t c tr"
  shows "yaml_sequence um line ns ty cur terrors = yaml_sequence um' line' ns' ty' cur' terrors'"
proof -
  have "sequence_step um et n = sequence_step um' et n" if "n \<in> set ns'" for et n
    using assms(6) [OF that] by (simp add: sequence_step_def)
  then have "go_fold (sequence_step um et) ns' acc = go_fold (sequence_step um' et) ns' acc" for et acc
    by (intro go_fold_cong) auto
  then show ?thesis using assms(1-5) by (simp add: yaml_sequence_def cong: option.case_cong)
qed

lemma yaml_merge_cong:
  assumes "\<And>m t c tr. m = n \<or> m \<in> set (node_elems n) \<Longrightarrow> um m t c tr = um' m t c tr"
  shows "yaml_merge um anchors mt n acc = yaml_merge um' anchors mt n acc"
proof -
  have "merge_step um anchors mt m acc = merge_step um' anchors mt m acc" if "m = n \<or> m \<in> set (node_elems n)" for m acc
    using assms [OF that] by (auto simp: merge_step_def split: prod.split)
  then show ?thesis
    by (cases n) (auto simp: yaml_merge_def intro!: go_fold_cong)
qed

lemma yaml_mapping_cong [fundef_cong]:
  assumes "ys = ys'" "anchors = anchors'" "line = line'" "ps = ps'" "ty = ty'" "cur = cur'" "terrors = terrors'"
    and "\<And>n t c tr. \<exists>k v. (k, v) \<in> set ps' \<and> (n = k \<or> n = v \<or> n \<in> set (node_elems v)) \<Longrightarrow> um n t c tr = um' n t c tr"
  shows "yaml_mapping ys um anchors line ps ty cur terrors = yaml_mapping ys' um' anchors' line' ps' ty' cur' terrors'"
proof -
  have "mapping_step ys um anchors mt kt et p acc = mapping_step ys um' anchors mt kt et p acc" if p: "p \<in> set ps'" for mt kt et p acc
  proof -
    obtain k v m tr where eq: "p = (k, v)" "acc = (m, tr)" by (cases p, cases acc)
    have "um k = um' k" "um v = um' v"
      using p eq by (intro ext assms(8); blast)+
    moreover have "yaml_merge um anchors mt v acc = yaml_merge um' anchors mt v acc"
      using p eq by (intro yaml_merge_cong assms(8)) blast
    ultimately show ?thesis using eq by (simp add: mapping_step_def cong: if_cong)
  qed
  then have "go_fold (mapping_step ys um anchors mt kt et) ps' acc = go_fold (mapping_step ys um' anchors mt kt et) ps' acc" for mt kt et acc
    by (intro go_fold_cong) auto
  then show ?thesis using assms(1-7) by (simp add: yaml_mapping_def cong: option.case_cong)
qed

text \<open>
  \<open>unmarshal\<close>, with the aliases being expanded.  An alias expands an anchor that is not yet being expanded, and otherwise the nodes
  get smaller.
\<close>

lemma node_elems_size: "n \<in> set (node_elems v) \<Longrightarrow> size n < size v"
  by (cases v) (auto simp: less_Suc_eq_le intro!: size_list_estimation')

lemma pair_size: "(k, v) \<in> set ps \<Longrightarrow> size k + size v < size_list (size_prod size size) ps"
  by (induction ps) auto

function (sequential) unmarshal :: "yaml_std \<Rightarrow> anchors \<Rightarrow> string list \<Rightarrow> decode_fn" where
  "unmarshal ys anchors active (NAlias line name) ty cur terrors = (case map_of anchors name of
     None \<Rightarrow> Err (''yaml: unknown anchor '' @ [CHR 0x27] @ name @ [CHR 0x27] @ '' referenced'')
   | Some an \<Rightarrow>
       if name \<in> set active then Err (''yaml: anchor '' @ [CHR 0x27] @ name @ [CHR 0x27] @ '' value contains itself'')
       else unmarshal ys anchors (name # active) an ty cur terrors)"
| "unmarshal ys anchors active (NScalar ntag value implicit line) ty cur terrors =
     yaml_scalar ys ntag value implicit line ty cur terrors"
| "unmarshal ys anchors active (NSeq line ns) ty cur terrors =
     yaml_sequence (\<lambda>n t c tr. unmarshal ys anchors active n t c tr) line ns ty cur terrors"
| "unmarshal ys anchors active (NMap line ps) ty cur terrors =
     yaml_mapping ys (\<lambda>n t c tr. unmarshal ys anchors active n t c tr) anchors line ps ty cur terrors"
  by pat_completeness auto
termination
proof (relation "measures [\<lambda>(ys, anchors, active, n, ty, cur, terrors). card (fst ` set anchors - set active),
    \<lambda>(ys, anchors, active, n, ty, cur, terrors). size n]", goal_cases)
  case (2 ys anchors active line name ty cur terrors an)
  then have "name \<in> fst ` set anchors - set active" by (force dest: map_of_SomeD)
  moreover have "fst ` set anchors - set (name # active) = (fst ` set anchors - set active) - {name}" by auto
  ultimately have "card (fst ` set anchors - set (name # active)) < card (fst ` set anchors - set active)"
    by (metis card_Diff1_less finite_Diff finite_imageI finite_set)
  then show ?case by simp
next
  case (3 ys anchors active line ns ty cur terrors n t c tr)
  then show ?case using node_elems_size [of n "NSeq line ns"] by simp
next
  case (4 ys anchors active line ps ty cur terrors n t c tr)
  then show ?case using node_elems_size by (fastforce dest!: pair_size)
qed simp

declare unmarshal.simps [simp del]

text \<open>\<open>document\<close> and \<open>Unmarshal\<close>.  The stream stands after its start; \<open>problem\<close> is the text of a failure with its line.\<close>

definition yaml_Unmarshal_events :: "yaml_std \<Rightarrow> yevents \<Rightarrow> gtype \<Rightarrow> yval go" where
  "yaml_Unmarshal_events ys s ty = (case s of
     ([], problem) \<Rightarrow> Err (''yaml: '' @ problem)
   | (EStreamEnd # _, _) \<Rightarrow> Ok (zero_value ty)
   | (EDocStart # _, _) \<Rightarrow> go_bind (yaml_parse_document s) (\<lambda>(n, anchors).
       go_bind (unmarshal ys anchors [] n ty (zero_value ty) []) (\<lambda>(v, good, terrors).
         if terrors = [] then Ok v
         else Err (''yaml: unmarshal errors:'' @ [CHR 0x0A] @ ''  '' @ join (CHR 0x0A # ''  '') terrors)))
   | _ \<Rightarrow> Panic)"

definition yaml_Unmarshal :: "yaml_std \<Rightarrow> (string \<Rightarrow> yevents) \<Rightarrow> string \<Rightarrow> gtype \<Rightarrow> yval go" where
  "yaml_Unmarshal ys scan bytes ty = yaml_Unmarshal_events ys (scan (if bytes = [] then [CHR 0x0A] else bytes)) ty"

section \<open>Parsing events\<close>

lemma yaml_parse_shorter:
  "yaml_parse s = Ok (n, es, s') \<Longrightarrow> length (fst s') < length (fst s)"
  "yaml_parse_items s = Ok (ns, es, s') \<Longrightarrow> length (fst s') < length (fst s)"
  "yaml_parse_pairs s = Ok (ps, es, s') \<Longrightarrow> length (fst s') < length (fst s)"
proof (induction s and s and s arbitrary: n es s' and ns es s' and ps es s'
    rule: yaml_parse_yaml_parse_items_yaml_parse_pairs.induct)
  case (1 s)
  from "1.prems" show ?case
    apply (subst (asm) yaml_parse.simps)
    apply (auto simp: go_inv Let_def split: list.splits yevent.splits dest: yaml_skip_shorter) 
    using "1.IH" yaml_skip_shorter [of s] by fastforce+
next
  case (2 s)
  from "2.prems" show ?case
    apply (subst (asm) yaml_parse_items.simps)
    apply (auto simp: go_inv split: if_splits dest: yaml_skip_shorter)
    using "2.IH" yaml_skip_shorter [of s] by fastforce+
next
  case (3 s)
  show ?case
  proof (cases "at_event EMapEnd s")
    case True
    then show ?thesis
      using "3.prems" yaml_skip_shorter [of s] by (subst (asm) yaml_parse_pairs.simps) (auto simp: go_inv)
  next
    case False
    with "3.prems" obtain k e1 s1 v e2 s2 qs e3 where
      steps: "yaml_parse s = Ok (k, e1, s1)" "length (fst s1) < length (fst s)" "yaml_parse s1 = Ok (v, e2, s2)"
        "length (fst s2) < length (fst s1)" "yaml_parse_pairs s2 = Ok (qs, e3, s')"
      by (subst (asm) yaml_parse_pairs.simps) (auto simp: go_inv split: if_splits)
    have "length (fst s') < length (fst s2)"
      by (rule "3.IH"(3) [OF False steps(1) refl refl steps(2) steps(3) refl refl steps(4) steps(5)])
    then show ?thesis using steps by simp
  qed
qed

section \<open>Types of decoded values\<close>

definition keys_distinct :: "(yval \<times> yval) list \<Rightarrow> bool" where
  "keys_distinct m \<longleftrightarrow> distinct (filter (\<lambda>k. k \<noteq> YFloat ''NaN'') (map fst m))"

fun iface_value :: "yval \<Rightarrow> bool" where
  "iface_value (YInt i) = (- (2 ^ 63) \<le> i \<and> i < 2 ^ 64)"
| "iface_value (YSeq vs) = (\<forall>v \<in> set vs. iface_value v)"
| "iface_value (YMap m) = (keys_distinct m \<and> (\<forall>(k, v) \<in> set m. \<not> is_container k \<and> iface_value k \<and> iface_value v))"
| "iface_value _ = True"

fun has_type :: "gtype \<Rightarrow> yval \<Rightarrow> bool" where
  "has_type TStr v = (case v of YStr _ \<Rightarrow> True | _ \<Rightarrow> False)"
| "has_type TBool v = (case v of YBool _ \<Rightarrow> True | _ \<Rightarrow> False)"
| "has_type TInt v = (case v of YInt i \<Rightarrow> - (2 ^ 63) \<le> i \<and> i < 2 ^ 63 | _ \<Rightarrow> False)"
| "has_type TIface v = iface_value v"
| "has_type (TSlice t) v = (case v of YNull \<Rightarrow> True | YSeq vs \<Rightarrow> (\<forall>w \<in> set vs. has_type t w) | _ \<Rightarrow> False)"
| "has_type (TMap _ kt et) v = (case v of YNull \<Rightarrow> True
     | YMap m \<Rightarrow> keys_distinct m \<and> (\<forall>(k, w) \<in> set m. \<not> is_container k \<and> has_type kt k \<and> has_type et w)
     | _ \<Rightarrow> False)"

lemma has_type_zero [simp]: "has_type ty (zero_value ty)"
  by (cases ty) auto

lemma has_type_default [simp]: "has_type defaultMapType (YMap m) = iface_value (YMap m)"
  by (simp add: defaultMapType_def)

lemma alist_set_set: "set (alist_set k v m) \<subseteq> insert (k, v) (set m)"
  by (induction k v m rule: alist_set.induct) auto

lemma map_put_set: "set (map_put k v m) \<subseteq> insert (k, v) (set m)"
  using alist_set_set [of k v m] by (auto simp: map_put_def)

lemma keys_distinct_put: "keys_distinct m \<Longrightarrow> keys_distinct (map_put k v m)"
proof (cases "k = YFloat ''NaN''")
  case False
  assume "keys_distinct m"
  with False have "keys_distinct (alist_set k v m)"
  proof (induction k v m rule: alist_set.induct)
    case (2 k v k' v' m)
    have "fst ` set (alist_set k v m) = insert k (fst ` set m)" by simp
    then show ?case using 2 by (auto simp: keys_distinct_def rev_image_eqI)
  qed (simp add: keys_distinct_def)
  then show ?thesis using False by (simp add: map_put_def)
qed (simp add: map_put_def keys_distinct_def)

text \<open>
  The contract of the calls of the decoder on a set of nodes: a value has the type asked for when the value it replaces had it, the
  type errors only grow, and a value that is not good has left one.
\<close>

lemma sequence_step_apply: "sequence_step um et n (vs, tr) =
    go_bind (um n et (zero_value et) tr) (\<lambda>(v, good, tr'). Ok (if good then vs @ [v] else vs, tr'))"
  by (simp add: sequence_step_def)

lemma merge_step_apply: "merge_step um anchors mt n (m, tr) = (if mergeable anchors n
    then go_bind (um n mt (YMap m) tr) (\<lambda>(v, good, tr'). Ok (map_entries v, tr')) else Err failWantMap)"
  by (simp add: merge_step_def)

lemma mapping_step_apply: "mapping_step ys um anchors mt kt et (kn, vn) (m, tr) =
    (if isMerge kn then yaml_merge um anchors mt vn (m, tr)
     else go_bind (um kn kt (zero_value kt) tr) (\<lambda>(k, kgood, tr1).
       if \<not> kgood then Ok (m, tr1)
       else if is_container k then Err (''yaml: invalid map key: '' @ ys_GoSyntax ys k)
       else go_bind (um vn et (zero_value et) tr1) (\<lambda>(v, vgood, tr2). Ok (if vgood then map_put k v m else m, tr2))))"
  by (simp add: mapping_step_def)

lemma go_fold_invariant:
  assumes "go_fold f xs s = Ok s'" "P s" "\<And>x t t'. x \<in> set xs \<Longrightarrow> P t \<Longrightarrow> f x t = Ok t' \<Longrightarrow> P t'"
  shows "P s'"
  using assms
proof (induction xs arbitrary: s)
  case (Cons x xs)
  then obtain t where "f x s = Ok t" "go_fold f xs t = Ok s'" by (auto simp: go_inv)
  then show ?case using Cons by (auto intro: Cons.IH [of t])
qed simp

locale decoder_contract =
  fixes um :: decode_fn and S :: "ynode set"
  assumes typed: "n \<in> S \<Longrightarrow> um n ty cur tr = Ok (v, good, tr') \<Longrightarrow> has_type ty cur \<Longrightarrow> has_type ty v"
    and grows: "n \<in> S \<Longrightarrow> um n ty cur tr = Ok (v, good, tr') \<Longrightarrow> has_type ty cur \<Longrightarrow>
      \<exists>new. tr' = tr @ new \<and> (new = [] \<longrightarrow> good)"
begin

lemma sequence_fold:
  assumes "go_fold (sequence_step um et) ns (vs0, tr) = Ok (vs, tr')" "set ns \<subseteq> S" "\<forall>v \<in> set vs0. has_type et v"
  shows "(\<forall>v \<in> set vs. has_type et v) \<and> (\<exists>new. tr' = tr @ new \<and> (new = [] \<longrightarrow> length vs = length vs0 + length ns))"
  using assms
proof (induction ns arbitrary: vs0 tr)
  case (Cons n ns)
  from Cons.prems(1) obtain v good tr1 where v: "um n et (zero_value et) tr = Ok (v, good, tr1)"
    and rest: "go_fold (sequence_step um et) ns (if good then vs0 @ [v] else vs0, tr1) = Ok (vs, tr')"
    by (cases "um n et (zero_value et) tr") (auto simp: sequence_step_apply)
  have n: "n \<in> S" using Cons.prems(2) by simp
  have "has_type et v" by (rule typed [OF n v]) simp
  then have "\<forall>w \<in> set (if good then vs0 @ [v] else vs0). has_type et w" using Cons.prems(3) by simp
  note IH = Cons.IH [OF rest _ this]
  obtain new1 where new1: "tr1 = tr @ new1" "new1 = [] \<longrightarrow> good" using grows [OF n v] by auto
  obtain new2 where "tr' = tr1 @ new2" "new2 = [] \<longrightarrow> length vs = length (if good then vs0 @ [v] else vs0) + length ns"
    using IH Cons.prems(2) by auto
  then have "tr' = tr @ (new1 @ new2) \<and> (new1 @ new2 = [] \<longrightarrow> length vs = length vs0 + length (n # ns))"
    using new1 by auto
  then show ?case using IH Cons.prems(2) by auto
qed auto

lemma sequence_ok:
  assumes "yaml_sequence um line ns ty cur tr = Ok (v, good, tr')" "has_type ty cur" "set ns \<subseteq> S"
  shows "has_type ty v \<and> (\<exists>new. tr' = tr @ new \<and> (new = [] \<longrightarrow> good))"
  using assms by (auto simp: yaml_sequence_def terror_def Let_def go_inv split: gtype.splits dest!: sequence_fold)

lemma merge_step_ok:
  assumes "merge_step um anchors mt n (m, tr) = Ok (m', tr')" "n \<in> S" "has_type mt (YMap m)" "mt = TMap name kt et"
  shows "has_type mt (YMap m') \<and> (\<exists>new. tr' = tr @ new)"
proof -
  obtain v good where v: "um n mt (YMap m) tr = Ok (v, good, tr')" "m' = map_entries v"
    using assms(1) by (auto simp: merge_step_apply go_inv split: if_splits)
  have "has_type mt v" by (rule typed [OF assms(2) v(1) assms(3)])
  then have "has_type mt (YMap m')" using assms(4) v(2) by (auto simp: keys_distinct_def split: yval.splits)
  then show ?thesis using grows [OF assms(2) v(1) assms(3)] by blast
qed

lemma merge_ok:
  assumes "yaml_merge um anchors mt n (m, tr) = Ok (m', tr')" "n \<in> S" "set (node_elems n) \<subseteq> S" "has_type mt (YMap m)" "mt = TMap name kt et"
  shows "has_type mt (YMap m') \<and> (\<exists>new. tr' = tr @ new)"
proof (cases "\<exists>line ns. n = NSeq line ns")
  case False
  then have "merge_step um anchors mt n (m, tr) = Ok (m', tr')"
    using assms(1) by (cases n) (auto simp: yaml_merge_def)
  then show ?thesis using assms by (intro merge_step_ok)
next
  case True
  then obtain line ns where n: "n = NSeq line ns" by blast
  let ?P = "\<lambda>(m', tr'). has_type mt (YMap m') \<and> (\<exists>new. tr' = tr @ new)"
  have "?P (m', tr')"
  proof (rule go_fold_invariant [where f = "merge_step um anchors mt" and xs = "rev ns" and s = "(m, tr)"])
    show "go_fold (merge_step um anchors mt) (rev ns) (m, tr) = Ok (m', tr')" using assms(1) n by (simp add: yaml_merge_def)
  next
    fix x t t'
    assume "x \<in> set (rev ns)" "?P t" "merge_step um anchors mt x t = Ok t'"
    then show "?P t'"
      using merge_step_ok [of anchors mt x "fst t" "snd t" "fst t'" "snd t'" name kt et] assms(3,5) n by fastforce
  qed (use assms in simp)
  then show ?thesis by simp
qed

lemma mapping_step_ok:
  assumes "mapping_step ys um anchors mt kt et (kn, vn) (m, tr) = Ok (m', tr')" "kn \<in> S" "vn \<in> S" "set (node_elems vn) \<subseteq> S"
    "has_type mt (YMap m)" "mt = TMap name kt et"
  shows "has_type mt (YMap m') \<and> (\<exists>new. tr' = tr @ new)"
proof (cases "isMerge kn")
  case True
  then show ?thesis using assms merge_ok [of anchors mt vn m tr m' tr'] by (simp add: mapping_step_apply)
next
  case False
  with assms(1) obtain k kgood tr1 where k: "um kn kt (zero_value kt) tr = Ok (k, kgood, tr1)"
    by (auto simp: mapping_step_apply go_inv)
  have k_type: "has_type kt k" by (rule typed [OF assms(2) k]) simp
  obtain new1 where new1: "tr1 = tr @ new1" using grows [OF assms(2) k] by auto
  show ?thesis
  proof (cases kgood)
    case True
    with False k assms(1) obtain v vgood where k_ok: "\<not> is_container k" and v: "um vn et (zero_value et) tr1 = Ok (v, vgood, tr')"
      and m': "m' = (if vgood then map_put k v m else m)"
      by (auto simp: mapping_step_apply go_inv split: if_splits)
    have "has_type et v" by (rule typed [OF assms(3) v]) simp
    then have "has_type mt (YMap m')"
      using assms(5,6) k_ok k_type m' map_put_set [of k v m] keys_distinct_put [of m k v] by auto
    then show ?thesis using grows [OF assms(3) v has_type_zero] new1 by auto
  qed (use False k assms new1 in \<open>auto simp: mapping_step_apply\<close>)
qed

lemma mapping_fold:
  assumes "go_fold (mapping_step ys um anchors mt kt et) ps (m, tr) = Ok (m', tr')"
    "\<forall>(k, v) \<in> set ps. k \<in> S \<and> v \<in> S \<and> set (node_elems v) \<subseteq> S" "has_type mt (YMap m)" "mt = TMap name kt et"
  shows "has_type mt (YMap m') \<and> (\<exists>new. tr' = tr @ new)"
proof -
  let ?P = "\<lambda>(m', tr'). has_type mt (YMap m') \<and> (\<exists>new. tr' = tr @ new)"
  have "?P (m', tr')"
  proof (rule go_fold_invariant [OF assms(1)])
    fix p t t'
    assume "p \<in> set ps" "?P t" "mapping_step ys um anchors mt kt et p t = Ok t'"
    then show "?P t'"
      using mapping_step_ok [of ys anchors mt kt et "fst p" "snd p" "fst t" "snd t" "fst t'" "snd t'" name] assms(2,4) by fastforce
  qed (use assms(3) in simp)
  then show ?thesis by simp
qed

lemma mapping_ok:
  assumes "yaml_mapping ys um anchors line ps ty cur tr = Ok (v, good, tr')" "has_type ty cur"
    "\<forall>(k, v) \<in> set ps. k \<in> S \<and> v \<in> S \<and> set (node_elems v) \<subseteq> S"
  shows "has_type ty v \<and> (\<exists>new. tr' = tr @ new \<and> (new = [] \<longrightarrow> good))"
proof (cases ty)
  case TIface
  with assms(1) obtain m where "go_fold (mapping_step ys um anchors defaultMapType TIface TIface) ps ([], tr) = Ok (m, tr')"
    "v = YMap m" good
    by (auto simp: yaml_mapping_def go_inv)
  moreover have "has_type defaultMapType (YMap [])" by (simp add: keys_distinct_def)
  ultimately show ?thesis
    using mapping_fold [OF _ assms(3), of ys anchors defaultMapType TIface TIface "[]" tr m tr'] TIface
    by (metis defaultMapType_def has_type.simps(4) has_type_default)
next
  case (TMap name kt et)
  with assms(1) obtain m where "go_fold (mapping_step ys um anchors ty kt et) ps (map_entries cur, tr) = Ok (m, tr')"
    "v = YMap m" good
    by (auto simp: yaml_mapping_def go_inv)
  moreover have "has_type ty (YMap (map_entries cur))"
    using assms(2) TMap by (auto simp: keys_distinct_def split: yval.splits)
  ultimately show ?thesis using mapping_fold [OF _ assms(3)] TMap by blast
qed (use assms in \<open>auto simp: yaml_mapping_def terror_def Let_def\<close>)

end

lemma scalar_resolved_value: "scalar_resolved ys ntag value implicit = Ok (tag, v) \<Longrightarrow> scalar_value v"
  using resolve_scalar by (fastforce simp: scalar_resolved_def go_inv split: if_splits option.splits)

text \<open>Every call of the decoder keeps the contract.\<close>

lemma sint_bounds: "- (2 ^ 63) \<le> sint (w :: 64 word)" "sint (w :: 64 word) < 2 ^ 63"
  using sint_greater_eq [of w] sint_less [of w] by simp_all

lemma scalar_into_type:
  assumes "scalar_into ys value tag resolved ty = Some v" "scalar_value resolved" "tag = yaml_tag ''binary'' \<longrightarrow> (\<exists>s. resolved = YStr s)"
  shows "has_type ty v"
proof (cases ty)
  case TIface
  then show ?thesis using assms(1,2) by (cases resolved) (auto simp: scalar_into_def)
next
  case TInt
  then show ?thesis using assms(1,2) sint_bounds by (cases resolved) (auto simp: scalar_into_def split: if_splits)
next
  case TBool
  then show ?thesis using assms(1) by (cases resolved) (auto simp: scalar_into_def)
qed (use assms(1,3) in \<open>auto simp: scalar_into_def split: if_splits\<close>)

lemma scalar_resolved_binary:
  "scalar_resolved ys ntag value implicit = Ok (tag, v) \<Longrightarrow> tag = yaml_tag ''binary'' \<Longrightarrow> \<exists>s. v = YStr s"
  by (auto simp: scalar_resolved_def go_inv split: if_splits option.splits)

lemma scalar_ok:
  assumes "yaml_scalar ys ntag value implicit line ty cur tr = Ok (v, good, tr')" "has_type ty cur"
  shows "has_type ty v \<and> (\<exists>new. tr' = tr @ new \<and> (new = [] \<longrightarrow> good))"
proof -
  obtain tag resolved where r: "scalar_resolved ys ntag value implicit = Ok (tag, resolved)"
    using assms(1) by (auto simp: yaml_scalar_def go_inv)
  show ?thesis
  proof (cases "resolved = YNull")
    case False
    then show ?thesis
      using assms r scalar_into_type [where tag = tag and ty = ty, OF _ scalar_resolved_value [OF r]] scalar_resolved_binary [OF r]
      by (auto simp: yaml_scalar_def terror_def Let_def split: option.splits)
  qed (use assms(1) r in \<open>auto simp: yaml_scalar_def\<close>)
qed

lemma unmarshal_contract:
  assumes "unmarshal ys anchors active n ty cur tr = Ok (v, good, tr')" "has_type ty cur"
  shows "has_type ty v \<and> (\<exists>new. tr' = tr @ new \<and> (new = [] \<longrightarrow> good))"
  using assms
proof (induction ys anchors active n ty cur tr arbitrary: v good tr' rule: unmarshal.induct)
  case (1 ys anchors active line name ty cur terrors)
  then show ?case by (auto simp: unmarshal.simps(1) split: option.splits if_splits)
next
  case (2 ys anchors active ntag val impl line ty cur terrors)
  then show ?case by (intro scalar_ok) (simp_all add: unmarshal.simps)
next
  case (3 ys anchors active line ns ty cur terrors)
  have "decoder_contract (unmarshal ys anchors active) (set ns)"
    by unfold_locales (use "3.IH" in blast)+
  then show ?case
    using "3.prems" decoder_contract.sequence_ok [of "unmarshal ys anchors active" "set ns" line ns ty cur terrors v good tr']
    by (simp add: unmarshal.simps)
next
  case (4 ys anchors active line ps ty cur terrors)
  let ?S = "{n. \<exists>k v. (k, v) \<in> set ps \<and> (n = k \<or> n = v \<or> n \<in> set (node_elems v))}"
  have "decoder_contract (unmarshal ys anchors active) ?S"
    by unfold_locales (use "4.IH" in blast)+
  moreover have "\<forall>(k, v) \<in> set ps. k \<in> ?S \<and> v \<in> ?S \<and> set (node_elems v) \<subseteq> ?S" by blast
  ultimately show ?case
    using "4.prems" decoder_contract.mapping_ok [of "unmarshal ys anchors active" ?S ys anchors line ps ty cur terrors v good tr']
    by (simp add: unmarshal.simps)
qed

text \<open>The contract of the decoder's calls holds of \<open>unmarshal\<close> on every node.\<close>

interpretation decoder: decoder_contract "unmarshal ys anchors active" UNIV for ys anchors active
  by unfold_locales (use unmarshal_contract in blast)+

section \<open>The events of a document\<close>

text \<open>A document with its anchors, the events the scanner reports of it, its node, and the anchors in the order of their nodes.\<close>

datatype ytree =
    TreeScalar "string option" string string bool nat
  | TreeSeq "string option" nat "ytree list"
  | TreeMap "string option" nat "(ytree \<times> ytree) list"
  | TreeAlias string nat

fun events_of :: "ytree \<Rightarrow> yevent list" where
  "events_of (TreeScalar a tag val implicit line) = [EScalar a tag val implicit line]"
| "events_of (TreeSeq a line ts) = ESeqStart a line # concat (map events_of ts) @ [ESeqEnd]"
| "events_of (TreeMap a line ps) = EMapStart a line # concat (map (\<lambda>(k, v). events_of k @ events_of v) ps) @ [EMapEnd]"
| "events_of (TreeAlias name line) = [EAlias name line]"

fun node_of :: "ytree \<Rightarrow> ynode" where
  "node_of (TreeScalar a tag val implicit line) = NScalar tag val implicit line"
| "node_of (TreeSeq a line ts) = NSeq line (map node_of ts)"
| "node_of (TreeMap a line ps) = NMap line (map (\<lambda>(k, v). (node_of k, node_of v)) ps)"
| "node_of (TreeAlias name line) = NAlias line name"

fun anchors_of :: "ytree \<Rightarrow> anchors" where
  "anchors_of (TreeScalar a tag val implicit line) = anchor_entry a (NScalar tag val implicit line)"
| "anchors_of (TreeSeq a line ts) = anchor_entry a (node_of (TreeSeq a line ts)) @ concat (map anchors_of ts)"
| "anchors_of (TreeMap a line ps) =
     anchor_entry a (node_of (TreeMap a line ps)) @ concat (map (\<lambda>(k, v). anchors_of k @ anchors_of v) ps)"
| "anchors_of (TreeAlias name line) = []"

lemma yaml_skip_more: "e \<noteq> EStreamEnd \<Longrightarrow> rest \<noteq> [] \<Longrightarrow> yaml_skip (e # rest, problem) = Ok (rest, problem)"
  by (cases e; cases rest) auto

lemma events_of_start: "\<exists>e es. events_of t = e # es \<and> e \<noteq> ESeqEnd \<and> e \<noteq> EMapEnd"
  by (cases t) auto

lemma yaml_parse_items_events:
  assumes "\<And>t rest. t \<in> set ts \<Longrightarrow> rest \<noteq> [] \<Longrightarrow> yaml_parse (events_of t @ rest, p) = Ok (node_of t, anchors_of t, (rest, p))" "rest \<noteq> []"
  shows "yaml_parse_items (concat (map events_of ts) @ ESeqEnd # rest, p) =
    Ok (map node_of ts, concat (map anchors_of ts), (rest, p))"
  using assms(1)
proof (induction ts)
  case Nil
  then show ?case using assms(2) by (simp add: yaml_parse_items.simps at_event_def yaml_skip_more)
next
  case (Cons t ts)
  let ?tl = "concat (map events_of ts) @ ESeqEnd # rest"
  obtain e es where e: "events_of t = e # es" "e \<noteq> ESeqEnd" using events_of_start by blast
  have "yaml_parse (events_of t @ ?tl, p) = Ok (node_of t, anchors_of t, (?tl, p))" using Cons.prems by simp
  then show ?case
    using Cons e by (subst yaml_parse_items.simps) (simp add: at_event_def)
qed

lemma yaml_parse_pairs_events:
  assumes "\<And>t rest. t \<in> fst ` set ps \<union> snd ` set ps \<Longrightarrow> rest \<noteq> [] \<Longrightarrow>
      yaml_parse (events_of t @ rest, p) = Ok (node_of t, anchors_of t, (rest, p))" "rest \<noteq> []"
  shows "yaml_parse_pairs (concat (map (\<lambda>(k, v). events_of k @ events_of v) ps) @ EMapEnd # rest, p) =
    Ok (map (\<lambda>(k, v). (node_of k, node_of v)) ps, concat (map (\<lambda>(k, v). anchors_of k @ anchors_of v) ps), (rest, p))"
  using assms(1)
proof (induction ps)
  case Nil
  then show ?case using assms(2) by (simp add: yaml_parse_pairs.simps at_event_def yaml_skip_more)
next
  case (Cons kv ps)
  obtain k v where kv: "kv = (k, v)" by (cases kv)
  let ?tl = "concat (map (\<lambda>(k, v). events_of k @ events_of v) ps) @ EMapEnd # rest"
  obtain e es where e: "events_of k = e # es" "e \<noteq> EMapEnd" using events_of_start by blast
  obtain e' es' where e': "events_of v = e' # es'" using events_of_start by blast
  have "yaml_parse (events_of k @ (events_of v @ ?tl), p) = Ok (node_of k, anchors_of k, (events_of v @ ?tl, p))"
    "yaml_parse (events_of v @ ?tl, p) = Ok (node_of v, anchors_of v, (?tl, p))"
    using Cons.prems [of k] Cons.prems [of v] kv by simp_all
  then show ?case
    using Cons e e' kv by (subst yaml_parse_pairs.simps) (simp add: at_event_def)
qed

lemma yaml_parse_events: "rest \<noteq> [] \<Longrightarrow> yaml_parse (events_of t @ rest, p) = Ok (node_of t, anchors_of t, (rest, p))"
proof (induction t arbitrary: rest)
  case (TreeSeq a line ts)
  have "yaml_parse_items (concat (map events_of ts) @ ESeqEnd # rest, p) = Ok (map node_of ts, concat (map anchors_of ts), (rest, p))"
    using TreeSeq by (intro yaml_parse_items_events) auto
  then show ?case by (simp add: yaml_parse.simps yaml_skip_more)
next
  case (TreeMap a line ps)
  have "yaml_parse_pairs (concat (map (\<lambda>(k, v). events_of k @ events_of v) ps) @ EMapEnd # rest, p) =
      Ok (map (\<lambda>(k, v). (node_of k, node_of v)) ps, concat (map (\<lambda>(k, v). anchors_of k @ anchors_of v) ps), (rest, p))"
    using TreeMap by (intro yaml_parse_pairs_events) (fastforce simp: fsts.simps snds.simps)+
  then show ?case by (simp add: yaml_parse.simps yaml_skip_more)
qed (simp_all add: yaml_parse.simps yaml_skip_more Let_def)

text \<open>The events of a document are decoded as its node, with the last anchor recorded under each name.\<close>

definition document_events :: "ytree \<Rightarrow> yevent list" where
  "document_events t = EDocStart # events_of t @ [EDocEnd, EStreamEnd]"

lemma yaml_parse_document_events: "yaml_parse_document (document_events t, p) = Ok (node_of t, rev (anchors_of t))"
  using yaml_parse_events [of "[EDocEnd, EStreamEnd]" t p]
  by (simp add: yaml_parse_document_def document_events_def yaml_skip_more at_event_def)

section \<open>The services of a compose file\<close>

text \<open>\<open>Unmarshal\<close> into a \<open>RawServiceMap\<close> of \<open>libcompose\<close>: a nil service is an empty one.\<close>

definition RawServiceMap_type :: gtype where
  "RawServiceMap_type = TMap ''project.RawServiceMap'' TStr (TMap ''project.RawService'' TStr TIface)"

fun yval_string :: "yval \<Rightarrow> string" where
  "yval_string (YStr s) = s"
| "yval_string _ = []"

definition raw_services :: "yval \<Rightarrow> RawServiceMap" where
  "raw_services v = map (\<lambda>(n, s). (yval_string n, map (\<lambda>(k, w). (yval_string k, w)) (map_entries s))) (map_entries v)"

definition yaml_RawServiceMap :: "yaml_std \<Rightarrow> (string \<Rightarrow> yevents) \<Rightarrow> string \<Rightarrow> RawServiceMap go" where
  "yaml_RawServiceMap ys scan bytes = go_bind (yaml_Unmarshal ys scan bytes RawServiceMap_type) (\<lambda>v. Ok (raw_services v))"

lemma yaml_Unmarshal_typed: "yaml_Unmarshal ys scan bytes ty = Ok v \<Longrightarrow> has_type ty v"
  using unmarshal_contract [where cur = "zero_value ty" and ty = ty]
  by (fastforce simp: yaml_Unmarshal_def yaml_Unmarshal_events_def go_inv split: prod.splits list.splits yevent.splits if_splits)

lemma has_type_TStr: "has_type TStr v \<Longrightarrow> \<exists>s. v = YStr s"
  by (cases v) auto

lemma string_map:
  assumes "has_type (TMap name TStr et) v"
  shows "distinct (map (\<lambda>p. yval_string (fst p)) (map_entries v)) \<and> (\<forall>(k, w) \<in> set (map_entries v). has_type et w)"
proof (cases v)
  case (YMap m)
  have keys: "\<exists>s. k = YStr s" if "k \<in> set (map fst m)" for k
    using assms YMap that has_type_TStr by fastforce
  then have "filter (\<lambda>k. k \<noteq> YFloat ''NaN'') (map fst m) = map fst m" by (fastforce intro!: filter_True)
  then have "distinct (map fst m)" using assms YMap by (simp add: keys_distinct_def)
  moreover have "inj_on yval_string (set (map fst m))"
    by (rule inj_onI) (metis keys yval_string.simps(1))
  ultimately have "distinct (map yval_string (map fst m))" by (simp only: distinct_map simp_thms)
  then show ?thesis using assms YMap by (auto simp: comp_def)
qed (use assms in simp_all)

text \<open>
  C11: What is read from a compose file is a well-formed map of services: names and keys are distinct and every value is
  a string, a number that fits 64 bits, a boolean, a null, or a list or map of such values whose keys are distinct
  and no collections, whatever the bytes, the scanner and the anchors, aliases and merges in the file.\<close>

theorem yaml_RawServiceMap_wf:
  assumes "yaml_RawServiceMap ys scan bytes = Ok raw"
  shows "distinct (map fst raw) \<and> (\<forall>(name, service) \<in> set raw. distinct (map fst service) \<and> (\<forall>(k, v) \<in> set service. iface_value v))"
proof -
  obtain v where v: "has_type RawServiceMap_type v" "raw = raw_services v"
    using assms yaml_Unmarshal_typed by (fastforce simp: yaml_RawServiceMap_def go_inv)
  note outer = string_map [OF v(1) [unfolded RawServiceMap_type_def]]
  have "distinct (map (\<lambda>p. yval_string (fst p)) (map_entries s)) \<and> (\<forall>(k, w) \<in> set (map_entries s). iface_value w)"
    if "(n, s) \<in> set (map_entries v)" for n s
    using outer that string_map [of "''project.RawService''" TIface s] by fastforce
  then show ?thesis using outer v(2) by (fastforce simp: raw_services_def comp_def case_prod_beta)
qed

text \<open>A document whose scalars are quoted is decoded without resolving them.\<close>

definition quoted :: "string option \<Rightarrow> string \<Rightarrow> ytree" where
  "quoted a s = TreeScalar a [] s False 0"

definition merge_key :: ytree where
  "merge_key = TreeScalar None [] ''<<'' True 0"

lemma yaml_tag_nonempty [simp]: "yaml_tag n \<noteq> []" "[] \<noteq> yaml_tag n"
  by (simp_all add: yaml_tag_def longTagPrefix_def)

lemma unmarshal_quoted:
  "unmarshal ys anchors active (NScalar [] s False line) TIface cur tr = Ok (YStr s, True, tr)"
  "unmarshal ys anchors active (NScalar [] s False line) TStr cur tr = Ok (YStr s, True, tr)"
  by (simp_all add: unmarshal.simps yaml_scalar_def scalar_resolved_def scalar_into_def)

lemma unmarshal_map_TIface: "unmarshal ys anchors active (NMap line ps) TIface cur tr =
    go_bind (go_fold (mapping_step ys (unmarshal ys anchors active) anchors defaultMapType TIface TIface) ps ([], tr))
      (\<lambda>(m', tr'). Ok (YMap m', True, tr'))"
  by (simp add: unmarshal.simps yaml_mapping_def)

lemma unmarshal_map_TMap: "unmarshal ys anchors active (NMap line ps) (TMap name kt et) cur tr =
    go_bind (go_fold (mapping_step ys (unmarshal ys anchors active) anchors (TMap name kt et) kt et) ps (map_entries cur, tr))
      (\<lambda>(m', tr'). Ok (YMap m', True, tr'))"
  by (simp add: unmarshal.simps yaml_mapping_def)

lemma map_put_str: "map_put (YStr k) v m = alist_set (YStr k) v m"
  by (simp add: map_put_def)

lemma yaml_Unmarshal_document: "yaml_Unmarshal_events ys (document_events t, p) ty =
    go_bind (unmarshal ys (rev (anchors_of t)) [] (node_of t) ty (zero_value ty) []) (\<lambda>(v, good, terrors).
      if terrors = [] then Ok v
      else Err (''yaml: unmarshal errors:'' @ [CHR 0x0A] @ ''  '' @ join (CHR 0x0A # ''  '') terrors))"
  using yaml_parse_document_events [of t p] by (simp add: yaml_Unmarshal_events_def document_events_def)

text \<open>
  A merge key takes effect where it stands: a key written before it is overridden by the merged map, one written
  after it overrides the merged map, although a merge is meant never to override the keys of the map itself.\<close>

theorem merge_in_document_order:
  "yaml_Unmarshal_events ys (document_events (TreeMap None 0
      [(quoted None key, quoted None own), (merge_key, TreeMap None 0 [(quoted None key, quoted None base)])]), p) TIface
    = Ok (YMap [(YStr key, YStr base)])
   \<and> yaml_Unmarshal_events ys (document_events (TreeMap None 0
      [(merge_key, TreeMap None 0 [(quoted None key, quoted None base)]), (quoted None key, quoted None own)]), p) TIface
    = Ok (YMap [(YStr key, YStr own)])"
  by (simp add: yaml_Unmarshal_document quoted_def merge_key_def unmarshal_map_TIface unmarshal_map_TMap mapping_step_apply unmarshal_quoted
      map_put_str yaml_merge_def merge_step_apply mergeable_def defaultMapType_def)

text \<open>
  An alias stands for the last value in the document that is anchored under its name, also for one written after
  it, not for the last before it.\<close>

theorem alias_sees_last_anchor:
  assumes "distinct [k1, k2, k3]"
  shows "yaml_Unmarshal_events ys (document_events (TreeMap None 0
      [(quoted None k1, quoted (Some x) s1), (quoted None k2, TreeAlias x 0), (quoted None k3, quoted (Some x) s3)]), p) TIface
    = Ok (YMap [(YStr k1, YStr s1), (YStr k2, YStr s3), (YStr k3, YStr s3)])"
  using assms
  by (auto simp: yaml_Unmarshal_document quoted_def unmarshal_map_TIface mapping_step_apply unmarshal_quoted
      unmarshal.simps(1) map_put_str anchor_entry_def)

theorem alias_sees_last_anchor_witness:
  "yaml_Unmarshal_events \<lparr>ys_ParseFloat = (\<lambda>_. None), ys_FloatInt = (\<lambda>_. None), ys_GoSyntax = (\<lambda>_. [])\<rparr>
     (document_events (TreeMap None 0
      [(quoted None ''a'', quoted (Some ''x'') ''1''), (quoted None ''b'', TreeAlias ''x'' 0), (quoted None ''c'', quoted (Some ''x'') ''3'')]), [])
     TIface = Ok (YMap [(YStr ''a'', YStr ''1''), (YStr ''b'', YStr ''3''), (YStr ''c'', YStr ''3'')])"
  by (rule alias_sees_last_anchor) simp

theorem yaml_RawServiceMap_wf_witness:
  "yaml_RawServiceMap \<lparr>ys_ParseFloat = (\<lambda>_. None), ys_FloatInt = (\<lambda>_. None), ys_GoSyntax = (\<lambda>_. [])\<rparr>
     (\<lambda>_. (document_events (TreeMap None 0 [(quoted None ''web'', TreeMap None 0 [(quoted None ''image'', quoted None ''nginx'')])]), []))
     ''web'' = Ok [(''web'', [(''image'', YStr ''nginx'')])] \<and> iface_value (YStr ''nginx'')"
  (is "?read \<and> _")
proof -
  have read: ?read
    by (simp add: yaml_RawServiceMap_def yaml_Unmarshal_def RawServiceMap_type_def yaml_Unmarshal_document quoted_def
        unmarshal_map_TIface unmarshal_map_TMap mapping_step_apply unmarshal_quoted map_put_str raw_services_def)
  from yaml_RawServiceMap_wf [OF this] show ?thesis using read by simp
qed

end
