(* ===== verification/Yaml_Encode.thy ===== *)
theory Yaml_Encode
  imports Yaml_Decode
begin

text \<open>
  The YAML encoder, \<open>gopkg.in/yaml.v2/encode.go\<close>, from a Go value to the events given to the emitter, and the round trip through
  \<open>Marshal\<close> and \<open>Unmarshal\<close> that \<open>utils.Convert\<close> of \<open>libcompose\<close> makes.  The emitter and the scanner between the two are a parameter,
  of which the round trip relies on \<open>carries\<close>.  Values are those of a compose file: structs, pointers, \<open>MapSlice\<close>
  and types with a marshaller of their own are left out.  A map is listed in the order of its sorted keys.
\<close>

section \<open>Events for the emitter\<close>

datatype scalar_style = PlainStyle | SingleQuotedStyle | DoubleQuotedStyle | LiteralStyle

text \<open>A scalar has its text, its tag (implicit when empty) and its style.\<close>

datatype eevent =
    XScalar string string scalar_style
  | XSeqStart
  | XSeqEnd
  | XMapStart
  | XMapEnd
  | XDocStart
  | XDocEnd
  | XStreamEnd

text \<open>Base 60 numbers: \<^verbatim>\<open>^[-+]?[0-9][0-9_]*(?::[0-5]?[0-9])+(?:\.[0-9_]*)?$\<close>.\<close>

definition digit_or_underscore :: "char \<Rightarrow> bool" where
  "digit_or_underscore c \<longleftrightarrow> is_digit c \<or> c = CHR ''_''"

fun base60_groups :: "string \<Rightarrow> bool" where
  "base60_groups [] = True"
| "base60_groups (c # s) =
     (if c = CHR ''.'' then list_all digit_or_underscore s
      else if c = CHR '':'' then (case s of
          a # b # t \<Rightarrow> if is_digit b then is_digit a \<and> (of_char a :: nat) \<le> 53 \<and> base60_groups t
                      else is_digit a \<and> base60_groups (b # t)
        | [a] \<Rightarrow> is_digit a
        | [] \<Rightarrow> False)
      else False)"

definition base60float :: "string \<Rightarrow> bool" where
  "base60float s =
     (let t = (case s of c # cs \<Rightarrow> if c = CHR ''-'' \<or> c = CHR ''+'' then cs else s | [] \<Rightarrow> s);
          groups = dropWhile digit_or_underscore t
      in t \<noteq> [] \<and> is_digit (hd t) \<and> groups \<noteq> [] \<and> hd groups = CHR '':'' \<and> base60_groups groups)"

definition isBase60Float :: "string \<Rightarrow> bool" where
  "isBase60Float s \<longleftrightarrow> s \<noteq> [] \<and> (hd s = CHR ''+'' \<or> hd s = CHR ''-'' \<or> is_digit (hd s)) \<and> CHR '':'' \<in> set s \<and> base60float s"

definition stringv :: "(string \<Rightarrow> string option) \<Rightarrow> string \<Rightarrow> string \<Rightarrow> eevent go" where
  "stringv ParseFloat tag0 s0 =
     go_bind (resolve ParseFloat [] s0) (\<lambda>(rtag, rs).
     go_bind (if rtag = yaml_tag ''binary''
       then (if tag0 = [] \<or> tag0 = yaml_tag ''str'' then Ok (rtag, (case rs of YStr s \<Rightarrow> s | _ \<Rightarrow> []))
             else if tag0 = yaml_tag ''binary'' then Err ''yaml: explicitly tagged !!binary data must be base64-encoded''
             else Err (''yaml: cannot marshal invalid UTF-8 data as '' @ shortTag tag0))
       else Ok (tag0, s0)) (\<lambda>(tag, s).
     Ok (XScalar s tag (if tag = [] \<and> (rtag \<noteq> yaml_tag ''str'' \<or> isBase60Float s) then DoubleQuotedStyle
       else if CHR 0x0A \<in> set s then LiteralStyle else PlainStyle))))"

definition boolv :: "string \<Rightarrow> bool \<Rightarrow> eevent" where
  "boolv tag b = XScalar (if b then ''true'' else ''false'') tag PlainStyle"

definition intv :: "string \<Rightarrow> int \<Rightarrow> eevent" where
  "intv tag i = XScalar (show_int i) tag PlainStyle"

definition float_text :: "(string \<Rightarrow> string) \<Rightarrow> string \<Rightarrow> string" where
  "float_text FormatFloat f = (let s = FormatFloat f in
     if s = ''+Inf'' then ''.inf'' else if s = ''-Inf'' then ''-.inf'' else if s = ''NaN'' then ''.nan'' else s)"

definition floatv :: "(string \<Rightarrow> string) \<Rightarrow> string \<Rightarrow> string \<Rightarrow> eevent" where
  "floatv FormatFloat tag f = XScalar (float_text FormatFloat f) tag PlainStyle"

definition nilv :: eevent where
  "nilv = XScalar ''null'' [] PlainStyle"

record yaml_out =
  yo_ParseFloat :: "string \<Rightarrow> string option"
  yo_FormatFloat :: "string \<Rightarrow> string"

text \<open>The events of a sequence and of a mapping around those of their parts.\<close>

definition slicev :: "eevent list list \<Rightarrow> eevent list" where
  [simp]: "slicev es = XSeqStart # concat es @ [XSeqEnd]"

definition mappingv :: "eevent list list \<Rightarrow> eevent list" where
  [simp]: "mappingv es = XMapStart # concat es @ [XMapEnd]"

fun marshal :: "yaml_out \<Rightarrow> yval \<Rightarrow> eevent list go" where
  "marshal yo YNull = Ok [nilv]"
| "marshal yo (YBool b) = Ok [boolv [] b]"
| "marshal yo (YInt i) = Ok [intv [] i]"
| "marshal yo (YFloat f) = Ok [floatv (yo_FormatFloat yo) [] f]"
| "marshal yo (YStr s) = go_bind (stringv (yo_ParseFloat yo) [] s) (\<lambda>e. Ok [e])"
| "marshal yo (YSeq vs) = go_bind (go_map (\<lambda>v. marshal yo v) vs) (\<lambda>es. Ok (slicev es))"
| "marshal yo (YMap m) =
     go_bind (go_map (\<lambda>(k, v). go_bind (marshal yo k) (\<lambda>ek. go_bind (marshal yo v) (\<lambda>ev. Ok (ek @ ev)))) m)
       (\<lambda>es. Ok (mappingv es))"

text \<open>\<open>Marshal\<close>, up to the stream of events.\<close>

definition Marshal_events :: "yaml_out \<Rightarrow> yval \<Rightarrow> eevent list go" where
  "Marshal_events yo v = go_bind (marshal yo v) (\<lambda>es. Ok (XDocStart # es @ [XDocEnd, XStreamEnd]))"

section \<open>The style of a scalar\<close>

text \<open>
  \<open>yaml_emitter_analyze_scalar\<close> of \<open>emitterc.go\<close> with the tests of \<open>yamlprivateh.go\<close>, for an emitter with \<open>unicode\<close> set.  A byte
  past the end reads as 0; in valid UTF-8 the code reads none.
\<close>

definition byte_at :: "string \<Rightarrow> nat \<Rightarrow> nat" where
  "byte_at s i = (if i < length s then of_char (s ! i) else 0)"

definition char_width :: "nat \<Rightarrow> nat" where
  "char_width b = (if b < 0x80 then 1 else if b < 0xC0 then 0 else if b < 0xE0 then 2 else if b < 0xF0 then 3 else if b < 0xF8 then 4 else 0)"

definition is_printable :: "string \<Rightarrow> nat \<Rightarrow> bool" where
  "is_printable s i = (let b = byte_at s i; b1 = byte_at s (i + 1); b2 = byte_at s (i + 2) in
     b = 0x0A \<or> 0x20 \<le> b \<and> b \<le> 0x7E \<or> b = 0xC2 \<and> b1 \<ge> 0xA0 \<or> 0xC2 < b \<and> b < 0xED \<or> b = 0xED \<and> b1 < 0xA0 \<or> b = 0xEE
     \<or> b = 0xEF \<and> \<not> (b1 = 0xBB \<and> b2 = 0xBF) \<and> \<not> (b1 = 0xBF \<and> (b2 = 0xBE \<or> b2 = 0xBF)))"

definition is_blank :: "string \<Rightarrow> nat \<Rightarrow> bool" where
  "is_blank s i \<longleftrightarrow> byte_at s i = 0x20 \<or> byte_at s i = 0x09"

definition is_break :: "string \<Rightarrow> nat \<Rightarrow> bool" where
  "is_break s i = (let b = byte_at s i; b1 = byte_at s (i + 1); b2 = byte_at s (i + 2) in
     b = 0x0D \<or> b = 0x0A \<or> b = 0xC2 \<and> b1 = 0x85 \<or> b = 0xE2 \<and> b1 = 0x80 \<and> b2 = 0xA8 \<or> b = 0xE2 \<and> b1 = 0x80 \<and> b2 = 0xA9)"

definition is_blankz :: "string \<Rightarrow> nat \<Rightarrow> bool" where
  "is_blankz s i \<longleftrightarrow> is_blank s i \<or> is_break s i \<or> byte_at s i = 0"

record scalar_scan =
  sc_block_indicators :: bool
  sc_flow_indicators :: bool
  sc_line_breaks :: bool
  sc_special :: bool
  sc_leading :: bool
  sc_trailing_space :: bool
  sc_trailing_break :: bool
  sc_break_space :: bool
  sc_space_break :: bool
  sc_preceeded :: bool
  sc_previous_space :: bool
  sc_previous_break :: bool

text \<open>One turn of the loop; \<open>w\<close> is its step, the width of the first character.\<close>

definition flow_only :: "char set" where
  "flow_only = {CHR '','', CHR ''?'', CHR ''['', CHR '']'', CHR ''{'', CHR ''}''}"

definition always_special :: "char set" where
  "always_special = {CHR ''#'', CHR '','', CHR ''['', CHR '']'', CHR ''{'', CHR ''}'', CHR ''&'', CHR ''*'', CHR ''!'', CHR ''|'', CHR ''>'',
     CHR 0x27, CHR 0x22, CHR ''%'', CHR ''@'', CHR 0x60}"

definition scan_indicators :: "string \<Rightarrow> nat \<Rightarrow> nat \<Rightarrow> scalar_scan \<Rightarrow> scalar_scan" where
  "scan_indicators s w i st =
     (let c = s ! i; followed = (i + w \<ge> length s \<or> is_blank s (i + w)) in
      if i = 0 then
        (if c \<in> always_special then st\<lparr>sc_flow_indicators := True, sc_block_indicators := True\<rparr>
         else if c = CHR ''?'' \<or> c = CHR '':'' then
           st\<lparr>sc_flow_indicators := True, sc_block_indicators := sc_block_indicators st \<or> followed\<rparr>
         else if c = CHR ''-'' \<and> followed then st\<lparr>sc_flow_indicators := True, sc_block_indicators := True\<rparr>
         else st)
      else
        (if c \<in> flow_only then st\<lparr>sc_flow_indicators := True\<rparr>
         else if c = CHR '':'' then st\<lparr>sc_flow_indicators := True, sc_block_indicators := sc_block_indicators st \<or> followed\<rparr>
         else if c = CHR ''#'' \<and> sc_preceeded st then st\<lparr>sc_flow_indicators := True, sc_block_indicators := True\<rparr>
         else st))"

definition scan_spaces :: "string \<Rightarrow> nat \<Rightarrow> scalar_scan \<Rightarrow> scalar_scan" where
  "scan_spaces s i st =
     (if byte_at s i = 0x20 then
        st\<lparr>sc_leading := sc_leading st \<or> i = 0,
           sc_trailing_space := sc_trailing_space st \<or> i + char_width (byte_at s i) = length s,
           sc_break_space := sc_break_space st \<or> sc_previous_break st,
           sc_previous_space := True, sc_previous_break := False\<rparr>
      else if is_break s i then
        st\<lparr>sc_line_breaks := True, sc_leading := sc_leading st \<or> i = 0,
           sc_trailing_break := sc_trailing_break st \<or> i + char_width (byte_at s i) = length s,
           sc_space_break := sc_space_break st \<or> sc_previous_space st,
           sc_previous_space := False, sc_previous_break := True\<rparr>
      else st\<lparr>sc_previous_space := False, sc_previous_break := False\<rparr>)"

definition scan_step :: "string \<Rightarrow> nat \<Rightarrow> nat \<Rightarrow> scalar_scan \<Rightarrow> scalar_scan" where
  "scan_step s w i st0 =
     (let st1 = scan_indicators s w i st0;
          st2 = st1\<lparr>sc_special := sc_special st1 \<or> \<not> is_printable s i\<rparr>
      in (scan_spaces s i st2)\<lparr>sc_preceeded := is_blankz s i\<rparr>)"

definition scan_start :: "string \<Rightarrow> scalar_scan" where
  "scan_start s = (let marker = (take 3 s = ''---'' \<or> take 3 s = ''...'') in
     \<lparr>sc_block_indicators = marker, sc_flow_indicators = marker, sc_line_breaks = False, sc_special = False, sc_leading = False,
      sc_trailing_space = False, sc_trailing_break = False, sc_break_space = False, sc_space_break = False,
      sc_preceeded = True, sc_previous_space = False, sc_previous_break = False\<rparr>)"

record scalar_data =
  sd_multiline :: bool
  sd_flow_plain_allowed :: bool
  sd_block_plain_allowed :: bool
  sd_single_quoted_allowed :: bool
  sd_block_allowed :: bool

definition scan_result :: "scalar_scan \<Rightarrow> scalar_data" where
  "scan_result st =
     (let edge = (sc_leading st \<or> sc_trailing_space st \<or> sc_trailing_break st);
          odd = (sc_space_break st \<or> sc_special st)
      in \<lparr>sd_multiline = sc_line_breaks st,
          sd_flow_plain_allowed = (\<not> edge \<and> \<not> sc_break_space st \<and> \<not> odd \<and> \<not> sc_line_breaks st \<and> \<not> sc_flow_indicators st),
          sd_block_plain_allowed = (\<not> edge \<and> \<not> sc_break_space st \<and> \<not> odd \<and> \<not> sc_line_breaks st \<and> \<not> sc_block_indicators st),
          sd_single_quoted_allowed = (\<not> sc_break_space st \<and> \<not> odd),
          sd_block_allowed = (\<not> sc_trailing_space st \<and> \<not> odd)\<rparr>)"

text \<open>The indices the loop visits.  It steps by the width of the first character of the text, not of the one at hand; \<open>None\<close>, it does not end when that is 0.\<close>

definition scan_indices :: "string \<Rightarrow> nat list option" where
  "scan_indices s = (let w = char_width (byte_at s 0) in
     if w = 0 then None else Some (filter (\<lambda>i. i mod w = 0) [0..<length s]))"

definition analyze_scalar :: "string \<Rightarrow> scalar_data option" where
  "analyze_scalar s =
     (if s = [] then Some \<lparr>sd_multiline = False, sd_flow_plain_allowed = False, sd_block_plain_allowed = True,
        sd_single_quoted_allowed = True, sd_block_allowed = False\<rparr>
      else map_option (\<lambda>is. scan_result (fold (scan_step s (char_width (byte_at s 0))) is (scan_start s))) (scan_indices s))"

text \<open>
  \<open>yaml_emitter_select_scalar_style\<close>, for a scalar whose implicit flags say whether it has no tag, in a flow collection or not, as a
  simple key or not.
\<close>

definition select_scalar_style :: "bool \<Rightarrow> bool \<Rightarrow> string \<Rightarrow> scalar_style \<Rightarrow> scalar_style option" where
  "select_scalar_style flow simple_key s style0 = (case analyze_scalar s of
     None \<Rightarrow> None
   | Some d \<Rightarrow>
       (let style1 = (if simple_key \<and> sd_multiline d then DoubleQuotedStyle else style0);
            style2 = (if style1 = PlainStyle \<and>
                (flow \<and> \<not> sd_flow_plain_allowed d \<or> \<not> flow \<and> \<not> sd_block_plain_allowed d \<or> s = [] \<and> (flow \<or> simple_key))
              then SingleQuotedStyle else style1);
            style3 = (if style2 = SingleQuotedStyle \<and> \<not> sd_single_quoted_allowed d then DoubleQuotedStyle else style2)
        in Some (if style3 = LiteralStyle \<and> (\<not> sd_block_allowed d \<or> flow \<or> simple_key) then DoubleQuotedStyle else style3)))"

section \<open>Between the emitter and the scanner\<close>

text \<open>
  What the round trip relies on: the scanner reports the events that were emitted, a scalar with its text and tag, and as plain if it
  has no tag and was written in plain style.
\<close>

definition written_plain :: "bool \<Rightarrow> string \<Rightarrow> string \<Rightarrow> scalar_style \<Rightarrow> bool" where
  "written_plain simple_key s tag style \<longleftrightarrow> tag = [] \<and> select_scalar_style False simple_key s style = Some PlainStyle"

fun carries :: "eevent \<Rightarrow> yevent \<Rightarrow> bool" where
  "carries (XScalar s tag style) e = (case e of
     EScalar a tag' s' implicit line \<Rightarrow> a = None \<and> tag' = tag \<and> s' = s
       \<and> (implicit = written_plain False s tag style \<or> implicit = written_plain True s tag style)
   | _ \<Rightarrow> False)"
| "carries XSeqStart e = (case e of ESeqStart a line \<Rightarrow> a = None | _ \<Rightarrow> False)"
| "carries XSeqEnd e = (e = ESeqEnd)"
| "carries XMapStart e = (case e of EMapStart a line \<Rightarrow> a = None | _ \<Rightarrow> False)"
| "carries XMapEnd e = (e = EMapEnd)"
| "carries XDocStart e = (e = EDocStart)"
| "carries XDocEnd e = (e = EDocEnd)"
| "carries XStreamEnd e = (e = EStreamEnd)"

lemma carries_iff:
  "carries (XScalar s tag style) e \<longleftrightarrow> (\<exists>implicit line. e = EScalar None tag s implicit line \<and>
     (implicit = written_plain False s tag style \<or> implicit = written_plain True s tag style))"
  "carries XSeqStart e \<longleftrightarrow> (\<exists>line. e = ESeqStart None line)"
  "carries XMapStart e \<longleftrightarrow> (\<exists>line. e = EMapStart None line)"
  by (cases e; simp)+

declare carries.simps(1,2,4) [simp del]

section \<open>The choice of the plain style\<close>

text \<open>Texts of letters, digits, signs and dots are written plain, unless they are an indicator.\<close>

definition plain_char :: "char \<Rightarrow> bool" where
  "plain_char c \<longleftrightarrow> is_digit c \<or> is_upper c \<or> is_lower c \<or> c \<in> {CHR ''+'', CHR ''-'', CHR ''.''}"

definition plain_text :: "string \<Rightarrow> bool" where
  "plain_text s \<longleftrightarrow> s \<noteq> [] \<and> list_all plain_char s
     \<and> s \<noteq> ''-'' \<and> take 3 s \<noteq> ''---'' \<and> take 3 s \<noteq> ''...''"

lemma plain_text_bytes:
  assumes "plain_text s" "i < length s"
  shows "byte_at s i \<in> {43, 45, 46} \<union> {48..57} \<union> {65..90} \<union> {97..122}"
proof -
  have "s ! i \<in> set s" using assms(2) by simp
  then have "plain_char (s ! i)" using assms(1) by (simp add: plain_text_def list_all_iff)
  then show ?thesis using assms(2) by (auto simp: plain_char_def byte_at_def is_digit_def is_upper_def is_lower_def)
qed

lemma special_not_plain: "\<forall>c \<in> always_special \<union> flow_only \<union> {CHR '':'', CHR ''?'', CHR ''#''}. \<not> plain_char c"
  by code_simp

definition scan_clean :: "scalar_scan \<Rightarrow> bool" where
  "scan_clean st \<longleftrightarrow> \<not> sc_block_indicators st \<and> \<not> sc_line_breaks st \<and> \<not> sc_special st \<and> \<not> sc_leading st
     \<and> \<not> sc_trailing_space st \<and> \<not> sc_trailing_break st \<and> \<not> sc_break_space st \<and> \<not> sc_space_break st"

lemma char_of_byte: "i < length s \<Longrightarrow> s ! i = c \<longleftrightarrow> byte_at s i = of_char c"
  by (simp add: byte_at_def of_char_eq_iff)

lemma scan_step_plain:
  assumes "plain_text s" "i < length s" "scan_clean st"
  shows "scan_clean (scan_step s 1 i st)"
proof -
  note byte = plain_text_bytes [OF assms(1,2)]
  have dash: "s ! i \<noteq> CHR ''-'' \<or> i \<noteq> 0 \<or> \<not> (i + 1 \<ge> length s \<or> is_blank s (i + 1))"
  proof (cases "i = 0 \<and> s ! i = CHR ''-''")
    case True
    then have "length s \<noteq> 1" using assms(1) by (cases s) (auto simp: plain_text_def)
    then have "1 < length s" using assms(2) by linarith
    then show ?thesis using plain_text_bytes [OF assms(1), of 1] True by (auto simp: is_blank_def)
  qed auto
  have "s ! i \<notin> always_special" "s ! i \<notin> flow_only" "s ! i \<noteq> CHR '':''" "s ! i \<noteq> CHR ''?''" "s ! i \<noteq> CHR ''#''"
    using special_not_plain assms(1,2) by (fastforce simp: plain_text_def list_all_length)+
  then have "scan_indicators s 1 i st = st" using dash by (auto simp: scan_indicators_def Let_def simp del: One_nat_def)
  moreover have "is_printable s i" "\<not> is_break s i" "byte_at s i \<noteq> 32"
    using byte by (auto simp: is_printable_def is_break_def)
  ultimately show ?thesis using assms(3) by (simp add: scan_step_def scan_spaces_def scan_clean_def)
qed

lemma analyze_ascii:
  assumes "s \<noteq> []" "byte_at s 0 < 128"
  shows "analyze_scalar s = Some (scan_result (fold (scan_step s 1) [0..<length s] (scan_start s)))"
  using assms by (simp add: analyze_scalar_def scan_indices_def char_width_def)

lemma analyze_plain_text:
  assumes "plain_text s"
  shows "\<exists>d. analyze_scalar s = Some d \<and> sd_block_plain_allowed d \<and> \<not> sd_multiline d"
proof -
  have ne: "s \<noteq> []" using assms by (simp add: plain_text_def)
  have "scan_clean (fold (scan_step s 1) is (scan_start s))" if "set is \<subseteq> {0..<length s}" for "is"
  proof -
    have "scan_clean st \<Longrightarrow> scan_clean (fold (scan_step s 1) is st)" for st
      using that by (induction "is" arbitrary: st) (auto intro: scan_step_plain [OF assms, simplified])
    then show ?thesis using assms by (auto simp: scan_clean_def scan_start_def plain_text_def Let_def)
  qed
  then have "scan_clean (fold (scan_step s 1) [0..<length s] (scan_start s))" by simp
  moreover have "byte_at s 0 < 128" using plain_text_bytes [OF assms, of 0] ne by auto
  ultimately show ?thesis using analyze_ascii [OF ne] by (auto simp: scan_result_def scan_clean_def Let_def)
qed

lemma double_quoted_not_plain [simp]: "\<not> written_plain simple_key s tag DoubleQuotedStyle"
  by (auto simp: written_plain_def select_scalar_style_def Let_def split: option.splits if_splits)

lemma written_plain_text: "plain_text s \<Longrightarrow> written_plain simple_key s [] PlainStyle"
  using analyze_plain_text [of s] by (auto simp: written_plain_def select_scalar_style_def plain_text_def Let_def)

text \<open>A text that begins with an ASCII character is written plain only if it is read back as one scalar.\<close>

definition scan_unplain :: "scalar_scan \<Rightarrow> bool" where
  "scan_unplain st \<longleftrightarrow> \<not> sd_block_plain_allowed (scan_result st)"

lemma scan_unplain_mono: "scan_unplain st \<Longrightarrow> scan_unplain (scan_step s w i st)"
  by (simp add: scan_unplain_def scan_result_def scan_step_def scan_spaces_def scan_indicators_def Let_def) auto

lemma scan_unplain_fold: "scan_unplain st \<Longrightarrow> scan_unplain (fold (scan_step s w) is st)"
  by (induction "is" arbitrary: st) (auto intro: scan_unplain_mono)

lemma scan_unplain_at:
  assumes "i < n" "\<And>st. (i > 0 \<Longrightarrow> sc_preceeded st = is_blankz s (i - 1)) \<Longrightarrow> scan_unplain (scan_step s w i st)"
  shows "scan_unplain (fold (scan_step s w) [0..<n] st)"
proof -
  let ?st = "fold (scan_step s w) [0..<i] st"
  have "[0..<n] = [0..<i] @ i # [Suc i..<n]"
    using assms(1) upt_add_eq_append [of 0 i "n - i"] by (simp add: upt_conv_Cons)
  moreover have "scan_unplain (scan_step s w i ?st)"
  proof (rule assms(2))
    assume "i > 0"
    then obtain j where "i = Suc j" by (cases i) auto
    then show "sc_preceeded ?st = is_blankz s (i - 1)" by (simp add: scan_step_def Let_def)
  qed
  ultimately show ?thesis by (simp add: scan_unplain_fold)
qed



text \<open>
  The analysis steps by the width of the first character, so a text that begins with a wider one is not looked at
  in full: the two bytes of an accented letter before a colon and a space are written plain, and read back as a
  key.\<close>

theorem wide_character_hides_colon:
  "stringv (\<lambda>_. None) [] [CHR 0xC3, CHR 0xA9, CHR '':'', CHR '' '', CHR ''b'']
       = Ok (XScalar [CHR 0xC3, CHR 0xA9, CHR '':'', CHR '' '', CHR ''b''] [] PlainStyle)
     \<and> select_scalar_style False False [CHR 0xC3, CHR 0xA9, CHR '':'', CHR '' '', CHR ''b''] PlainStyle = Some PlainStyle
     \<and> select_scalar_style False False [CHR ''e'', CHR '':'', CHR '' '', CHR ''b''] PlainStyle = Some SingleQuotedStyle"
  by code_simp

section \<open>The round trip\<close>

text \<open>A value that can be written and read back: numbers that fit, floats whose text is read as the same float, and keys other than \<open><<\<close>.\<close>

fun encodable :: "yaml_out \<Rightarrow> yval \<Rightarrow> bool" where
  "encodable yo (YInt i) \<longleftrightarrow> - (2 ^ 63) \<le> i \<and> i < 2 ^ 64"
| "encodable yo (YFloat f) \<longleftrightarrow> (let s = float_text (yo_FormatFloat yo) f in
     plain_text s \<and> resolve_plain (yo_ParseFloat yo) s = (yaml_tag ''float'', YFloat f))"
| "encodable yo (YSeq vs) \<longleftrightarrow> (\<forall>v \<in> set vs. encodable yo v)"
| "encodable yo (YMap m) \<longleftrightarrow> distinct (map fst m) \<and> (\<forall>(k, v) \<in> set m.
     \<not> is_container k \<and> k \<noteq> YFloat ''NaN'' \<and> k \<noteq> YStr ''<<'' \<and> encodable yo k \<and> encodable yo v)"
| "encodable yo _ \<longleftrightarrow> True"

definition reads_back :: "yaml_std \<Rightarrow> ytree \<Rightarrow> yval \<Rightarrow> bool" where
  "reads_back ys t v \<longleftrightarrow> anchors_of t = [] \<and> (isMerge (node_of t) \<longrightarrow> v = YStr ''<<'') \<and>
     (\<forall>anchors active cur tr. unmarshal ys anchors active (node_of t) TIface cur tr = Ok (v, True, tr))"

lemma yaml_tag_inject [simp]: "yaml_tag a = yaml_tag b \<longleftrightarrow> a = b"
  by (simp add: yaml_tag_def)

lemma resolveMap_tag: "map_of resolveMap s = Some (v, t) \<Longrightarrow> t \<noteq> yaml_tag ''str'' \<and> t \<noteq> yaml_tag ''binary''"
proof -
  have "\<forall>p \<in> set resolveMap. snd (snd p) \<noteq> yaml_tag ''str'' \<and> snd (snd p) \<noteq> yaml_tag ''binary''" by (simp add: resolveMap_def)
  then show "map_of resolveMap s = Some (v, t) \<Longrightarrow> t \<noteq> yaml_tag ''str'' \<and> t \<noteq> yaml_tag ''binary''" by (fastforce dest!: map_of_SomeD)
qed

lemma resolve_number_tag: "resolve_number pf s = Some (t, v) \<Longrightarrow> t \<noteq> yaml_tag ''str'' \<and> t \<noteq> yaml_tag ''binary''"
  by (auto simp: resolve_number_def split: option.splits if_splits)

lemma resolve_plain_text:
  assumes "resolve_plain pf s = (t, v)"
  shows "t = yaml_tag ''str'' \<Longrightarrow> v = YStr s" "t = yaml_tag ''binary'' \<Longrightarrow> v = YStr (encodeBase64 s)"
  using assms resolveMap_tag [of s v t] resolve_number_tag [of pf _ t v]
  by (auto simp: resolve_plain_def resolve_text_def Let_def split: if_splits option.splits resolve_hint.splits prod.splits)

lemma carried_scalar:
  "list_all2 carries [XScalar s tag style] evs \<Longrightarrow>
    \<exists>implicit line. evs = events_of (TreeScalar None tag s implicit line)
      \<and> (implicit = written_plain False s tag style \<or> implicit = written_plain True s tag style)"
  by (auto simp: list_all2_Cons1 carries_iff)

text \<open>A plain scalar whose text is plain is resolved to its value.\<close>

lemma carried_plain:
  assumes "list_all2 carries [XScalar s [] PlainStyle] evs" "plain_text s" "resolve_plain (ys_ParseFloat ys) s = (t, v)"
    "t \<noteq> yaml_tag ''binary''"
  shows "\<exists>tree. evs = events_of tree \<and> reads_back ys tree v"
proof -
  obtain line where evs: "evs = events_of (TreeScalar None [] s True line)"
    using carried_scalar [OF assms(1)] written_plain_text [OF assms(2)] by auto
  have "s \<noteq> ''<<''" using assms(2) by (auto simp: plain_text_def plain_char_def is_digit_def is_upper_def is_lower_def)
  then have "reads_back ys (TreeScalar None [] s True line) v"
    using assms(3,4) by (auto simp: reads_back_def anchor_entry_def unmarshal.simps yaml_scalar_def scalar_resolved_def resolve_def
        resolvableTag_def scalar_into_def)
  then show ?thesis using evs by blast
qed

lemma plain_words: "plain_text ''null''" "plain_text ''true''" "plain_text ''false''"
  by code_simp+

lemma resolve_words: "resolve_plain pf ''null'' = (yaml_tag ''null'', YNull)"
  "resolve_plain pf ''true'' = (yaml_tag ''bool'', YBool True)" "resolve_plain pf ''false'' = (yaml_tag ''bool'', YBool False)"
  by (simp_all add: resolve_plain_def resolveTable_def is_digit_def resolveMap_def)

lemma plain_show_int: "plain_text (show_int i)"
proof -
  obtain c cs where nat: "show_nat (nat \<bar>i\<bar>) = c # cs" by (cases "show_nat (nat \<bar>i\<bar>)") auto
  have digits: "\<forall>d \<in> set (c # cs). is_digit d" using show_nat_digits nat by metis
  then have "c \<noteq> CHR ''-''" "c \<noteq> CHR ''.''" by (auto simp: is_digit_def)
  then show ?thesis using digits nat by (auto simp: plain_text_def plain_char_def show_int_def list_all_iff)
qed

text \<open>A string comes back whatever its bytes and its style, binary data through its base 64 form.\<close>

lemma stringv_reads_back:
  assumes "yo_ParseFloat yo = ys_ParseFloat ys"
  shows "\<exists>e. marshal yo (YStr s) = Ok [e] \<and>
    (\<forall>evs. list_all2 carries [e] evs \<longrightarrow> (\<exists>t. evs = events_of t \<and> reads_back ys t (YStr s)))"
proof -
  obtain rtag rs where r: "resolve_plain (ys_ParseFloat ys) s = (rtag, rs)" by (cases "resolve_plain (ys_ParseFloat ys) s")
  then have resolved: "resolve (ys_ParseFloat ys) [] s = Ok (rtag, rs)" by (simp add: resolve_def resolvableTag_def)
  show ?thesis
  proof (cases "rtag = yaml_tag ''binary''")
    case True
    then have rs: "rs = YStr (encodeBase64 s)" using resolve_plain_text(2) [OF r] by simp
    obtain style where e: "marshal yo (YStr s) = Ok [XScalar (encodeBase64 s) (yaml_tag ''binary'') style]"
      using resolved True rs assms by (auto simp: stringv_def)
    have "reads_back ys (TreeScalar None (yaml_tag ''binary'') (encodeBase64 s) False line) (YStr s)" for line
      by (simp add: reads_back_def anchor_entry_def unmarshal.simps yaml_scalar_def scalar_resolved_def resolve_def resolvableTag_def
          encodeBase64_decodes scalar_into_def)
    then show ?thesis using e carried_scalar by (fastforce simp: written_plain_def simp del: list_all2_Cons1)
  next
    case False
    let ?style = "if rtag \<noteq> yaml_tag ''str'' \<or> isBase60Float s then DoubleQuotedStyle
       else if CHR 0x0A \<in> set s then LiteralStyle else PlainStyle"
    have e: "marshal yo (YStr s) = Ok [XScalar s [] ?style]"
      using resolved False assms by (simp add: stringv_def)
    have quoted_ok: "reads_back ys (TreeScalar None [] s False line) (YStr s)" for line
      by (simp add: reads_back_def anchor_entry_def unmarshal.simps yaml_scalar_def scalar_resolved_def scalar_into_def)
    have plain_ok: "reads_back ys (TreeScalar None [] s True line) (YStr s)" if "rtag = yaml_tag ''str''" for line
      using resolve_plain_text(1) [OF r that] resolved that
      by (simp add: reads_back_def anchor_entry_def unmarshal.simps yaml_scalar_def scalar_resolved_def scalar_into_def)
    show ?thesis
    proof (rule exI [of _ "XScalar s [] ?style"], intro conjI allI impI)
      show "marshal yo (YStr s) = Ok [XScalar s [] ?style]" by (rule e)
    next
      fix evs
      assume "list_all2 carries [XScalar s [] ?style] evs"
      then obtain implicit line where evs: "evs = events_of (TreeScalar None [] s implicit line)"
        and implicit: "implicit = written_plain False s [] ?style \<or> implicit = written_plain True s [] ?style"
        using carried_scalar by blast
      have "reads_back ys (TreeScalar None [] s implicit line) (YStr s)"
        using quoted_ok plain_ok implicit by (cases implicit; cases "rtag = yaml_tag ''str''") auto
      then show "\<exists>t. evs = events_of t \<and> reads_back ys t (YStr s)" using evs by blast
    qed
  qed
qed

text \<open>Collections: the parts come back one by one, each as a tree that is related to it.\<close>

definition comes_back :: "(ytree \<Rightarrow> yval \<Rightarrow> bool) \<Rightarrow> yaml_out \<Rightarrow> yval \<Rightarrow> bool" where
  "comes_back R yo v \<longleftrightarrow> (\<exists>es. marshal yo v = Ok es \<and>
     (\<forall>evs. list_all2 carries es evs \<longrightarrow> (\<exists>t. evs = events_of t \<and> R t v)))"

lemma sequence_comes_back:
  assumes "\<forall>v \<in> set vs. comes_back R yo v"
  shows "\<exists>es. go_map (marshal yo) vs = Ok es \<and> (\<forall>evs. list_all2 carries (concat es) evs \<longrightarrow>
    (\<exists>ts. evs = concat (map events_of ts) \<and> list_all2 R ts vs))"
  using assms
proof (induction vs)
  case (Cons v vs)
  then obtain e es where e: "marshal yo v = Ok e" "\<forall>evs. list_all2 carries e evs \<longrightarrow> (\<exists>t. evs = events_of t \<and> R t v)"
    and es: "go_map (marshal yo) vs = Ok es" "\<forall>evs. list_all2 carries (concat es) evs \<longrightarrow>
      (\<exists>ts. evs = concat (map events_of ts) \<and> list_all2 R ts vs)"
    by (auto simp: comes_back_def)
  have "\<exists>ts. evs = concat (map events_of ts) \<and> list_all2 R ts (v # vs)" if "list_all2 carries (concat (e # es)) evs" for evs
  proof -
    obtain ev1 ev2 where "evs = ev1 @ ev2" "list_all2 carries e ev1" "list_all2 carries (concat es) ev2"
      using \<open>list_all2 carries (concat (e # es)) evs\<close> by (auto simp: list_all2_append1)
    then obtain t ts where "evs = concat (map events_of (t # ts))" "list_all2 R (t # ts) (v # vs)"
      using e(2) es(2) by fastforce
    then show ?thesis by blast
  qed
  then show ?case using e(1) es(1) by auto
qed simp

lemma mapping_comes_back:
  assumes "\<forall>(k, v) \<in> set m. comes_back R yo k \<and> comes_back R yo v"
  shows "\<exists>es. go_map (\<lambda>(k, v). go_bind (marshal yo k) (\<lambda>ek. go_bind (marshal yo v) (\<lambda>ev. Ok (ek @ ev)))) m = Ok es \<and>
    (\<forall>evs. list_all2 carries (concat es) evs \<longrightarrow>
      (\<exists>ps. evs = concat (map (\<lambda>(k, v). events_of k @ events_of v) ps) \<and>
        list_all2 (\<lambda>(tk, tv) (k, v). R tk k \<and> R tv v) ps m))"
  using assms
proof (induction m)
  case (Cons kv m)
  obtain k v where kv: "kv = (k, v)" by (cases kv)
  with Cons obtain ek ev es where
    k: "marshal yo k = Ok ek" "\<forall>evs. list_all2 carries ek evs \<longrightarrow> (\<exists>t. evs = events_of t \<and> R t k)"
    and v: "marshal yo v = Ok ev" "\<forall>evs. list_all2 carries ev evs \<longrightarrow> (\<exists>t. evs = events_of t \<and> R t v)"
    and es: "go_map (\<lambda>(k, v). go_bind (marshal yo k) (\<lambda>ek. go_bind (marshal yo v) (\<lambda>ev. Ok (ek @ ev)))) m = Ok es"
      "\<forall>evs. list_all2 carries (concat es) evs \<longrightarrow> (\<exists>ps. evs = concat (map (\<lambda>(k, v). events_of k @ events_of v) ps) \<and>
        list_all2 (\<lambda>(tk, tv) (k, v). R tk k \<and> R tv v) ps m)"
    by (auto simp: comes_back_def)
  have "\<exists>ps. evs = concat (map (\<lambda>(k, v). events_of k @ events_of v) ps) \<and>
      list_all2 (\<lambda>(tk, tv) (k, v). R tk k \<and> R tv v) ps (kv # m)"
    if carried: "list_all2 carries (concat ((ek @ ev) # es)) evs" for evs
  proof -
    obtain e1 e2 e3 where parts: "evs = e1 @ e2 @ e3" "list_all2 carries ek e1" "list_all2 carries ev e2" "list_all2 carries (concat es) e3"
      using carried by (auto simp: list_all2_append1)
    obtain tk tv ps where "e1 = events_of tk" "R tk k" "e2 = events_of tv" "R tv v"
      "e3 = concat (map (\<lambda>(k, v). events_of k @ events_of v) ps)"
      "list_all2 (\<lambda>(tk, tv) (k, v). R tk k \<and> R tv v) ps m"
      using parts(2-4) k(2) v(2) es(2) by metis
    then have "evs = concat (map (\<lambda>(k, v). events_of k @ events_of v) ((tk, tv) # ps)) \<and>
        list_all2 (\<lambda>(tk, tv) (k, v). R tk k \<and> R tv v) ((tk, tv) # ps) (kv # m)"
      using parts(1) kv by simp
    then show ?thesis by blast
  qed
  then show ?case using k(1) v(1) es(1) kv by auto
qed simp

lemma reads_back_unmarshal: "reads_back ys t v \<Longrightarrow> unmarshal ys anchors active (node_of t) TIface cur tr = Ok (v, True, tr)"
  by (simp add: reads_back_def)

lemma sequence_reads_back:
  "list_all2 (reads_back ys) ts vs \<Longrightarrow>
    go_fold (sequence_step (unmarshal ys anchors active) TIface) (map node_of ts) (vs0, tr) = Ok (vs0 @ vs, tr)"
proof (induction ts arbitrary: vs vs0)
  case (Cons t ts)
  then obtain v vs' where "vs = v # vs'" "reads_back ys t v" "list_all2 (reads_back ys) ts vs'" by (auto simp: list_all2_Cons1)
  then show ?case using Cons.IH by (simp add: sequence_step_apply reads_back_unmarshal)
qed simp

lemma alist_set_fresh: "k \<notin> set (map fst m) \<Longrightarrow> alist_set k v m = m @ [(k, v)]"
  by (induction m) auto

lemma mapping_reads_back:
  assumes "list_all2 (\<lambda>(tk, tv) (k, v). reads_back ys tk k \<and> reads_back ys tv v) ps m"
    "distinct (map fst (m0 @ m))" "\<forall>(k, v) \<in> set m. \<not> is_container k \<and> k \<noteq> YStr ''<<''"
  shows "go_fold (mapping_step ys (unmarshal ys anchors active) anchors mt TIface TIface)
      (map (\<lambda>(k, v). (node_of k, node_of v)) ps) (m0, tr) = Ok (m0 @ m, tr)"
  using assms
proof (induction ps arbitrary: m m0)
  case (Cons p ps)
  obtain tk tv where p: "p = (tk, tv)" by (cases p)
  with Cons.prems(1) obtain k v m' where m: "m = (k, v) # m'" "reads_back ys tk k" "reads_back ys tv v"
    "list_all2 (\<lambda>(tk, tv) (k, v). reads_back ys tk k \<and> reads_back ys tv v) ps m'"
    by (auto simp: list_all2_Cons1)
  have "\<not> isMerge (node_of tk)" using m Cons.prems(3) by (auto simp: reads_back_def)
  moreover have "map_put k v m0 = m0 @ [(k, v)]"
    using Cons.prems(2) m(1) by (auto simp: map_put_def alist_set_fresh)
  ultimately have "mapping_step ys (unmarshal ys anchors active) anchors mt TIface TIface (node_of tk, node_of tv) (m0, tr) =
      Ok (m0 @ [(k, v)], tr)"
    using m Cons.prems(3) by (simp add: mapping_step_apply reads_back_unmarshal)
  then show ?case
    using Cons.IH [OF m(4), of "m0 @ [(k, v)]"] Cons.prems(2,3) m(1) p by simp
qed simp

lemma list_all2_snoc1: "list_all2 P (xs @ [x]) ys \<Longrightarrow> \<exists>zs z. ys = zs @ [z] \<and> list_all2 P xs zs \<and> P x z"
  by (auto simp: list_all2_append1 list_all2_Cons1)

text \<open>A relation between trees and values that holds of written scalars, and passes from parts to collections, holds of every value.\<close>

lemma marshal_comes_back_by:
  assumes "encodable yo v"
    and scalar: "\<And>v. encodable yo v \<Longrightarrow> \<not> is_container v \<Longrightarrow> comes_back R yo v"
    and seq: "\<And>line ts vs. list_all2 R ts vs \<Longrightarrow> R (TreeSeq None line ts) (YSeq vs)"
    and mapping: "\<And>line ps m. list_all2 (\<lambda>(tk, tv) (k, v). R tk k \<and> R tv v) ps m \<Longrightarrow> encodable yo (YMap m) \<Longrightarrow> R (TreeMap None line ps) (YMap m)"
  shows "comes_back R yo v"
  using assms(1)
proof (induction v)
  case (YSeq vs)
  then have "\<forall>v \<in> set vs. comes_back R yo v" by simp
  then obtain es where es: "go_map (marshal yo) vs = Ok es" "\<forall>evs. list_all2 carries (concat es) evs \<longrightarrow>
      (\<exists>ts. evs = concat (map events_of ts) \<and> list_all2 R ts vs)"
    using sequence_comes_back by blast
  have "\<exists>t. evs = events_of t \<and> R t (YSeq vs)" if carried: "list_all2 carries (XSeqStart # concat es @ [XSeqEnd]) evs" for evs
  proof -
    obtain line evs' where evs: "evs = ESeqStart None line # evs' @ [ESeqEnd]" "list_all2 carries (concat es) evs'"
      using carried by (auto simp: list_all2_Cons1 carries_iff dest!: list_all2_snoc1)
    then obtain ts where ts: "evs' = concat (map events_of ts)" "list_all2 R ts vs" using es(2) by blast
    then show ?thesis using evs(1) seq by (metis events_of.simps(2))
  qed
  then show ?case using es(1) by (simp add: comes_back_def)
next
  case (YMap m)
  then have "\<forall>(k, v) \<in> set m. comes_back R yo k \<and> comes_back R yo v" by fastforce
  then obtain es where es: "go_map (\<lambda>(k, v). go_bind (marshal yo k) (\<lambda>ek. go_bind (marshal yo v) (\<lambda>ev. Ok (ek @ ev)))) m = Ok es"
    "\<forall>evs. list_all2 carries (concat es) evs \<longrightarrow> (\<exists>ps. evs = concat (map (\<lambda>(k, v). events_of k @ events_of v) ps) \<and>
      list_all2 (\<lambda>(tk, tv) (k, v). R tk k \<and> R tv v) ps m)"
    using mapping_comes_back by blast
  have "\<exists>t. evs = events_of t \<and> R t (YMap m)" if carried: "list_all2 carries (XMapStart # concat es @ [XMapEnd]) evs" for evs
  proof -
    obtain line evs' where evs: "evs = EMapStart None line # evs' @ [EMapEnd]" "list_all2 carries (concat es) evs'"
      using carried by (auto simp: list_all2_Cons1 carries_iff dest!: list_all2_snoc1)
    then obtain ps where ps: "evs' = concat (map (\<lambda>(k, v). events_of k @ events_of v) ps)"
      "list_all2 (\<lambda>(tk, tv) (k, v). R tk k \<and> R tv v) ps m" using es(2) by blast
    then show ?thesis using evs(1) mapping [OF ps(2) YMap.prems] by (metis events_of.simps(3))
  qed
  then show ?case using es(1) by (simp add: comes_back_def)
qed (use scalar in simp_all)

lemma marshal_comes_back:
  assumes "yo_ParseFloat yo = ys_ParseFloat ys" "encodable yo v"
  shows "comes_back (reads_back ys) yo v"
proof (rule marshal_comes_back_by [OF assms(2)])
  fix v assume "encodable yo v" "\<not> is_container v"
  then show "comes_back (reads_back ys) yo v"
  proof (cases v)
    case (YStr s)
    then show ?thesis using stringv_reads_back [OF assms(1), of s] by (auto simp: comes_back_def)
  next
    case YNull
    then show ?thesis using carried_plain [OF _ plain_words(1) resolve_words(1)] by (simp add: comes_back_def nilv_def)
  next
    case (YBool b)
    then show ?thesis
      using carried_plain [OF _ plain_words(2) resolve_words(2)] carried_plain [OF _ plain_words(3) resolve_words(3)]
      by (simp add: comes_back_def boolv_def)
  next
    case (YInt i)
    then show ?thesis
      using carried_plain [OF _ plain_show_int resolve_show_int] \<open>encodable yo v\<close> by (simp add: comes_back_def intv_def)
  next
    case (YFloat f)
    then show ?thesis
      using carried_plain [of "float_text (yo_FormatFloat yo) f"] assms(1) \<open>encodable yo v\<close> by (simp add: comes_back_def floatv_def Let_def)
  qed simp_all
next
  fix line ts vs assume ts: "list_all2 (reads_back ys) ts vs"
  then have "\<forall>t \<in> set ts. anchors_of t = []" by (auto simp: reads_back_def list_all2_conv_all_nth in_set_conv_nth)
  then show "reads_back ys (TreeSeq None line ts) (YSeq vs)"
    using sequence_reads_back [OF ts] by (simp add: reads_back_def anchor_entry_def unmarshal.simps yaml_sequence_def)
next
  fix line ps m
  assume ps: "list_all2 (\<lambda>(tk, tv) (k, v). reads_back ys tk k \<and> reads_back ys tv v) ps m" and enc: "encodable yo (YMap m)"
  have "\<forall>(k, v) \<in> set ps. anchors_of k = [] \<and> anchors_of v = []"
    using ps by (fastforce simp: reads_back_def list_all2_conv_all_nth in_set_conv_nth)
  moreover have "go_fold (mapping_step ys (unmarshal ys anchors active) anchors defaultMapType TIface TIface)
      (map (\<lambda>(k, v). (node_of k, node_of v)) ps) ([], tr) = Ok (m, tr)" for anchors active tr
    using mapping_reads_back [OF ps, of "[]"] enc by fastforce
  ultimately show "reads_back ys (TreeMap None line ps) (YMap m)"
    by (auto simp: reads_back_def anchor_entry_def unmarshal_map_TIface)
qed



text \<open>
  The key \<open><<\<close> is not quoted when it is written, because the table of first bytes leaves it out: a map
  with this key is written as a merge, and reading it back fails.\<close>

theorem merge_key_not_quoted:
  assumes "Marshal_events yo (YMap [(YStr ''<<'', YStr s)]) = Ok es" "list_all2 carries es evs"
  shows "yaml_Unmarshal_events ys (evs, problem) TIface = Err failWantMap"
proof -
  have key: "stringv pf [] ''<<'' = Ok (XScalar ''<<'' [] PlainStyle)" for pf
    by (simp add: stringv_def resolve_def resolvableTag_def resolve_plain_def resolveTable_def is_digit_def resolve_text_def
        utf8_between_def isBase60Float_def)
  have plain: "written_plain sk ''<<'' [] PlainStyle" for sk
  proof -
    have "select_scalar_style False False ''<<'' PlainStyle = Some PlainStyle" "select_scalar_style False True ''<<'' PlainStyle = Some PlainStyle"
      by code_simp+
    then show ?thesis by (cases sk) (simp_all add: written_plain_def)
  qed
  obtain out tag style where e: "stringv (yo_ParseFloat yo) [] s = Ok (XScalar out tag style)"
    using assms(1) by (cases "stringv (yo_ParseFloat yo) [] s") (auto simp: Marshal_events_def key stringv_def go_inv)
  obtain implicit l1 l2 l3 where evs: "evs = document_events (TreeMap None l1 [(TreeScalar None [] ''<<'' True l2, TreeScalar None tag out implicit l3)])"
    using assms e key by (auto simp: Marshal_events_def list_all2_Cons1 carries_iff plain document_events_def)
  show ?thesis
    unfolding evs yaml_Unmarshal_document
    by (simp add: unmarshal_map_TIface mapping_step_apply yaml_merge_def merge_step_apply mergeable_def)
qed

theorem merge_key_not_quoted_witness:
  "yaml_Unmarshal_events \<lparr>ys_ParseFloat = (\<lambda>_. None), ys_FloatInt = (\<lambda>_. None), ys_GoSyntax = (\<lambda>_. [])\<rparr>
     ([EDocStart, EMapStart None 0, EScalar None [] ''<<'' True 0, EScalar None [] ''yes'' False 0, EMapEnd, EDocEnd, EStreamEnd], []) TIface
   = Err failWantMap"
proof (rule merge_key_not_quoted)
  show "Marshal_events \<lparr>yo_ParseFloat = (\<lambda>_. None), yo_FormatFloat = (\<lambda>f. f)\<rparr> (YMap [(YStr ''<<'', YStr ''yes'')]) =
      Ok [XDocStart, XMapStart, XScalar ''<<'' [] PlainStyle, XScalar ''yes'' [] DoubleQuotedStyle, XMapEnd, XDocEnd, XStreamEnd]"
    by code_simp
  have "written_plain False ''<<'' [] PlainStyle" unfolding written_plain_def by code_simp
  then show "list_all2 carries
      [XDocStart, XMapStart, XScalar ''<<'' [] PlainStyle, XScalar ''yes'' [] DoubleQuotedStyle, XMapEnd, XDocEnd, XStreamEnd]
      [EDocStart, EMapStart None 0, EScalar None [] ''<<'' True 0, EScalar None [] ''yes'' False 0, EMapEnd, EDocEnd, EStreamEnd]"
    by (auto simp: carries_iff)
qed

end
