(* ===== verification/Yaml_Parser.thy ===== *)
theory Yaml_Parser
  imports Yaml_Decode
begin

text \<open>
  The YAML parser, \<open>gopkg.in/yaml.v2/parserc.go\<close>: a machine with a stack of states that turns the tokens of the scanner into events.
  The tokens are a parameter.  Of a mark only the line is kept, and of an event what the decoder reads.  The laws show that the
  machine ends, never takes from an empty stack, and yields well nested events only, so that \<open>Unmarshal\<close> cannot panic on what it is
  given.
\<close>

section \<open>Tokens and states\<close>

datatype tok =
    KStreamStart | KStreamEnd | KVersionDirective int int | KTagDirective string string | KDocumentStart | KDocumentEnd
  | KBlockSequenceStart | KBlockMappingStart | KBlockEnd
  | KFlowSequenceStart | KFlowSequenceEnd | KFlowMappingStart | KFlowMappingEnd
  | KBlockEntry | KFlowEntry | KKey | KValue
  | KAlias string | KAnchor string | KTag string string | KScalar string bool

text \<open>A token with the lines it starts and ends on.  A tag has its handle and suffix; a scalar its text and whether it is plain.\<close>

record ytoken =
  tk :: tok
  tk_start :: nat
  tk_end :: nat

datatype pstate =
    STREAM_START | IMPLICIT_DOCUMENT_START | DOCUMENT_START | DOCUMENT_CONTENT | DOCUMENT_END
  | BLOCK_NODE | BLOCK_NODE_OR_INDENTLESS_SEQUENCE | FLOW_NODE
  | BLOCK_SEQUENCE_FIRST_ENTRY | BLOCK_SEQUENCE_ENTRY | INDENTLESS_SEQUENCE_ENTRY
  | BLOCK_MAPPING_FIRST_KEY | BLOCK_MAPPING_KEY | BLOCK_MAPPING_VALUE
  | FLOW_SEQUENCE_FIRST_ENTRY | FLOW_SEQUENCE_ENTRY | FLOW_SEQUENCE_ENTRY_MAPPING_KEY
  | FLOW_SEQUENCE_ENTRY_MAPPING_VALUE | FLOW_SEQUENCE_ENTRY_MAPPING_END
  | FLOW_MAPPING_FIRST_KEY | FLOW_MAPPING_KEY | FLOW_MAPPING_VALUE | FLOW_MAPPING_EMPTY_VALUE
  | END_STATE

text \<open>
  The parser: the top of a stack is its first element; \<open>yp_problem\<close> is the error of the scanner when its tokens run out.  The flag
  \<open>stream_end_produced\<close> is set with the state \<^const>\<open>END_STATE\<close>.
\<close>

record yparser =
  yp_state :: pstate
  yp_states :: "pstate list"
  yp_marks :: "nat list"
  yp_tokens :: "ytoken list"
  yp_problem :: string
  yp_tag_directives :: "(string \<times> string) list"

type_synonym parsed = "(yevent \<times> yparser) go"

definition peek_token :: "yparser \<Rightarrow> ytoken go" where
  "peek_token ps = (case yp_tokens ps of [] \<Rightarrow> Err (yp_problem ps) | t # _ \<Rightarrow> Ok t)"

definition skip_token :: "yparser \<Rightarrow> yparser" where
  "skip_token ps = ps\<lparr>yp_tokens := tl (yp_tokens ps)\<rparr>"

definition to_state :: "pstate \<Rightarrow> yparser \<Rightarrow> yparser" where
  "to_state s ps = ps\<lparr>yp_state := s\<rparr>"

definition push_state :: "pstate \<Rightarrow> yparser \<Rightarrow> yparser" where
  "push_state s ps = ps\<lparr>yp_states := s # yp_states ps\<rparr>"

definition pop_state :: "yparser \<Rightarrow> yparser go" where
  "pop_state ps = (case yp_states ps of [] \<Rightarrow> Panic | s # ss \<Rightarrow> Ok (ps\<lparr>yp_state := s, yp_states := ss\<rparr>))"

definition push_mark :: "nat \<Rightarrow> yparser \<Rightarrow> yparser" where
  "push_mark m ps = ps\<lparr>yp_marks := m # yp_marks ps\<rparr>"

definition pop_mark :: "yparser \<Rightarrow> yparser go" where
  "pop_mark ps = (case yp_marks ps of [] \<Rightarrow> Panic | m # ms \<Rightarrow> Ok (ps\<lparr>yp_marks := ms\<rparr>))"

text \<open>
  An error of the parser, as \<open>fail\<close> of \<open>decode.go\<close> words it: with the line of the problem, or of its context, counted from 0 and left
  out when both are 0.
\<close>

definition parser_error :: "nat \<Rightarrow> string \<Rightarrow> nat \<Rightarrow> 'a go" where
  "parser_error context problem line =
     (let l = (if line \<noteq> 0 then line else context)
      in Err ((if l \<noteq> 0 then ''line '' @ show_nat l @ '': '' else []) @ problem))"

text \<open>The error for a mark taken off the stack as its context.\<close>

definition marked_error :: "yparser \<Rightarrow> string \<Rightarrow> nat \<Rightarrow> 'a go" where
  "marked_error ps problem line = (case yp_marks ps of [] \<Rightarrow> Panic | m # _ \<Rightarrow> parser_error m problem line)"

definition yaml_parser_process_empty_scalar :: "yparser \<Rightarrow> nat \<Rightarrow> parsed" where
  "yaml_parser_process_empty_scalar ps mark = Ok (EScalar None [] [] True mark, ps)"

section \<open>Documents\<close>

definition yaml_parser_parse_stream_start :: "yparser \<Rightarrow> parsed" where
  "yaml_parser_parse_stream_start ps = go_bind (peek_token ps) (\<lambda>token.
     if tk token \<noteq> KStreamStart then parser_error 0 ''did not find expected <stream-start>'' (tk_start token)
     else Ok (EStreamStart, skip_token (to_state IMPLICIT_DOCUMENT_START ps)))"

text \<open>The directives before a document.\<close>

definition yaml_parser_append_tag_directive :: "string \<times> string \<Rightarrow> bool \<Rightarrow> nat \<Rightarrow> (string \<times> string) list \<Rightarrow> (string \<times> string) list go" where
  "yaml_parser_append_tag_directive d allow_duplicates mark ds =
     (if fst d \<in> fst ` set ds
      then (if allow_duplicates then Ok ds else parser_error 0 ''found duplicate %TAG directive'' mark)
      else Ok (ds @ [d]))"

definition default_tag_directives :: "(string \<times> string) list" where
  "default_tag_directives = [(''!'', ''!''), (''!!'', ''tag:yaml.org,2002:'')]"

fun directives_loop :: "string \<Rightarrow> bool \<Rightarrow> (string \<times> string) list \<Rightarrow> ytoken list \<Rightarrow> ((string \<times> string) list \<times> ytoken list) go" where
  "directives_loop problem version ds [] = Err problem"
| "directives_loop problem version ds (token # ts) = (case tk token of
     KVersionDirective major minor \<Rightarrow>
       if version then parser_error 0 ''found duplicate %YAML directive'' (tk_start token)
       else if major \<noteq> 1 \<or> minor \<noteq> 1 then parser_error 0 ''found incompatible YAML document'' (tk_start token)
       else directives_loop problem True ds ts
   | KTagDirective handle pre \<Rightarrow>
       go_bind (yaml_parser_append_tag_directive (handle, pre) False (tk_start token) ds) (\<lambda>ds'. directives_loop problem version ds' ts)
   | _ \<Rightarrow> go_bind (go_fold (\<lambda>d. yaml_parser_append_tag_directive d True (tk_start token)) default_tag_directives ds) (\<lambda>ds'.
            Ok (ds', token # ts)))"

definition yaml_parser_process_directives :: "yparser \<Rightarrow> yparser go" where
  "yaml_parser_process_directives ps =
     go_bind (directives_loop (yp_problem ps) False (yp_tag_directives ps) (yp_tokens ps)) (\<lambda>(ds, ts).
       Ok (ps\<lparr>yp_tag_directives := ds, yp_tokens := ts\<rparr>))"

fun is_directive :: "tok \<Rightarrow> bool" where
  "is_directive (KVersionDirective _ _) = True"
| "is_directive (KTagDirective _ _) = True"
| "is_directive _ = False"

definition yaml_parser_parse_document_start :: "bool \<Rightarrow> yparser \<Rightarrow> parsed" where
  "yaml_parser_parse_document_start implicit ps0 =
     (let ps = (if implicit then ps0 else ps0\<lparr>yp_tokens := dropWhile (\<lambda>t. tk t = KDocumentEnd) (yp_tokens ps0)\<rparr>)
      in go_bind (peek_token ps) (\<lambda>token.
        if implicit \<and> \<not> is_directive (tk token) \<and> tk token \<noteq> KDocumentStart \<and> tk token \<noteq> KStreamEnd
        then go_bind (yaml_parser_process_directives ps) (\<lambda>ps1.
          Ok (EDocStart, to_state BLOCK_NODE (push_state DOCUMENT_END ps1)))
        else if tk token \<noteq> KStreamEnd
        then go_bind (yaml_parser_process_directives ps) (\<lambda>ps1. go_bind (peek_token ps1) (\<lambda>token1.
          if tk token1 \<noteq> KDocumentStart then parser_error 0 ''did not find expected <document start>'' (tk_start token1)
          else Ok (EDocStart, skip_token (to_state DOCUMENT_CONTENT (push_state DOCUMENT_END ps1)))))
        else Ok (EStreamEnd, skip_token (to_state END_STATE ps))))"

definition yaml_parser_parse_document_end :: "yparser \<Rightarrow> parsed" where
  "yaml_parser_parse_document_end ps = go_bind (peek_token ps) (\<lambda>token.
     let ps1 = (if tk token = KDocumentEnd then skip_token ps else ps)
     in Ok (EDocEnd, to_state DOCUMENT_START (ps1\<lparr>yp_tag_directives := []\<rparr>)))"

section \<open>Nodes\<close>

text \<open>What a token carries, when it is an alias, an anchor, a tag or a scalar.\<close>

fun token_alias :: "tok \<Rightarrow> string option" where
  "token_alias (KAlias name) = Some name"
| "token_alias _ = None"

fun token_anchor :: "tok \<Rightarrow> string option" where
  "token_anchor (KAnchor name) = Some name"
| "token_anchor _ = None"

fun token_tag :: "tok \<Rightarrow> (string \<times> string) option" where
  "token_tag (KTag handle suff) = Some (handle, suff)"
| "token_tag _ = None"

fun token_scalar :: "tok \<Rightarrow> (string \<times> bool) option" where
  "token_scalar (KScalar s plain) = Some (s, plain)"
| "token_scalar _ = None"

text \<open>The properties of a node: its anchor, and its tag as handle, suffix and line.  The next token is there after them.\<close>

type_synonym properties = "string option \<times> (string \<times> string \<times> nat) option \<times> yparser"

definition skip_property :: "string option \<Rightarrow> (string \<times> string \<times> nat) option \<Rightarrow> yparser \<Rightarrow> properties go" where
  "skip_property a tg ps = (let ps1 = skip_token ps in go_bind (peek_token ps1) (\<lambda>_. Ok (a, tg, ps1)))"

definition parse_properties :: "yparser \<Rightarrow> properties go" where
  "parse_properties ps = go_bind (peek_token ps) (\<lambda>token. case token_anchor (tk token) of
     Some a \<Rightarrow> (let ps1 = skip_token ps in go_bind (peek_token ps1) (\<lambda>token1. case token_tag (tk token1) of
       Some (handle, suff) \<Rightarrow> skip_property (Some a) (Some (handle, suff, tk_start token1)) ps1
     | None \<Rightarrow> Ok (Some a, None, ps1)))
   | None \<Rightarrow> (case token_tag (tk token) of
       Some (handle, suff) \<Rightarrow> (let ps1 = skip_token ps in go_bind (peek_token ps1) (\<lambda>token1. case token_anchor (tk token1) of
         Some a \<Rightarrow> skip_property (Some a) (Some (handle, suff, tk_start token)) ps1
       | None \<Rightarrow> Ok (None, Some (handle, suff, tk_start token), ps1)))
     | None \<Rightarrow> Ok (None, None, ps)))"

definition resolve_node_tag :: "yparser \<Rightarrow> nat \<Rightarrow> (string \<times> string \<times> nat) option \<Rightarrow> string go" where
  "resolve_node_tag ps start tag_token = (case tag_token of
     None \<Rightarrow> Ok []
   | Some (handle, suff, mark) \<Rightarrow>
       if handle = [] then Ok suff
       else (let tag = (case map_of (yp_tag_directives ps) handle of Some pre \<Rightarrow> pre @ suff | None \<Rightarrow> [])
         in if tag = [] then parser_error start ''found undefined tag handle'' mark else Ok tag))"

definition parse_content :: "bool \<Rightarrow> bool \<Rightarrow> nat \<Rightarrow> string option \<Rightarrow> string \<Rightarrow> yparser \<Rightarrow> parsed" where
  "parse_content block indentless_sequence start anchor tag ps = go_bind (peek_token ps) (\<lambda>token.
     if indentless_sequence \<and> tk token = KBlockEntry then Ok (ESeqStart anchor start, to_state INDENTLESS_SEQUENCE_ENTRY ps)
     else (case token_scalar (tk token) of
         Some (s, plain) \<Rightarrow> go_bind (pop_state ps) (\<lambda>ps1.
           Ok (EScalar anchor tag s (tag = [] \<and> plain \<or> tag = ''!'') start, skip_token ps1))
       | None \<Rightarrow>
         if tk token = KFlowSequenceStart then Ok (ESeqStart anchor start, to_state FLOW_SEQUENCE_FIRST_ENTRY ps)
         else if tk token = KFlowMappingStart then Ok (EMapStart anchor start, to_state FLOW_MAPPING_FIRST_KEY ps)
         else if block \<and> tk token = KBlockSequenceStart then Ok (ESeqStart anchor start, to_state BLOCK_SEQUENCE_FIRST_ENTRY ps)
         else if block \<and> tk token = KBlockMappingStart then Ok (EMapStart anchor start, to_state BLOCK_MAPPING_FIRST_KEY ps)
         else if anchor \<noteq> None \<and> anchor \<noteq> Some [] \<or> tag \<noteq> [] then go_bind (pop_state ps) (\<lambda>ps1.
           Ok (EScalar anchor tag [] (tag = []) start, ps1))
         else parser_error start ''did not find expected node content'' (tk_start token)))"

definition yaml_parser_parse_node :: "bool \<Rightarrow> bool \<Rightarrow> yparser \<Rightarrow> parsed" where
  "yaml_parser_parse_node block indentless_sequence ps = go_bind (peek_token ps) (\<lambda>token. case token_alias (tk token) of
     Some name \<Rightarrow> go_bind (pop_state ps) (\<lambda>ps1. Ok (EAlias name (tk_start token), skip_token ps1))
   | None \<Rightarrow> go_bind (parse_properties ps) (\<lambda>(anchor, tag_token, ps1).
            go_bind (resolve_node_tag ps1 (tk_start token) tag_token) (\<lambda>tag.
              parse_content block indentless_sequence (tk_start token) anchor tag ps1)))"

definition yaml_parser_parse_document_content :: "yparser \<Rightarrow> parsed" where
  "yaml_parser_parse_document_content ps = go_bind (peek_token ps) (\<lambda>token.
     if is_directive (tk token) \<or> tk token \<in> {KDocumentStart, KDocumentEnd, KStreamEnd}
     then go_bind (pop_state ps) (\<lambda>ps1. yaml_parser_process_empty_scalar ps1 (tk_start token))
     else yaml_parser_parse_node True False ps)"

section \<open>Collections\<close>

text \<open>The first step of a collection keeps the line of the token that opens it and skips it; with no token it would dereference nil.\<close>

definition open_collection :: "bool \<Rightarrow> yparser \<Rightarrow> yparser go" where
  "open_collection first ps =
     (if first then (case yp_tokens ps of [] \<Rightarrow> Panic | token # _ \<Rightarrow> Ok (skip_token (push_mark (tk_start token) ps))) else Ok ps)"

text \<open>The end of a collection takes its state and its mark off the stacks and skips a token.\<close>

definition close_collection :: "yevent \<Rightarrow> yparser \<Rightarrow> parsed" where
  "close_collection e ps = go_bind (pop_state ps) (\<lambda>ps1. go_bind (pop_mark ps1) (\<lambda>ps2. Ok (e, skip_token ps2)))"

definition yaml_parser_parse_block_sequence_entry :: "bool \<Rightarrow> yparser \<Rightarrow> parsed" where
  "yaml_parser_parse_block_sequence_entry first ps0 = go_bind (open_collection first ps0) (\<lambda>ps. go_bind (peek_token ps) (\<lambda>token.
     if tk token = KBlockEntry then
       (let ps1 = skip_token ps in go_bind (peek_token ps1) (\<lambda>token1.
         if tk token1 \<noteq> KBlockEntry \<and> tk token1 \<noteq> KBlockEnd
         then yaml_parser_parse_node True False (push_state BLOCK_SEQUENCE_ENTRY ps1)
         else yaml_parser_process_empty_scalar (to_state BLOCK_SEQUENCE_ENTRY ps1) (tk_end token)))
     else if tk token = KBlockEnd then close_collection ESeqEnd ps
     else marked_error ps (''did not find expected '' @ [CHR 0x27] @ ''-'' @ [CHR 0x27] @ '' indicator'') (tk_start token)))"

definition yaml_parser_parse_indentless_sequence_entry :: "yparser \<Rightarrow> parsed" where
  "yaml_parser_parse_indentless_sequence_entry ps = go_bind (peek_token ps) (\<lambda>token.
     if tk token = KBlockEntry then
       (let ps1 = skip_token ps in go_bind (peek_token ps1) (\<lambda>token1.
         if tk token1 \<noteq> KBlockEntry \<and> tk token1 \<noteq> KKey \<and> tk token1 \<noteq> KValue \<and> tk token1 \<noteq> KBlockEnd
         then yaml_parser_parse_node True False (push_state INDENTLESS_SEQUENCE_ENTRY ps1)
         else yaml_parser_process_empty_scalar (to_state INDENTLESS_SEQUENCE_ENTRY ps1) (tk_end token)))
     else go_bind (pop_state ps) (\<lambda>ps1. Ok (ESeqEnd, ps1)))"

definition yaml_parser_parse_block_mapping_key :: "bool \<Rightarrow> yparser \<Rightarrow> parsed" where
  "yaml_parser_parse_block_mapping_key first ps0 = go_bind (open_collection first ps0) (\<lambda>ps. go_bind (peek_token ps) (\<lambda>token.
     if tk token = KKey then
       (let ps1 = skip_token ps in go_bind (peek_token ps1) (\<lambda>token1.
         if tk token1 \<noteq> KKey \<and> tk token1 \<noteq> KValue \<and> tk token1 \<noteq> KBlockEnd
         then yaml_parser_parse_node True True (push_state BLOCK_MAPPING_VALUE ps1)
         else yaml_parser_process_empty_scalar (to_state BLOCK_MAPPING_VALUE ps1) (tk_end token)))
     else if tk token = KBlockEnd then close_collection EMapEnd ps
     else marked_error ps ''did not find expected key'' (tk_start token)))"

definition yaml_parser_parse_block_mapping_value :: "yparser \<Rightarrow> parsed" where
  "yaml_parser_parse_block_mapping_value ps = go_bind (peek_token ps) (\<lambda>token.
     if tk token = KValue then
       (let ps1 = skip_token ps in go_bind (peek_token ps1) (\<lambda>token1.
         if tk token1 \<noteq> KKey \<and> tk token1 \<noteq> KValue \<and> tk token1 \<noteq> KBlockEnd
         then yaml_parser_parse_node True True (push_state BLOCK_MAPPING_KEY ps1)
         else yaml_parser_process_empty_scalar (to_state BLOCK_MAPPING_KEY ps1) (tk_end token)))
     else yaml_parser_process_empty_scalar (to_state BLOCK_MAPPING_KEY ps) (tk_start token))"

text \<open>The comma before an entry of a flow collection that is not its first: the parser at the token after it.\<close>

definition flow_separator :: "bool \<Rightarrow> string \<Rightarrow> yparser \<Rightarrow> yparser go" where
  "flow_separator first close ps =
     (if first then Ok ps
      else go_bind (peek_token ps) (\<lambda>token.
        if tk token = KFlowEntry then Ok (skip_token ps)
        else marked_error ps (''did not find expected '' @ [CHR 0x27] @ '','' @ [CHR 0x27] @ '' or '' @ [CHR 0x27] @ close @ [CHR 0x27])
          (tk_start token)))"

definition yaml_parser_parse_flow_sequence_entry :: "bool \<Rightarrow> yparser \<Rightarrow> parsed" where
  "yaml_parser_parse_flow_sequence_entry first ps0 = go_bind (open_collection first ps0) (\<lambda>ps. go_bind (peek_token ps) (\<lambda>token.
     if tk token = KFlowSequenceEnd then close_collection ESeqEnd ps
     else go_bind (flow_separator first '']'' ps) (\<lambda>ps1. go_bind (peek_token ps1) (\<lambda>token1.
       if tk token1 = KKey then Ok (EMapStart None (tk_start token1), skip_token (to_state FLOW_SEQUENCE_ENTRY_MAPPING_KEY ps1))
       else if tk token1 = KFlowSequenceEnd then close_collection ESeqEnd ps1
       else yaml_parser_parse_node False False (push_state FLOW_SEQUENCE_ENTRY ps1)))))"

definition yaml_parser_parse_flow_sequence_entry_mapping_key :: "yparser \<Rightarrow> parsed" where
  "yaml_parser_parse_flow_sequence_entry_mapping_key ps = go_bind (peek_token ps) (\<lambda>token.
     if tk token \<noteq> KValue \<and> tk token \<noteq> KFlowEntry \<and> tk token \<noteq> KFlowSequenceEnd
     then yaml_parser_parse_node False False (push_state FLOW_SEQUENCE_ENTRY_MAPPING_VALUE ps)
     else yaml_parser_process_empty_scalar (to_state FLOW_SEQUENCE_ENTRY_MAPPING_VALUE (skip_token ps)) (tk_end token))"

definition yaml_parser_parse_flow_sequence_entry_mapping_value :: "yparser \<Rightarrow> parsed" where
  "yaml_parser_parse_flow_sequence_entry_mapping_value ps = go_bind (peek_token ps) (\<lambda>token.
     if tk token = KValue then
       (let ps1 = skip_token ps in go_bind (peek_token ps1) (\<lambda>token1.
         if tk token1 \<noteq> KFlowEntry \<and> tk token1 \<noteq> KFlowSequenceEnd
         then yaml_parser_parse_node False False (push_state FLOW_SEQUENCE_ENTRY_MAPPING_END ps1)
         else yaml_parser_process_empty_scalar (to_state FLOW_SEQUENCE_ENTRY_MAPPING_END ps1) (tk_start token)))
     else yaml_parser_process_empty_scalar (to_state FLOW_SEQUENCE_ENTRY_MAPPING_END ps) (tk_start token))"

definition yaml_parser_parse_flow_sequence_entry_mapping_end :: "yparser \<Rightarrow> parsed" where
  "yaml_parser_parse_flow_sequence_entry_mapping_end ps = go_bind (peek_token ps) (\<lambda>_.
     Ok (EMapEnd, to_state FLOW_SEQUENCE_ENTRY ps))"

definition yaml_parser_parse_flow_mapping_key :: "bool \<Rightarrow> yparser \<Rightarrow> parsed" where
  "yaml_parser_parse_flow_mapping_key first ps0 = go_bind (open_collection first ps0) (\<lambda>ps. go_bind (peek_token ps) (\<lambda>token.
     if tk token = KFlowMappingEnd then close_collection EMapEnd ps
     else go_bind (flow_separator first ''}'' ps) (\<lambda>ps1. go_bind (peek_token ps1) (\<lambda>token1.
       if tk token1 = KKey then
         (let ps2 = skip_token ps1 in go_bind (peek_token ps2) (\<lambda>token2.
           if tk token2 \<noteq> KValue \<and> tk token2 \<noteq> KFlowEntry \<and> tk token2 \<noteq> KFlowMappingEnd
           then yaml_parser_parse_node False False (push_state FLOW_MAPPING_VALUE ps2)
           else yaml_parser_process_empty_scalar (to_state FLOW_MAPPING_VALUE ps2) (tk_start token2)))
       else if tk token1 = KFlowMappingEnd then close_collection EMapEnd ps1
       else yaml_parser_parse_node False False (push_state FLOW_MAPPING_EMPTY_VALUE ps1)))))"

definition yaml_parser_parse_flow_mapping_value :: "bool \<Rightarrow> yparser \<Rightarrow> parsed" where
  "yaml_parser_parse_flow_mapping_value is_empty ps = go_bind (peek_token ps) (\<lambda>token.
     if is_empty then yaml_parser_process_empty_scalar (to_state FLOW_MAPPING_KEY ps) (tk_start token)
     else if tk token = KValue then
       (let ps1 = skip_token ps in go_bind (peek_token ps1) (\<lambda>token1.
         if tk token1 \<noteq> KFlowEntry \<and> tk token1 \<noteq> KFlowMappingEnd
         then yaml_parser_parse_node False False (push_state FLOW_MAPPING_KEY ps1)
         else yaml_parser_process_empty_scalar (to_state FLOW_MAPPING_KEY ps1) (tk_start token1)))
     else yaml_parser_process_empty_scalar (to_state FLOW_MAPPING_KEY ps) (tk_start token))"

section \<open>The machine\<close>

definition yaml_parser_state_machine :: "yparser \<Rightarrow> parsed" where
  "yaml_parser_state_machine ps = (case yp_state ps of
     STREAM_START \<Rightarrow> yaml_parser_parse_stream_start ps
   | IMPLICIT_DOCUMENT_START \<Rightarrow> yaml_parser_parse_document_start True ps
   | DOCUMENT_START \<Rightarrow> yaml_parser_parse_document_start False ps
   | DOCUMENT_CONTENT \<Rightarrow> yaml_parser_parse_document_content ps
   | DOCUMENT_END \<Rightarrow> yaml_parser_parse_document_end ps
   | BLOCK_NODE \<Rightarrow> yaml_parser_parse_node True False ps
   | BLOCK_NODE_OR_INDENTLESS_SEQUENCE \<Rightarrow> yaml_parser_parse_node True True ps
   | FLOW_NODE \<Rightarrow> yaml_parser_parse_node False False ps
   | BLOCK_SEQUENCE_FIRST_ENTRY \<Rightarrow> yaml_parser_parse_block_sequence_entry True ps
   | BLOCK_SEQUENCE_ENTRY \<Rightarrow> yaml_parser_parse_block_sequence_entry False ps
   | INDENTLESS_SEQUENCE_ENTRY \<Rightarrow> yaml_parser_parse_indentless_sequence_entry ps
   | BLOCK_MAPPING_FIRST_KEY \<Rightarrow> yaml_parser_parse_block_mapping_key True ps
   | BLOCK_MAPPING_KEY \<Rightarrow> yaml_parser_parse_block_mapping_key False ps
   | BLOCK_MAPPING_VALUE \<Rightarrow> yaml_parser_parse_block_mapping_value ps
   | FLOW_SEQUENCE_FIRST_ENTRY \<Rightarrow> yaml_parser_parse_flow_sequence_entry True ps
   | FLOW_SEQUENCE_ENTRY \<Rightarrow> yaml_parser_parse_flow_sequence_entry False ps
   | FLOW_SEQUENCE_ENTRY_MAPPING_KEY \<Rightarrow> yaml_parser_parse_flow_sequence_entry_mapping_key ps
   | FLOW_SEQUENCE_ENTRY_MAPPING_VALUE \<Rightarrow> yaml_parser_parse_flow_sequence_entry_mapping_value ps
   | FLOW_SEQUENCE_ENTRY_MAPPING_END \<Rightarrow> yaml_parser_parse_flow_sequence_entry_mapping_end ps
   | FLOW_MAPPING_FIRST_KEY \<Rightarrow> yaml_parser_parse_flow_mapping_key True ps
   | FLOW_MAPPING_KEY \<Rightarrow> yaml_parser_parse_flow_mapping_key False ps
   | FLOW_MAPPING_VALUE \<Rightarrow> yaml_parser_parse_flow_mapping_value False ps
   | FLOW_MAPPING_EMPTY_VALUE \<Rightarrow> yaml_parser_parse_flow_mapping_value True ps
   | END_STATE \<Rightarrow> Panic)"

text \<open>
  A step uses up potential: a token is worth 8, and a state what is at most produced from it before the next token is consumed.
\<close>

fun rank :: "pstate \<Rightarrow> nat" where
  "rank s = (case s of IMPLICIT_DOCUMENT_START \<Rightarrow> 5 | FLOW_SEQUENCE_ENTRY_MAPPING_KEY \<Rightarrow> 5 | FLOW_SEQUENCE_ENTRY_MAPPING_VALUE \<Rightarrow> 3
     | FLOW_SEQUENCE_ENTRY_MAPPING_END \<Rightarrow> 2 | DOCUMENT_CONTENT \<Rightarrow> 2 | DOCUMENT_END \<Rightarrow> 2 | BLOCK_NODE \<Rightarrow> 2
     | BLOCK_NODE_OR_INDENTLESS_SEQUENCE \<Rightarrow> 2 | FLOW_NODE \<Rightarrow> 2 | BLOCK_MAPPING_VALUE \<Rightarrow> 2 | FLOW_MAPPING_VALUE \<Rightarrow> 2
     | FLOW_MAPPING_EMPTY_VALUE \<Rightarrow> 2 | _ \<Rightarrow> 1)"

definition potential :: "yparser \<Rightarrow> nat" where
  "potential ps = 8 * length (yp_tokens ps) + rank (yp_state ps) + sum_list (map rank (yp_states ps))"

section \<open>Postconditions\<close>

text \<open>What a call satisfies when it returns; \<open>pn\<close> says whether it may panic.  The rules compute it backwards.\<close>

definition post :: "bool \<Rightarrow> 'a go \<Rightarrow> ('a \<Rightarrow> bool) \<Rightarrow> bool" where
  "post pn m Q = (case m of Ok x \<Rightarrow> Q x | Err _ \<Rightarrow> True | Panic \<Rightarrow> pn)"

named_theorems wp \<open>postconditions of the steps\<close>

lemma post_simps [wp]:
  "post pn (Ok x) Q = Q x" "post pn (Err msg) Q" "post pn Panic Q = pn" "post pn (parser_error c p l) Q"
  by (simp_all add: post_def parser_error_def Let_def)

lemma post_bind [wp]: "post pn (go_bind m f) Q = post pn m (\<lambda>x. post pn (f x) Q)"
  by (cases m) (simp_all add: post_def)

lemma post_mono: "post pn m P \<Longrightarrow> (\<And>x. P x \<Longrightarrow> Q x) \<Longrightarrow> post pn m Q"
  by (cases m) (simp_all add: post_def)

lemma post_peek [wp]: "post pn (peek_token ps) Q \<longleftrightarrow> (\<forall>t ts. yp_tokens ps = t # ts \<longrightarrow> Q t)"
  by (cases "yp_tokens ps") (simp_all add: post_def peek_token_def)

lemma post_pop_state [wp]: "post pn (pop_state ps) Q \<longleftrightarrow>
    (yp_states ps = [] \<longrightarrow> pn) \<and> (\<forall>s ss. yp_states ps = s # ss \<longrightarrow> Q (ps\<lparr>yp_state := s, yp_states := ss\<rparr>))"
  by (cases "yp_states ps") (simp_all add: post_def pop_state_def)

lemma post_pop_mark [wp]: "post pn (pop_mark ps) Q \<longleftrightarrow>
    (yp_marks ps = [] \<longrightarrow> pn) \<and> (\<forall>m ms. yp_marks ps = m # ms \<longrightarrow> Q (ps\<lparr>yp_marks := ms\<rparr>))"
  by (cases "yp_marks ps") (simp_all add: post_def pop_mark_def)

lemma post_marked_error [wp]: "post pn (marked_error ps p l) Q \<longleftrightarrow> (yp_marks ps = [] \<longrightarrow> pn)"
  by (cases "yp_marks ps") (simp_all add: marked_error_def wp)

lemma post_if [wp]: "post pn (if c then m else m') Q \<longleftrightarrow> (c \<longrightarrow> post pn m Q) \<and> (\<not> c \<longrightarrow> post pn m' Q)"
  by simp

lemma post_option [wp]: "post pn (case x of None \<Rightarrow> m | Some y \<Rightarrow> f y) Q \<longleftrightarrow> (x = None \<longrightarrow> post pn m Q) \<and> (\<forall>y. x = Some y \<longrightarrow> post pn (f y) Q)"
  by (cases x) simp_all

lemma post_split [wp]: "post pn (case x of (y, z) \<Rightarrow> f y z) Q \<longleftrightarrow> (\<forall>y z. x = (y, z) \<longrightarrow> post pn (f y z) Q)"
  by (cases x) simp

lemmas parser_updates = skip_token_def to_state_def push_state_def push_mark_def Let_def

text \<open>Reading the properties of a node, and the directives of a document, drops tokens.\<close>

definition fewer_tokens :: "yparser \<Rightarrow> yparser \<Rightarrow> bool" where
  "fewer_tokens ps ps' \<longleftrightarrow> length (yp_tokens ps') \<le> length (yp_tokens ps) \<and>
     yp_state ps' = yp_state ps \<and> yp_states ps' = yp_states ps \<and> yp_marks ps' = yp_marks ps"

lemma post_properties: "post pn (parse_properties ps) (\<lambda>(a, tg, ps'). fewer_tokens ps ps')"
  by (simp add: parse_properties_def skip_property_def wp parser_updates fewer_tokens_def)

lemma post_resolve_node_tag: "post pn (resolve_node_tag ps l tg) (\<lambda>_. True)"
  by (auto simp: resolve_node_tag_def wp Let_def)

definition load :: "yparser \<Rightarrow> nat" where
  "load ps = 8 * length (yp_tokens ps) + sum_list (map rank (yp_states ps))"

lemma parse_content_potential: "post True (parse_content b i l a tg ps) (\<lambda>(e, ps'). potential ps' \<le> load ps + 1)"
  by (auto simp: parse_content_def wp parser_updates potential_def load_def)

lemma parse_node_potential: "post True (yaml_parser_parse_node b i ps) (\<lambda>(e, ps'). potential ps' \<le> load ps + 1)"
  by (auto simp: yaml_parser_parse_node_def wp parser_updates potential_def load_def fewer_tokens_def
    intro!: post_mono [OF post_properties] post_mono [OF post_resolve_node_tag] post_mono [OF parse_content_potential])

lemma post_append_tag_directive: "post pn (yaml_parser_append_tag_directive d dup l ds) (\<lambda>_. True)"
  by (simp add: yaml_parser_append_tag_directive_def wp)

lemma post_defaults: "post pn (go_fold (\<lambda>d. yaml_parser_append_tag_directive d True l) ds' ds) (\<lambda>_. True)"
  by (induction ds' arbitrary: ds) (auto simp: wp intro!: post_mono [OF post_append_tag_directive])

lemma post_directives_loop: "post pn (directives_loop p v ds ts) (\<lambda>(ds', ts'). length ts' \<le> length ts)"
proof (induction ts arbitrary: v ds)
  case (Cons t ts)
  have more: "post pn (directives_loop p v' ds' ts) (\<lambda>(ds', ts'). length ts' \<le> length (t # ts))" for v' ds'
    by (rule post_mono [OF Cons]) auto
  show ?case
    using more by (cases "tk t") (auto simp: wp intro!: post_mono [OF post_append_tag_directive] post_mono [OF post_defaults])
qed (simp add: wp)

lemma post_directives: "post pn (yaml_parser_process_directives ps) (\<lambda>ps'. fewer_tokens ps ps')"
  by (auto simp: yaml_parser_process_directives_def wp fewer_tokens_def intro!: post_mono [OF post_directives_loop])

lemma post_flow_separator: "(yp_marks ps = [] \<Longrightarrow> pn) \<Longrightarrow> post pn (flow_separator first c ps) (\<lambda>ps'. fewer_tokens ps ps')"
  by (auto simp: flow_separator_def wp fewer_tokens_def skip_token_def)

lemma post_open_collection: "(first \<Longrightarrow> yp_tokens ps = [] \<Longrightarrow> pn) \<Longrightarrow> post pn (open_collection first ps) (\<lambda>ps'.
    if first then (\<exists>t ts. yp_tokens ps = t # ts \<and> ps' = ps\<lparr>yp_tokens := ts, yp_marks := tk_start t # yp_marks ps\<rparr>) else ps' = ps)"
  by (auto simp: open_collection_def wp parser_updates split: list.split)

lemmas parser_collections =
  yaml_parser_parse_block_sequence_entry_def yaml_parser_parse_indentless_sequence_entry_def
  yaml_parser_parse_block_mapping_key_def yaml_parser_parse_block_mapping_value_def yaml_parser_parse_flow_sequence_entry_def
  yaml_parser_parse_flow_sequence_entry_mapping_key_def yaml_parser_parse_flow_sequence_entry_mapping_value_def
  yaml_parser_parse_flow_sequence_entry_mapping_end_def yaml_parser_parse_flow_mapping_key_def
  yaml_parser_parse_flow_mapping_value_def close_collection_def yaml_parser_process_empty_scalar_def

text \<open>Every step uses up potential.\<close>

named_theorems potential_rules

lemma block_potential [potential_rules]:
  "1 \<le> rank (yp_state ps) \<Longrightarrow> post True (yaml_parser_parse_block_sequence_entry first ps) (\<lambda>(e, ps'). potential ps' < potential ps)"
  "1 \<le> rank (yp_state ps) \<Longrightarrow> post True (yaml_parser_parse_indentless_sequence_entry ps) (\<lambda>(e, ps'). potential ps' < potential ps)"
  "1 \<le> rank (yp_state ps) \<Longrightarrow> post True (yaml_parser_parse_block_mapping_key first ps) (\<lambda>(e, ps'). potential ps' < potential ps)"
  "2 \<le> rank (yp_state ps) \<Longrightarrow> post True (yaml_parser_parse_block_mapping_value ps) (\<lambda>(e, ps'). potential ps' < potential ps)"
  by (auto simp: parser_collections wp parser_updates potential_def load_def split: if_splits
     intro!: post_mono [OF post_open_collection] post_mono [OF parse_node_potential])

lemma flow_potential [potential_rules]:
  "5 \<le> rank (yp_state ps) \<Longrightarrow> post True (yaml_parser_parse_flow_sequence_entry_mapping_key ps) (\<lambda>(e, ps'). potential ps' < potential ps)"
  "3 \<le> rank (yp_state ps) \<Longrightarrow> post True (yaml_parser_parse_flow_sequence_entry_mapping_value ps) (\<lambda>(e, ps'). potential ps' < potential ps)"
  "2 \<le> rank (yp_state ps) \<Longrightarrow> post True (yaml_parser_parse_flow_sequence_entry_mapping_end ps) (\<lambda>(e, ps'). potential ps' < potential ps)"
  "2 \<le> rank (yp_state ps) \<Longrightarrow> post True (yaml_parser_parse_flow_mapping_value is_empty ps) (\<lambda>(e, ps'). potential ps' < potential ps)"
  by (auto simp: parser_collections wp parser_updates potential_def load_def split: if_splits
     intro!: post_mono [OF post_open_collection] post_mono [OF parse_node_potential])

lemma flow_sequence_entry_potential [potential_rules]:
  "1 \<le> rank (yp_state ps) \<Longrightarrow> post True (yaml_parser_parse_flow_sequence_entry first ps) (\<lambda>(e, ps'). potential ps' < potential ps)"
  by (cases first)
    (auto simp: parser_collections flow_separator_def wp parser_updates potential_def load_def
     intro!: post_mono [OF post_open_collection] post_mono [OF parse_node_potential])

lemma flow_mapping_key_potential [potential_rules]:
  "1 \<le> rank (yp_state ps) \<Longrightarrow> post True (yaml_parser_parse_flow_mapping_key first ps) (\<lambda>(e, ps'). potential ps' < potential ps)"
  by (cases first)
    (auto simp: parser_collections flow_separator_def wp parser_updates potential_def load_def
     intro!: post_mono [OF post_open_collection] post_mono [OF parse_node_potential])

lemma node_potential [potential_rules]:
  "2 \<le> rank (yp_state ps) \<Longrightarrow> post True (yaml_parser_parse_node b i ps) (\<lambda>(e, ps'). potential ps' < potential ps)"
  by (rule post_mono [OF parse_node_potential]) (auto simp: potential_def load_def)

lemma document_potential [potential_rules]:
  "yp_state ps = STREAM_START \<Longrightarrow> post True (yaml_parser_parse_stream_start ps) (\<lambda>(e, ps'). potential ps' < potential ps)"
  "2 \<le> rank (yp_state ps) \<Longrightarrow> post True (yaml_parser_parse_document_content ps) (\<lambda>(e, ps'). potential ps' < potential ps)"
  "2 \<le> rank (yp_state ps) \<Longrightarrow> post True (yaml_parser_parse_document_end ps) (\<lambda>(e, ps'). potential ps' < potential ps)"
  by (auto simp: yaml_parser_parse_stream_start_def yaml_parser_parse_document_content_def yaml_parser_parse_document_end_def
    yaml_parser_process_empty_scalar_def wp parser_updates potential_def load_def intro!: post_mono [OF parse_node_potential])

lemma document_start_potential [potential_rules]:
  assumes "if implicit then 5 \<le> rank (yp_state ps) else 1 \<le> rank (yp_state ps)"
  shows "post True (yaml_parser_parse_document_start implicit ps) (\<lambda>(e, ps'). potential ps' < potential ps)"
proof -
  have "length (dropWhile (\<lambda>t. tk t = KDocumentEnd) ts) \<le> length ts" for ts :: "ytoken list"
    by (rule length_dropWhile_le)
  from this [of "yp_tokens ps"] show ?thesis using assms
    by (auto simp: yaml_parser_parse_document_start_def wp parser_updates potential_def fewer_tokens_def
      intro!: post_mono [OF post_directives])
qed

lemma machine_potential: "post True (yaml_parser_state_machine ps) (\<lambda>(e, ps'). potential ps' < potential ps)"
  by (cases "yp_state ps") (simp_all add: yaml_parser_state_machine_def potential_rules wp)

section \<open>The events of a stream\<close>

text \<open>The events up to the end of the stream, or to the error, which comes with them.\<close>

function parser_events :: "yparser \<Rightarrow> yevents go" where
  "parser_events ps = (case yaml_parser_state_machine ps of
     Panic \<Rightarrow> Panic
   | Err problem \<Rightarrow> Ok ([], problem)
   | Ok (e, ps') \<Rightarrow>
       if e = EStreamEnd then Ok ([e], yp_problem ps')
       else go_bind (parser_events ps') (\<lambda>(es, problem). Ok (e # es, problem)))"
  by pat_completeness auto
termination
proof (relation "measure potential")
  fix ps x e ps'
  assume "yaml_parser_state_machine ps = Ok x" "(e, ps') = x"
  with machine_potential [of ps] show "(ps', ps) \<in> measure potential" by (auto simp: post_def)
qed simp

declare parser_events.simps [simp del]

text \<open>A parser at the start of its tokens; \<open>newParser\<close> of \<open>decode.go\<close> takes the start of the stream off its events.\<close>

definition yaml_parser_initialize :: "ytoken list \<times> string \<Rightarrow> yparser" where
  "yaml_parser_initialize = (\<lambda>(ts, problem).
     \<lparr>yp_state = STREAM_START, yp_states = [], yp_marks = [], yp_tokens = ts, yp_problem = problem, yp_tag_directives = []\<rparr>)"

definition newParser :: "ytoken list \<times> string \<Rightarrow> yevents go" where
  "newParser ts = go_bind (parser_events (yaml_parser_initialize ts)) (\<lambda>s. case s of
     ([], problem) \<Rightarrow> Err (''yaml: '' @ problem)
   | (e # es, problem) \<Rightarrow> if e = EStreamStart then Ok (es, problem) else Panic)"

text \<open>\<open>Unmarshal\<close> with the scanner as a parameter.\<close>

definition Unmarshal_tokens :: "yaml_std \<Rightarrow> (string \<Rightarrow> ytoken list \<times> string) \<Rightarrow> string \<Rightarrow> gtype \<Rightarrow> yval go" where
  "Unmarshal_tokens ys scanner bytes ty =
     go_bind (newParser (scanner (if bytes = [] then [CHR 0x0A] else bytes))) (\<lambda>s. yaml_Unmarshal_events ys s ty)"

lemma parser_events_potential: "parser_events ps = Ok (es, p) \<Longrightarrow> length es \<le> potential ps"
proof (induction ps arbitrary: es p rule: parser_events.induct)
  case (1 ps)
  show ?case
  proof (cases "yaml_parser_state_machine ps")
    case (Ok r)
    obtain e ps' where r: "r = (e, ps')" by (cases r)
    have less: "potential ps' < potential ps" using machine_potential [of ps] Ok r by (simp add: post_def)
    show ?thesis
    proof (cases "e = EStreamEnd")
      case True
      then show ?thesis using "1.prems" Ok r less by (subst (asm) parser_events.simps) auto
    next
      case False
      then obtain es' where es': "parser_events ps' = Ok (es', p)" "es = e # es'"
        using "1.prems" Ok r by (subst (asm) parser_events.simps) (auto simp: go_inv)
      with "1.IH" [OF Ok r [symmetric] False es'(1)] less show ?thesis by simp
    qed
  qed (use "1.prems" in \<open>subst (asm) parser_events.simps, simp\<close>)+
qed

section \<open>Well nested events\<close>

text \<open>
  An acceptor of nested events: the top of its stack says what may come next (a node, or also the end of the collection), and the
  rest what may come once the collections around it are closed.
\<close>

datatype want = WStart | WStream | WDoc | WDocEnd | WSeq | WKey | WValue | WEnd

fun complete_node :: "want list \<Rightarrow> want list option" where
  "complete_node [] = None"
| "complete_node (w # ws) = (case w of WDoc \<Rightarrow> Some ws | WSeq \<Rightarrow> Some (WSeq # ws) | WKey \<Rightarrow> Some (WValue # ws)
     | WValue \<Rightarrow> Some (WKey # ws) | _ \<Rightarrow> None)"

definition close_node :: "want \<Rightarrow> want list \<Rightarrow> want list option" where
  "close_node w ws = (if ws \<noteq> [] \<and> hd ws = w then Some (tl ws) else None)"

fun accept_node :: "yevent \<Rightarrow> want list \<Rightarrow> want list option" where
  "accept_node (EScalar _ _ _ _ _) ws = Some ws"
| "accept_node (EAlias _ _) ws = Some ws"
| "accept_node (ESeqStart _ _) ws = Some (WSeq # ws)"
| "accept_node (EMapStart _ _) ws = Some (WKey # ws)"
| "accept_node _ ws = None"

definition accept :: "yevent \<Rightarrow> want list \<Rightarrow> want list option" where
  "accept e ws = (case e of
     ESeqEnd \<Rightarrow> close_node WSeq ws
   | EMapEnd \<Rightarrow> close_node WKey ws
   | EStreamStart \<Rightarrow> if ws = [WStart] then Some [WStream] else None
   | EDocStart \<Rightarrow> if ws = [WStream] then Some [WDoc, WDocEnd] else None
   | EDocEnd \<Rightarrow> if ws = [WDocEnd] then Some [WStream] else None
   | EStreamEnd \<Rightarrow> if ws = [WStream] then Some [WEnd] else None
   | _ \<Rightarrow> Option.bind (complete_node ws) (accept_node e))"

fun well_nested :: "want list \<Rightarrow> yevent list \<Rightarrow> bool" where
  "well_nested ws [] = True"
| "well_nested ws (e # es) = (case accept e ws of None \<Rightarrow> False | Some ws' \<Rightarrow> well_nested ws' es)"

text \<open>What a state of the parser wants, and which states are on its stack when it runs.\<close>

fun wants :: "pstate \<Rightarrow> want list" where
  "wants STREAM_START = [WStart]"
| "wants IMPLICIT_DOCUMENT_START = [WStream]"
| "wants DOCUMENT_START = [WStream]"
| "wants DOCUMENT_CONTENT = [WDoc]"
| "wants BLOCK_NODE = [WDoc]"
| "wants DOCUMENT_END = [WDocEnd]"
| "wants END_STATE = [WEnd]"
| "wants BLOCK_SEQUENCE_FIRST_ENTRY = [WSeq]"
| "wants BLOCK_SEQUENCE_ENTRY = [WSeq]"
| "wants INDENTLESS_SEQUENCE_ENTRY = [WSeq]"
| "wants FLOW_SEQUENCE_FIRST_ENTRY = [WSeq]"
| "wants FLOW_SEQUENCE_ENTRY = [WSeq]"
| "wants BLOCK_MAPPING_FIRST_KEY = [WKey]"
| "wants BLOCK_MAPPING_KEY = [WKey]"
| "wants FLOW_MAPPING_FIRST_KEY = [WKey]"
| "wants FLOW_MAPPING_KEY = [WKey]"
| "wants BLOCK_MAPPING_VALUE = [WValue]"
| "wants FLOW_MAPPING_VALUE = [WValue]"
| "wants FLOW_MAPPING_EMPTY_VALUE = [WValue]"
| "wants FLOW_SEQUENCE_ENTRY_MAPPING_KEY = [WKey, WSeq]"
| "wants FLOW_SEQUENCE_ENTRY_MAPPING_VALUE = [WValue, WSeq]"
| "wants FLOW_SEQUENCE_ENTRY_MAPPING_END = [WKey, WSeq]"
| "wants BLOCK_NODE_OR_INDENTLESS_SEQUENCE = []"
| "wants FLOW_NODE = []"

fun held_marks :: "pstate \<Rightarrow> nat" where
  "held_marks s = (if s \<in> {BLOCK_SEQUENCE_ENTRY, BLOCK_MAPPING_KEY, BLOCK_MAPPING_VALUE, FLOW_SEQUENCE_ENTRY,
     FLOW_SEQUENCE_ENTRY_MAPPING_KEY, FLOW_SEQUENCE_ENTRY_MAPPING_VALUE, FLOW_SEQUENCE_ENTRY_MAPPING_END,
     FLOW_MAPPING_KEY, FLOW_MAPPING_VALUE, FLOW_MAPPING_EMPTY_VALUE} then 1 else 0)"

fun continues :: "pstate list \<Rightarrow> bool" where
  "continues [] = False"
| "continues (s # ss) = (s = DOCUMENT_END \<and> ss = [] \<or> continues ss \<and> (held_marks s = 1 \<or> s = INDENTLESS_SEQUENCE_ENTRY) )"

definition first_entry :: "pstate \<Rightarrow> bool" where
  "first_entry s \<longleftrightarrow> s \<in> {BLOCK_SEQUENCE_FIRST_ENTRY, BLOCK_MAPPING_FIRST_KEY, FLOW_SEQUENCE_FIRST_ENTRY, FLOW_MAPPING_FIRST_KEY}"

definition conf :: "pstate list \<Rightarrow> want list" where
  "conf ss = concat (map wants ss)"

definition parser_inv :: "yparser \<Rightarrow> bool" where
  "parser_inv ps \<longleftrightarrow>
     (if yp_states ps = [] then yp_state ps \<in> {STREAM_START, IMPLICIT_DOCUMENT_START, DOCUMENT_START, DOCUMENT_END, END_STATE}
      else continues (yp_states ps) \<and>
        (held_marks (yp_state ps) = 1 \<or> first_entry (yp_state ps) \<or> yp_state ps \<in> {INDENTLESS_SEQUENCE_ENTRY, BLOCK_NODE, DOCUMENT_CONTENT}) \<and>
        (yp_state ps \<in> {BLOCK_NODE, DOCUMENT_CONTENT} \<longrightarrow> yp_states ps = [DOCUMENT_END])) \<and>
     (first_entry (yp_state ps) \<longrightarrow> yp_tokens ps \<noteq> []) \<and>
     length (yp_marks ps) = sum_list (map held_marks (yp_state ps # yp_states ps))"

text \<open>A step from one state to the next, as the acceptor sees it.\<close>

definition steps_to :: "want list option \<Rightarrow> yevent \<times> yparser \<Rightarrow> bool" where
  "steps_to ws = (\<lambda>(e, ps'). parser_inv ps' \<and> ws = Some (conf (yp_state ps' # yp_states ps')))"

definition node_inv :: "yparser \<Rightarrow> bool" where
  "node_inv ps \<longleftrightarrow> continues (yp_states ps) \<and> length (yp_marks ps) = sum_list (map held_marks (yp_states ps))"

lemma parse_content_nested: "node_inv ps \<Longrightarrow>
    post False (parse_content b i l a tg ps) (\<lambda>(e, ps'). steps_to (accept_node e (conf (yp_states ps))) (e, ps'))"
  apply (cases "yp_states ps")
  apply (auto simp: parse_content_def wp parser_updates node_inv_def parser_inv_def steps_to_def conf_def first_entry_def)
  done

lemma node_inv_fewer: "fewer_tokens ps ps' \<Longrightarrow> node_inv ps \<Longrightarrow> node_inv ps' \<and> yp_states ps' = yp_states ps"
  by (simp add: node_inv_def fewer_tokens_def)

lemma parse_node_nested: "node_inv ps \<Longrightarrow>
    post False (yaml_parser_parse_node b i ps) (\<lambda>(e, ps'). steps_to (accept_node e (conf (yp_states ps))) (e, ps'))"
proof -
  assume inv: "node_inv ps"
  have content: "post False (parse_content b i l a tg ps1) (\<lambda>(e, ps'). steps_to (accept_node e (conf (yp_states ps))) (e, ps'))"
    if "fewer_tokens ps ps1" for l a tg ps1
    using parse_content_nested [of ps1 b i l a tg] node_inv_fewer [OF that inv] by simp
  obtain s ss where ss: "yp_states ps = s # ss" using inv by (cases "yp_states ps") (auto simp: node_inv_def)
  have alias_step: "steps_to (Some (conf (yp_states ps))) (EAlias n l, skip_token (ps\<lparr>yp_state := s, yp_states := ss\<rparr>))" for n l
    using inv ss by (auto simp: node_inv_def parser_inv_def steps_to_def skip_token_def first_entry_def)
  show ?thesis
    using inv ss alias_step content
    by (auto simp: yaml_parser_parse_node_def wp node_inv_def
      intro!: post_mono [OF post_properties] post_mono [OF post_resolve_node_tag])
qed

lemma accept_node_of: "complete_node ws = Some ws' \<Longrightarrow> accept_node e ws' = Some c \<Longrightarrow> accept e ws = Some c"
  by (cases e) (auto simp: accept_def)

lemma parse_node_step:
  assumes "node_inv ps" "complete_node ws = Some (conf (yp_states ps))"
  shows "post False (yaml_parser_parse_node b i ps) (\<lambda>(e, ps'). steps_to (accept e ws) (e, ps'))"
  by (rule post_mono [OF parse_node_nested [OF assms(1)]]) (use accept_node_of [OF assms(2)] in \<open>auto simp: steps_to_def\<close>)

text \<open>Inside a collection, whose mark is on the stack.\<close>

definition collection :: "yparser \<Rightarrow> bool" where
  "collection ps \<longleftrightarrow> continues (yp_states ps) \<and> length (yp_marks ps) = Suc (sum_list (map held_marks (yp_states ps)))"

lemma collection_updates [simp]:
  "collection (skip_token ps) = collection ps" "collection (to_state s ps) = collection ps"
  "yp_states (skip_token ps) = yp_states ps" "yp_states (to_state s ps) = yp_states ps" "yp_states (push_state s ps) = s # yp_states ps"
  "yp_state (to_state s ps) = s" "yp_state (skip_token ps) = yp_state ps" "yp_tokens (to_state s ps) = yp_tokens ps"
  "yp_tokens (push_state s ps) = yp_tokens ps" "yp_tokens (skip_token ps) = tl (yp_tokens ps)"
  by (simp_all add: collection_def parser_updates)

lemma continues_nonempty: "continues ss \<Longrightarrow> ss \<noteq> []"
  by (cases ss) auto

lemma conf_Cons: "conf (s # ss) = wants s @ conf ss"
  by (simp add: conf_def)

lemma held_not_first: "held_marks s = 1 \<Longrightarrow> \<not> first_entry s \<and> s \<notin> {BLOCK_NODE, DOCUMENT_CONTENT, INDENTLESS_SEQUENCE_ENTRY}"
  by (auto simp: first_entry_def)

lemma collection_state: "collection ps \<Longrightarrow> held_marks s = 1 \<Longrightarrow> parser_inv (to_state s ps)"
  using held_not_first [of s] continues_nonempty [of "yp_states ps"]
  by (simp del: held_marks.simps add: parser_inv_def collection_def to_state_def)

lemma collection_push: "collection ps \<Longrightarrow> held_marks s = 1 \<Longrightarrow> node_inv (push_state s ps)"
  by (simp del: held_marks.simps add: node_inv_def collection_def push_state_def)

lemma collection_held: "parser_inv ps \<Longrightarrow> held_marks (yp_state ps) = 1 \<Longrightarrow> collection ps"
  using held_not_first [of "yp_state ps"]
  by (auto simp del: held_marks.simps simp add: parser_inv_def collection_def split: if_splits) simp_all

lemma open_first:
  assumes "parser_inv ps" "first_entry (yp_state ps)"
  shows "post False (open_collection True ps) (\<lambda>ps'. collection ps' \<and> yp_states ps' = yp_states ps)"
proof -
  have "held_marks (yp_state ps) = 0" using assms(2) by (auto simp: first_entry_def)
  moreover have "continues (yp_states ps)" "yp_tokens ps \<noteq> []" "length (yp_marks ps) = held_marks (yp_state ps) + sum_list (map held_marks (yp_states ps))"
    using assms by (auto simp del: held_marks.simps simp: parser_inv_def first_entry_def split: if_splits)
  ultimately show ?thesis
    by (auto simp del: held_marks.simps simp: neq_Nil_conv open_collection_def wp parser_updates collection_def)
qed

lemma open_step:
  assumes "parser_inv ps" "if first then first_entry (yp_state ps) else held_marks (yp_state ps) = 1"
  shows "post False (open_collection first ps) (\<lambda>ps'. collection ps' \<and> yp_states ps' = yp_states ps)"
  using open_first [OF assms(1)] collection_held [OF assms(1)] assms(2)
  by (cases first) (simp_all del: held_marks.simps add: open_collection_def wp)

text \<open>The ends of a step: an empty scalar, a node, the end of a collection.\<close>

lemma empty_step:
  assumes "parser_inv ps" "complete_node ws = Some (conf (yp_state ps # yp_states ps))"
  shows "post False (yaml_parser_process_empty_scalar ps m) (\<lambda>(e, ps'). steps_to (accept e ws) (e, ps'))"
  using assms by (simp add: yaml_parser_process_empty_scalar_def wp steps_to_def accept_def)

lemma popped:
  assumes "continues (yp_state ps # yp_states ps)" "length (yp_marks ps) = sum_list (map held_marks (yp_state ps # yp_states ps))"
  shows "parser_inv ps"
  using assms held_not_first [of "yp_state ps"]
  by (cases "yp_state ps = DOCUMENT_END")
    (auto simp del: held_marks.simps simp: parser_inv_def first_entry_def dest: continues_nonempty)

lemma close_step:
  assumes "collection ps" "accept e ws = Some (conf (yp_states ps))"
  shows "post False (close_collection e ps) (\<lambda>(e, ps'). steps_to (accept e ws) (e, ps'))"
proof -
  obtain s ss m ms where st: "yp_states ps = s # ss" "yp_marks ps = m # ms"
    using assms(1) by (cases "yp_states ps"; cases "yp_marks ps") (auto simp: collection_def)
  have "parser_inv (skip_token (ps\<lparr>yp_state := s, yp_states := ss, yp_marks := ms\<rparr>))"
    using assms(1) st by (intro popped) (simp_all del: held_marks.simps add: collection_def skip_token_def)
  then show ?thesis using assms(2) st by (simp add: close_collection_def wp steps_to_def)
qed

lemma accept_simps [simp]:
  "accept ESeqEnd (WSeq # ws) = Some ws" "accept EMapEnd (WKey # ws) = Some ws"
  "accept (EMapStart a l) (WSeq # ws) = Some (WKey # WSeq # ws)"
  by (simp_all add: accept_def close_node_def)

lemma collection_marks: "collection ps \<Longrightarrow> yp_marks ps = [] \<longleftrightarrow> False"
  by (auto simp: collection_def)

lemma collection_node:
  "collection ps \<Longrightarrow> held_marks s = 1 \<Longrightarrow> complete_node ws = Some (conf (s # yp_states ps)) \<Longrightarrow>
   post False (yaml_parser_parse_node b i (push_state s ps)) (\<lambda>(e, ps'). steps_to (accept e ws) (e, ps'))"
  by (rule parse_node_step [OF collection_push]) simp_all

lemma collection_empty:
  "collection ps \<Longrightarrow> held_marks s = 1 \<Longrightarrow> complete_node ws = Some (conf (s # yp_states ps)) \<Longrightarrow>
   post False (yaml_parser_process_empty_scalar (to_state s ps) m) (\<lambda>(e, ps'). steps_to (accept e ws) (e, ps'))"
  by (rule empty_step [OF collection_state]) simp_all

lemma collection_goto:
  "collection ps \<Longrightarrow> held_marks s = 1 \<Longrightarrow> ws = conf (s # yp_states ps) \<Longrightarrow> steps_to (Some ws) (e, to_state s ps)"
  "collection ps \<Longrightarrow> held_marks s = 1 \<Longrightarrow> ws = conf (s # yp_states ps) \<Longrightarrow> steps_to (Some ws) (e, skip_token (to_state s ps))"
proof -
  assume a: "collection ps" "held_marks s = 1" "ws = conf (s # yp_states ps)"
  have "skip_token (to_state s ps) = to_state s (skip_token ps)" by (simp add: parser_updates)
  then show "steps_to (Some ws) (e, to_state s ps)" "steps_to (Some ws) (e, skip_token (to_state s ps))"
    using collection_state [OF _ a(2), of ps] collection_state [OF _ a(2), of "skip_token ps"] a(1,3) by (simp_all add: steps_to_def)
qed

lemmas collection_rules = collection_node collection_empty close_step collection_goto

lemma block_sequence_nested:
  assumes "parser_inv ps" "yp_state ps = (if first then BLOCK_SEQUENCE_FIRST_ENTRY else BLOCK_SEQUENCE_ENTRY)"
  shows "post False (yaml_parser_parse_block_sequence_entry first ps) (\<lambda>(e, ps'). steps_to (accept e (WSeq # conf (yp_states ps))) (e, ps'))"
  unfolding yaml_parser_parse_block_sequence_entry_def post_bind
proof (rule post_mono [OF open_step [OF assms(1)]])
  show "if first then first_entry (yp_state ps) else held_marks (yp_state ps) = 1"
    using assms(2) by (simp add: first_entry_def)
qed (auto simp: wp Let_def conf_Cons collection_marks intro!: collection_rules)

lemma block_mapping_key_nested:
  assumes "parser_inv ps" "yp_state ps = (if first then BLOCK_MAPPING_FIRST_KEY else BLOCK_MAPPING_KEY)"
  shows "post False (yaml_parser_parse_block_mapping_key first ps) (\<lambda>(e, ps'). steps_to (accept e (WKey # conf (yp_states ps))) (e, ps'))"
  unfolding yaml_parser_parse_block_mapping_key_def post_bind
proof (rule post_mono [OF open_step [OF assms(1)]])
  show "if first then first_entry (yp_state ps) else held_marks (yp_state ps) = 1"
    using assms(2) by (simp add: first_entry_def)
qed (auto simp: wp Let_def conf_Cons collection_marks intro!: collection_rules)

lemma flow_sequence_nested:
  assumes "parser_inv ps" "yp_state ps = (if first then FLOW_SEQUENCE_FIRST_ENTRY else FLOW_SEQUENCE_ENTRY)"
  shows "post False (yaml_parser_parse_flow_sequence_entry first ps) (\<lambda>(e, ps'). steps_to (accept e (WSeq # conf (yp_states ps))) (e, ps'))"
  unfolding yaml_parser_parse_flow_sequence_entry_def post_bind
proof (rule post_mono [OF open_step [OF assms(1)]])
  show "if first then first_entry (yp_state ps) else held_marks (yp_state ps) = 1"
    using assms(2) by (simp add: first_entry_def)
qed (auto simp: wp Let_def conf_Cons collection_marks flow_separator_def intro!: collection_rules)

lemma flow_mapping_key_nested:
  assumes "parser_inv ps" "yp_state ps = (if first then FLOW_MAPPING_FIRST_KEY else FLOW_MAPPING_KEY)"
  shows "post False (yaml_parser_parse_flow_mapping_key first ps) (\<lambda>(e, ps'). steps_to (accept e (WKey # conf (yp_states ps))) (e, ps'))"
  unfolding yaml_parser_parse_flow_mapping_key_def post_bind
proof (rule post_mono [OF open_step [OF assms(1)]])
  show "if first then first_entry (yp_state ps) else held_marks (yp_state ps) = 1"
    using assms(2) by (simp add: first_entry_def)
qed (auto simp: wp Let_def conf_Cons collection_marks flow_separator_def intro!: collection_rules)

lemma in_collection_nested:
  assumes "collection ps"
  shows "post False (yaml_parser_parse_block_mapping_value ps) (\<lambda>(e, ps'). steps_to (accept e (WValue # conf (yp_states ps))) (e, ps'))"
    "post False (yaml_parser_parse_flow_mapping_value is_empty ps) (\<lambda>(e, ps'). steps_to (accept e (WValue # conf (yp_states ps))) (e, ps'))"
    "post False (yaml_parser_parse_flow_sequence_entry_mapping_key ps)
       (\<lambda>(e, ps'). steps_to (accept e (WKey # WSeq # conf (yp_states ps))) (e, ps'))"
    "post False (yaml_parser_parse_flow_sequence_entry_mapping_value ps)
       (\<lambda>(e, ps'). steps_to (accept e (WValue # WSeq # conf (yp_states ps))) (e, ps'))"
    "post False (yaml_parser_parse_flow_sequence_entry_mapping_end ps)
       (\<lambda>(e, ps'). steps_to (accept e (WKey # WSeq # conf (yp_states ps))) (e, ps'))"
  using assms
  by (auto simp: yaml_parser_parse_block_mapping_value_def yaml_parser_parse_flow_mapping_value_def
      yaml_parser_parse_flow_sequence_entry_mapping_key_def yaml_parser_parse_flow_sequence_entry_mapping_value_def
      yaml_parser_parse_flow_sequence_entry_mapping_end_def wp Let_def conf_Cons intro!: collection_rules)

lemma node_pop:
  assumes "node_inv ps"
  shows "post False (pop_state ps) (\<lambda>ps'. parser_inv ps' \<and> conf (yp_state ps' # yp_states ps') = conf (yp_states ps))"
  using assms popped continues_nonempty [of "yp_states ps"] by (auto simp del: held_marks.simps simp: wp node_inv_def)

lemma node_pop_step: "node_inv ps \<Longrightarrow> post False (pop_state ps) (\<lambda>ps'. steps_to (Some (conf (yp_states ps))) (e, ps'))"
  by (rule post_mono [OF node_pop]) (simp_all add: steps_to_def)

lemma indentless_nested:
  assumes "node_inv ps"
  shows "post False (yaml_parser_parse_indentless_sequence_entry ps) (\<lambda>(e, ps'). steps_to (accept e (WSeq # conf (yp_states ps))) (e, ps'))"
proof -
  have "parser_inv (to_state INDENTLESS_SEQUENCE_ENTRY (skip_token ps))" "node_inv (push_state INDENTLESS_SEQUENCE_ENTRY (skip_token ps))"
    using assms continues_nonempty [of "yp_states ps"] by (simp_all add: parser_inv_def node_inv_def parser_updates first_entry_def)
  then show ?thesis
    using node_pop_step [OF assms]
    by (auto simp: yaml_parser_parse_indentless_sequence_entry_def post_bind post_peek post_if post_simps Let_def conf_Cons
      intro!: parse_node_step empty_step)
qed

lemma document_goto:
  "yp_states ps = [] \<Longrightarrow> yp_marks ps = [] \<Longrightarrow> s \<in> {IMPLICIT_DOCUMENT_START, DOCUMENT_START, END_STATE} \<Longrightarrow> parser_inv (to_state s ps)"
  "yp_states ps = [] \<Longrightarrow> yp_marks ps = [] \<Longrightarrow> s \<in> {BLOCK_NODE, DOCUMENT_CONTENT} \<Longrightarrow> parser_inv (to_state s (push_state DOCUMENT_END ps))"
  by (auto simp: parser_inv_def parser_updates first_entry_def)

lemma stream_start_nested:
  assumes "yp_states ps = []" "yp_marks ps = []"
  shows "post False (yaml_parser_parse_stream_start ps) (\<lambda>(e, ps'). steps_to (accept e [WStart]) (e, ps'))"
proof -
  have "skip_token (to_state s ps) = to_state s (skip_token ps)" for s by (simp add: parser_updates)
  then show ?thesis
    using assms document_goto(1) [of "skip_token ps" IMPLICIT_DOCUMENT_START]
    by (simp add: yaml_parser_parse_stream_start_def wp steps_to_def accept_def conf_def skip_token_def)
qed

lemma document_end_nested:
  assumes "yp_states ps = []" "yp_marks ps = []"
  shows "post False (yaml_parser_parse_document_end ps) (\<lambda>(e, ps'). steps_to (accept e [WDocEnd]) (e, ps'))"
proof -
  have "parser_inv (to_state DOCUMENT_START (ps1\<lparr>yp_tag_directives := []\<rparr>))" if "yp_states ps1 = []" "yp_marks ps1 = []" for ps1
    using that by (intro document_goto) simp_all
  from this [of ps] this [of "skip_token ps"] assms show ?thesis
    by (simp add: yaml_parser_parse_document_end_def wp steps_to_def accept_def conf_def skip_token_def Let_def)
qed

lemma document_start_nested:
  assumes "yp_states ps = []" "yp_marks ps = []"
  shows "post False (yaml_parser_parse_document_start implicit ps) (\<lambda>(e, ps'). steps_to (accept e [WStream]) (e, ps'))"
proof -
  have skip: "skip_token (to_state s ps1) = to_state s (skip_token ps1)" "skip_token (push_state s ps1) = push_state s (skip_token ps1)"
    "yp_marks (skip_token ps1) = yp_marks ps1" for s ps1
    by (simp_all add: parser_updates)
  show ?thesis
    using assms
    by (auto simp: yaml_parser_parse_document_start_def wp Let_def steps_to_def accept_def conf_def fewer_tokens_def skip
      intro!: post_mono [OF post_directives] document_goto)
qed

lemma document_content_nested:
  assumes "node_inv ps" "complete_node ws = Some (conf (yp_states ps))"
  shows "post False (yaml_parser_parse_document_content ps) (\<lambda>(e, ps'). steps_to (accept e ws) (e, ps'))"
  using parse_node_step [OF assms] assms(2)
  by (auto simp: yaml_parser_parse_document_content_def post_bind post_peek post_if
      intro!: post_mono [OF node_pop [OF assms(1)]] empty_step)

lemma machine_nested:
  assumes "parser_inv ps" "yp_state ps \<noteq> END_STATE"
  shows "post False (yaml_parser_state_machine ps) (\<lambda>(e, ps'). steps_to (accept e (conf (yp_state ps # yp_states ps))) (e, ps'))"
proof -
  have marks: "length (yp_marks ps) = held_marks (yp_state ps) + sum_list (map held_marks (yp_states ps))"
    using assms(1) by (simp del: held_marks.simps add: parser_inv_def)
  show ?thesis
  proof (cases "yp_states ps = []")
    case True
    then have "yp_state ps \<in> {STREAM_START, IMPLICIT_DOCUMENT_START, DOCUMENT_START, DOCUMENT_END}" "yp_marks ps = []"
      using assms marks by (auto simp: parser_inv_def)
    then show ?thesis
      using True by (auto simp: yaml_parser_state_machine_def conf_def stream_start_nested document_end_nested document_start_nested)
  next
    case False
    then have st: "continues (yp_states ps)" "held_marks (yp_state ps) = 1 \<or> first_entry (yp_state ps) \<or>
        yp_state ps \<in> {INDENTLESS_SEQUENCE_ENTRY, BLOCK_NODE, DOCUMENT_CONTENT}"
      using assms(1) by (simp_all del: held_marks.simps add: parser_inv_def)
    then have node: "yp_state ps \<in> {INDENTLESS_SEQUENCE_ENTRY, BLOCK_NODE, DOCUMENT_CONTENT} \<Longrightarrow> node_inv ps"
      using marks by (auto simp: node_inv_def)
    show ?thesis
      using st(2) assms(1) node collection_held [OF assms(1)]
      by (cases "yp_state ps")
        (simp_all add: first_entry_def yaml_parser_state_machine_def conf_Cons block_sequence_nested block_mapping_key_nested
          flow_sequence_nested flow_mapping_key_nested in_collection_nested indentless_nested document_content_nested parse_node_step)
  qed
qed

text \<open>Only the end of the stream leads to the last state.\<close>

lemma complete_node_WEnd: "complete_node ws = Some c \<Longrightarrow> WEnd \<in> set c \<Longrightarrow> WEnd \<in> set ws"
  by (cases ws) (auto split: want.splits)

lemma accept_WEnd: "accept e ws = Some (WEnd # c) \<Longrightarrow> e \<noteq> EStreamEnd \<Longrightarrow> WEnd \<in> set ws"
  by (cases e) (auto simp: accept_def close_node_def Option.bind_eq_Some_conv dest!: complete_node_WEnd split: if_splits dest: list.set_sel)

lemma continues_no_end: "continues ss \<Longrightarrow> WEnd \<notin> set (conf ss)"
proof (induction ss)
  case (Cons s ss)
  then have "WEnd \<notin> set (wants s)" by (cases s) simp_all
  then show ?case using Cons by (auto simp: conf_def)
qed simp

lemma conf_no_end: "parser_inv ps \<Longrightarrow> yp_state ps \<noteq> END_STATE \<Longrightarrow> WEnd \<notin> set (conf (yp_state ps # yp_states ps))"
  using continues_no_end [of "yp_states ps"]
  by (cases "yp_state ps"; cases "yp_states ps = []") (simp_all add: parser_inv_def conf_Cons, simp_all add: conf_def)

lemma parser_events_nested:
  assumes "parser_inv ps" "yp_state ps \<noteq> END_STATE"
  shows "\<exists>es p. parser_events ps = Ok (es, p) \<and> well_nested (conf (yp_state ps # yp_states ps)) es"
  using assms
proof (induction ps rule: parser_events.induct)
  case (1 ps)
  note machine = machine_nested [OF "1.prems"]
  show ?case
  proof (cases "yaml_parser_state_machine ps")
    case (Ok r)
    obtain e ps' where r: "r = (e, ps')" by (cases r)
    have step: "parser_inv ps'" "accept e (conf (yp_state ps # yp_states ps)) = Some (conf (yp_state ps' # yp_states ps'))"
      using machine Ok r by (simp_all add: post_def steps_to_def)
    show ?thesis
    proof (cases "e = EStreamEnd")
      case True
      then show ?thesis using Ok r step by (subst parser_events.simps) simp
    next
      case False
      have "yp_state ps' \<noteq> END_STATE"
      proof
        assume "yp_state ps' = END_STATE"
        then have "conf (yp_state ps' # yp_states ps') = WEnd # conf (yp_states ps')" by (simp add: conf_def)
        then show False using step(2) False accept_WEnd conf_no_end [OF "1.prems"] by metis
      qed
      with "1.IH" [OF Ok r [symmetric] False step(1)] obtain es p where
        "parser_events ps' = Ok (es, p)" "well_nested (conf (yp_state ps' # yp_states ps')) es" by blast
      then show ?thesis using Ok r step False by (subst parser_events.simps) simp
    qed
  qed (use machine in \<open>simp_all add: post_def parser_events.simps\<close>)
qed

section \<open>Decoding the events\<close>

lemma accept_cases:
  assumes "accept e ws = Some ws'" "e \<notin> {ESeqEnd, EMapEnd, EStreamStart, EDocStart, EDocEnd, EStreamEnd}"
  shows "\<exists>c. complete_node ws = Some c \<and> accept_node e c = Some ws'"
  using assms by (cases e) (auto simp: accept_def Option.bind_eq_Some_conv)

lemma post_skip [wp]: "post pn (yaml_skip s) Q \<longleftrightarrow> (\<forall>s'. yaml_skip s = Ok s' \<longrightarrow> Q s')"
  by (cases s rule: yaml_skip.cases) (simp_all add: post_def)

lemma yaml_skip_Ok: "yaml_skip s = Ok s' \<Longrightarrow> \<exists>e. fst s = e # fst s' \<and> fst s' \<noteq> []"
  by (cases s rule: yaml_skip.cases) auto

lemma post_shorter:
  "post pn (yaml_parse s) Q \<longleftrightarrow> post pn (yaml_parse s) (\<lambda>(n, es, s'). length (fst s') < length (fst s) \<and> Q (n, es, s'))"
  using yaml_parse_shorter(1) [of s] by (cases "yaml_parse s") (auto simp: post_def)

lemma parse_nested:
  "well_nested ws (fst s) \<Longrightarrow> fst s \<noteq> [] \<Longrightarrow> hd (fst s) \<notin> {ESeqEnd, EMapEnd} \<Longrightarrow> complete_node ws = Some c \<Longrightarrow>
    post False (yaml_parse s) (\<lambda>(n, es, s'). fst s' \<noteq> [] \<and> well_nested c (fst s'))"
  "well_nested (WSeq # c) (fst s) \<Longrightarrow> fst s \<noteq> [] \<Longrightarrow>
    post False (yaml_parse_items s) (\<lambda>(ns, es, s'). fst s' \<noteq> [] \<and> well_nested c (fst s'))"
  "well_nested (WKey # c) (fst s) \<Longrightarrow> fst s \<noteq> [] \<Longrightarrow>
    post False (yaml_parse_pairs s) (\<lambda>(ps, es, s'). fst s' \<noteq> [] \<and> well_nested c (fst s'))"
proof (induction s and s and s arbitrary: ws c and c and c rule: yaml_parse_yaml_parse_items_yaml_parse_pairs.induct)
  case (1 s)
  obtain e evs where e: "fst s = e # evs" using "1.prems"(2) by (cases "fst s") auto
  obtain ws' where ws': "accept e ws = Some ws'" "well_nested ws' evs"
    using "1.prems"(1) e by (auto split: option.splits)
  then have node: "accept_node e c = Some ws'" "e \<notin> {ESeqEnd, EMapEnd, EStreamStart, EDocStart, EDocEnd, EStreamEnd}"
    using "1.prems"(3,4) e by (cases e; auto simp: accept_def close_node_def split: if_splits)+
  have skip: "fst s' = evs \<and> evs \<noteq> []" if "yaml_skip s = Ok s'" for s'
    using yaml_skip_Ok [OF that] e by auto
  show ?case
  proof (cases e)
    case (ESeqStart a line)
    have items: "post False (yaml_parse_items s') (\<lambda>(ns, es, s''). fst s'' \<noteq> [] \<and> well_nested c (fst s''))" if "yaml_skip s = Ok s'" for s'
      using "1.IH"(1) [OF e ESeqStart that] skip [OF that] ws'(2) node(1) ESeqStart by simp
    show ?thesis
      using e ESeqStart by (subst yaml_parse.simps) (auto simp: wp intro: post_mono [OF items])
  next
    case (EMapStart a line)
    have pairs: "post False (yaml_parse_pairs s') (\<lambda>(ns, es, s''). fst s'' \<noteq> [] \<and> well_nested c (fst s''))" if "yaml_skip s = Ok s'" for s'
      using "1.IH"(2) [OF e EMapStart that] skip [OF that] ws'(2) node(1) EMapStart by simp
    show ?thesis
      using e EMapStart by (subst yaml_parse.simps) (auto simp: wp intro: post_mono [OF pairs])
  qed (use e node ws'(2) skip in \<open>simp_all add: yaml_parse.simps wp Let_def\<close>)
next
  case (2 s)
  obtain e evs where e: "fst s = e # evs" using "2.prems"(2) by (cases "fst s") auto
  show ?case
  proof (cases "at_event ESeqEnd s")
    case True
    then show ?thesis
      using e "2.prems"(1) yaml_skip_Ok [of s] by (subst yaml_parse_items.simps) (auto simp: wp at_event_def)
  next
    case False
    then have hd: "hd (fst s) \<notin> {ESeqEnd, EMapEnd}"
      using e "2.prems"(1) by (auto simp: at_event_def accept_def close_node_def)
    have node: "post False (yaml_parse s) (\<lambda>(n, es, s'). fst s' \<noteq> [] \<and> well_nested (WSeq # c) (fst s'))"
      by (rule "2.IH"(1) [OF False "2.prems" hd]) simp
    have items: "post False (yaml_parse_items s') (\<lambda>(ns, es, s''). fst s'' \<noteq> [] \<and> well_nested c (fst s''))"
      if "yaml_parse s = Ok (n, es, s')" for n es s'
    proof (rule "2.IH"(2) [OF False that refl refl])
      show "length (fst s') < length (fst s)" using that by (rule yaml_parse_shorter)
      show "well_nested (WSeq # c) (fst s')" "fst s' \<noteq> []" using node that by (simp_all add: post_def)
    qed
    show ?thesis
    proof (cases "yaml_parse s")
      case (Ok r)
      obtain n es s' where r: "r = (n, es, s')" by (cases r)
      have items': "post False (go_bind (yaml_parse_items s') (\<lambda>(ns, es', s''). Ok (n # ns, es @ es', s'')))
          (\<lambda>(ns, es, s'). fst s' \<noteq> [] \<and> well_nested c (fst s'))"
        unfolding post_bind by (rule post_mono [OF items [OF Ok [unfolded r]]]) (auto simp: wp)
      then show ?thesis
        using Ok r False yaml_parse_shorter(1) [of s n es s'] by (subst yaml_parse_items.simps) simp
    qed (use node False in \<open>simp_all add: yaml_parse_items.simps wp\<close>)
  qed
next
  case (3 s)
  obtain e evs where e: "fst s = e # evs" using "3.prems"(2) by (cases "fst s") auto
  show ?case
  proof (cases "at_event EMapEnd s")
    case True
    then show ?thesis
      using e "3.prems"(1) yaml_skip_Ok [of s] by (subst yaml_parse_pairs.simps) (auto simp: wp at_event_def)
  next
    case False
    then have hd: "hd (fst s) \<notin> {ESeqEnd, EMapEnd}"
      using e "3.prems"(1) by (auto simp: at_event_def accept_def close_node_def)
    have key: "post False (yaml_parse s) (\<lambda>(n, es, s'). fst s' \<noteq> [] \<and> well_nested (WValue # c) (fst s'))"
      by (rule "3.IH"(1) [OF False "3.prems" hd]) simp
    have val: "post False (yaml_parse s') (\<lambda>(n, es, s''). fst s'' \<noteq> [] \<and> well_nested (WKey # c) (fst s''))"
      if "yaml_parse s = Ok (n, es, s')" for n es s'
    proof (rule "3.IH"(2) [OF False that refl refl])
      show "length (fst s') < length (fst s)" using that by (rule yaml_parse_shorter)
      show wn: "well_nested (WValue # c) (fst s')" "fst s' \<noteq> []" using key that by (simp_all add: post_def)
      then show "hd (fst s') \<notin> {ESeqEnd, EMapEnd}"
        by (cases "fst s'") (auto simp: accept_def close_node_def)
    qed simp
    have pairs: "post False (yaml_parse_pairs s'') (\<lambda>(ns, es, s''). fst s'' \<noteq> [] \<and> well_nested c (fst s''))"
      if "yaml_parse s = Ok (n, es, s')" "yaml_parse s' = Ok (v, es', s'')" for n es s' v es' s''
    proof (rule "3.IH"(3) [OF False that(1) refl refl _ that(2) refl refl])
      show "length (fst s') < length (fst s)" using that(1) by (rule yaml_parse_shorter)
      show "length (fst s'') < length (fst s')" using that(2) by (rule yaml_parse_shorter)
      show "well_nested (WKey # c) (fst s'')" "fst s'' \<noteq> []" using val [OF that(1)] that(2) by (simp_all add: post_def)
    qed
    have rest: "post False (yaml_parse s') (\<lambda>(v, es', s''). length (fst s'') < length (fst s') \<and>
        post False (yaml_parse_pairs s'') (\<lambda>(ns, es, s''). fst s'' \<noteq> [] \<and> well_nested c (fst s'')))"
      if "yaml_parse s = Ok (n, es, s')" for n es s'
      using val [OF that] pairs [OF that] yaml_parse_shorter(1) [of s'] by (cases "yaml_parse s'") (auto simp: post_def)
    show ?thesis
    proof (cases "yaml_parse s")
      case (Ok r)
      obtain n es s' where r: "r = (n, es, s')" by (cases r)
      have "post False (go_bind (yaml_parse s') (\<lambda>(v, es', s'').
            if length (fst s'') < length (fst s')
            then go_bind (yaml_parse_pairs s'') (\<lambda>(ps, es2, s3). Ok ((n, v) # ps, es @ es' @ es2, s3)) else Panic))
          (\<lambda>(ns, es, s'). fst s' \<noteq> [] \<and> well_nested c (fst s'))"
        unfolding post_bind by (rule post_mono [OF rest [OF Ok [unfolded r]]]) (auto simp: wp elim!: post_mono)
      then show ?thesis
        using Ok r False yaml_parse_shorter(1) [of s n es s'] by (subst yaml_parse_pairs.simps) simp
    qed (use key False in \<open>simp_all add: yaml_parse_pairs.simps wp\<close>)
  qed
qed

text \<open>The decoder itself never panics: a locale for what its recursive calls promise.\<close>

locale total_decoder =
  fixes um :: decode_fn and N :: "ynode set"
  assumes no_panic: "n \<in> N \<Longrightarrow> post False (um n ty cur tr) (\<lambda>_. True)"
begin

lemma fold_total: "(\<And>x s. x \<in> set xs \<Longrightarrow> post False (f x s) (\<lambda>_. True)) \<Longrightarrow> post False (go_fold f xs s) (\<lambda>_. True)"
proof (induction xs arbitrary: s)
  case (Cons x xs)
  have "post False (go_fold f xs s') (\<lambda>_. True)" for s' using Cons.prems by (intro Cons.IH) simp
  then show ?case using Cons.prems [of x s] by (auto simp: post_bind elim!: post_mono)
qed (simp add: wp)

lemma sequence_total: "set ns \<subseteq> N \<Longrightarrow> post False (yaml_sequence um line ns ty cur tr) (\<lambda>_. True)"
proof -
  assume ns: "set ns \<subseteq> N"
  have "post False (sequence_step um et n s) (\<lambda>_. True)" if "n \<in> set ns" for et n s
    using no_panic [of n et "zero_value et" "snd s"] that ns by (cases s) (auto simp: sequence_step_apply wp elim!: post_mono)
  from fold_total [OF this] show ?thesis by (auto simp: yaml_sequence_def wp elim!: post_mono)
qed

lemma merge_total: "{n} \<union> set (node_elems n) \<subseteq> N \<Longrightarrow> post False (yaml_merge um anchors mt n s) (\<lambda>_. True)"
proof -
  assume n: "{n} \<union> set (node_elems n) \<subseteq> N"
  have step: "post False (merge_step um anchors mt m s) (\<lambda>_. True)" if "m \<in> N" for m s
    using no_panic [OF that] by (cases s) (auto simp: merge_step_apply wp elim!: post_mono)
  show ?thesis using n by (cases n) (auto simp: yaml_merge_def intro!: fold_total step)
qed

lemma mapping_total:
  assumes "\<forall>(k, v) \<in> set ps. k \<in> N \<and> v \<in> N \<and> set (node_elems v) \<subseteq> N"
  shows "post False (yaml_mapping ys um anchors line ps ty cur tr) (\<lambda>_. True)"
proof -
  have step: "post False (mapping_step ys um anchors mt kt et p s) (\<lambda>_. True)" if p: "p \<in> set ps" for mt kt et p s
  proof -
    obtain kn vn where p': "p = (kn, vn)" by (cases p)
    obtain m tr where s: "s = (m, tr)" by (cases s)
    have "post False (um kn t c tr') (\<lambda>_. True)" "post False (um vn t c tr') (\<lambda>_. True)" for t c tr'
      using assms p p' by (auto intro: no_panic)
    moreover have "post False (yaml_merge um anchors mt vn s') (\<lambda>_. True)" for s'
      using assms p p' by (intro merge_total) auto
    ultimately show ?thesis by (auto simp: p' s mapping_step_apply wp elim!: post_mono)
  qed
  have "post False (go_fold (mapping_step ys um anchors mt kt et) ps s) (\<lambda>_. True)" for mt kt et s
    by (rule fold_total) (rule step)
  then show ?thesis by (auto simp: yaml_mapping_def wp elim!: post_mono)
qed

end

lemma post_resolve: "post False (resolve pf tag s) (\<lambda>_. True)"
  by (simp add: resolve_def wp Let_def)

lemma scalar_total: "post False (yaml_scalar ys ntag s implicit line ty cur tr) (\<lambda>_. True)"
  by (auto simp: yaml_scalar_def scalar_resolved_def wp intro!: post_mono [OF post_resolve])

lemma unmarshal_total: "post False (unmarshal ys anchors active n ty cur tr) (\<lambda>_. True)"
proof (induction ys anchors active n ty cur tr rule: unmarshal.induct)
  case (1 ys anchors active line name ty cur terrors)
  then show ?case by (auto simp: unmarshal.simps(1) wp)
next
  case (2 ys anchors active ntag val impl line ty cur terrors)
  then show ?case by (simp add: unmarshal.simps scalar_total)
next
  case (3 ys anchors active line ns ty cur terrors)
  have "total_decoder (unmarshal ys anchors active) (set ns)" by unfold_locales (use "3.IH" in blast)
  then show ?case by (simp add: unmarshal.simps total_decoder.sequence_total)
next
  case (4 ys anchors active line ps ty cur terrors)
  let ?S = "{n. \<exists>k v. (k, v) \<in> set ps \<and> (n = k \<or> n = v \<or> n \<in> set (node_elems v))}"
  have "total_decoder (unmarshal ys anchors active) ?S" by unfold_locales (use "4.IH" in blast)
  moreover have "\<forall>(k, v) \<in> set ps. k \<in> ?S \<and> v \<in> ?S \<and> set (node_elems v) \<subseteq> ?S" by blast
  ultimately show ?case by (simp add: unmarshal.simps total_decoder.mapping_total)
qed

interpretation total: total_decoder "unmarshal ys anchors active" UNIV for ys anchors active
  by unfold_locales (rule unmarshal_total)

lemma accept_WDocEnd: "accept e [WDocEnd] = Some ws \<longleftrightarrow> e = EDocEnd \<and> ws = [WStream]"
  by (cases e) (auto simp: accept_def close_node_def)

lemma Unmarshal_events_total:
  assumes "well_nested [WStream] (fst s)"
  shows "post False (yaml_Unmarshal_events ys s ty) (\<lambda>_. True)"
proof (cases "fst s")
  case Nil
  then show ?thesis by (cases s) (simp add: yaml_Unmarshal_events_def wp)
next
  case (Cons e evs)
  then obtain p where s: "s = (e # evs, p)" by (cases s) auto
  have e: "e = EStreamEnd \<or> e = EDocStart \<and> well_nested [WDoc, WDocEnd] evs"
    using assms s by (cases e) (auto simp: accept_def close_node_def split: option.splits)
  have doc: "post False (yaml_parse_document s) (\<lambda>_. True)" if wn: "well_nested [WDoc, WDocEnd] evs"
  proof -
    have "post False (yaml_parse s1) (\<lambda>(n, es, s2). at_event EDocEnd s2)" if "yaml_skip s = Ok s1" for s1
    proof -
      have s1: "fst s1 = evs" "evs \<noteq> []" using yaml_skip_Ok [OF that] s by auto
      then have "hd (fst s1) \<notin> {ESeqEnd, EMapEnd}"
        using wn by (cases evs) (auto simp: accept_def close_node_def)
      from parse_nested(1) [OF _ _ this, of "[WDoc, WDocEnd]" "[WDocEnd]"] show ?thesis
        using s1 wn by (auto elim!: post_mono simp: at_event_def neq_Nil_conv accept_WDocEnd split: option.splits)
    qed
    then show ?thesis by (auto simp: yaml_parse_document_def wp elim!: post_mono)
  qed
  from e show ?thesis
    using doc unmarshal_total s by (auto simp: yaml_Unmarshal_events_def wp elim!: post_mono)
qed

section \<open>Every input\<close>

lemma parser_initial: "parser_inv (yaml_parser_initialize s) \<and> yp_state (yaml_parser_initialize s) = STREAM_START \<and> yp_states (yaml_parser_initialize s) = []"
  by (cases s) (simp add: yaml_parser_initialize_def parser_inv_def first_entry_def)

lemma stream_events: "\<exists>es p. parser_events (yaml_parser_initialize s) = Ok (es, p) \<and> well_nested [WStart] es"
  using parser_events_nested [of "yaml_parser_initialize s"] parser_initial [of s] by (auto simp: conf_def)

lemma accept_WStart: "accept e [WStart] = Some ws \<longleftrightarrow> e = EStreamStart \<and> ws = [WStream]"
  by (cases e) (auto simp: accept_def close_node_def)

text \<open>
  C16: Whatever the tokens of the scanner and wherever they break off, the parser ends: it yields at most eight events a token and one
  more, and they are nested as a stream of documents is, until the end of the stream or the error.\<close>

theorem parser_events_end:
  "\<exists>es p. parser_events (yaml_parser_initialize (ts, problem)) = Ok (es, p) \<and> length es \<le> 8 * length ts + 1 \<and> well_nested [WStart] es"
proof -
  obtain es p where es: "parser_events (yaml_parser_initialize (ts, problem)) = Ok (es, p)" "well_nested [WStart] es"
    using stream_events by blast
  then show ?thesis
    using parser_events_potential [OF es(1)] by (simp add: potential_def yaml_parser_initialize_def)
qed

text \<open>
  C14: Unmarshalling never panics: no step takes from an empty stack or dereferences a missing token, the decoder meets no event it does
  not expect, and what is wrong with the input is an error.\<close>

theorem Unmarshal_never_panics: "Unmarshal_tokens ys scanner bytes ty \<noteq> Panic"
proof -
  have "post False (newParser s) (\<lambda>s'. well_nested [WStream] (fst s'))" for s
  proof -
    obtain es p where es: "parser_events (yaml_parser_initialize s) = Ok (es, p)" "well_nested [WStart] es"
      using stream_events by blast
    then show ?thesis by (cases es) (auto simp: newParser_def wp accept_WStart split: option.splits)
  qed
  then have "post False (Unmarshal_tokens ys scanner bytes ty) (\<lambda>_. True)"
    unfolding Unmarshal_tokens_def post_bind by (rule post_mono) (rule Unmarshal_events_total)
  then show ?thesis by (auto simp: post_def)
qed

text \<open>
  The handler of an empty key in a flow sequence skips the token after it, which is not its own: of \<open>[? : x]\<close>, that the
  grammar allows, the \<open>VALUE\<close> is lost, and the document is rejected.\<close>

definition plain_token :: "tok \<Rightarrow> ytoken" where
  "plain_token k = \<lparr>tk = k, tk_start = 0, tk_end = 0\<rparr>"

definition empty_flow_key :: "string \<Rightarrow> ytoken list" where
  "empty_flow_key s = map plain_token [KStreamStart, KFlowSequenceStart, KKey, KValue, KScalar s True, KFlowSequenceEnd, KStreamEnd]"

lemma empty_flow_key_events:
  "parser_events (yaml_parser_initialize (empty_flow_key s, p)) =
    Ok ([EStreamStart, EDocStart, ESeqStart None 0, EMapStart None 0, EScalar None [] [] True 0, EScalar None [] [] True 0, EMapEnd],
      ''did not find expected '' @ [CHR 0x27] @ '','' @ [CHR 0x27] @ '' or '' @ [CHR 0x27] @ '']'' @ [CHR 0x27])"
  by (simp add: parser_events.simps empty_flow_key_def yaml_parser_initialize_def plain_token_def yaml_parser_state_machine_def
      yaml_parser_parse_stream_start_def yaml_parser_parse_document_start_def peek_token_def parser_updates yaml_parser_process_directives_def
      default_tag_directives_def yaml_parser_append_tag_directive_def yaml_parser_parse_node_def parse_properties_def resolve_node_tag_def
      parse_content_def parser_collections open_collection_def flow_separator_def marked_error_def parser_error_def)

theorem empty_flow_key_rejected:
  "Unmarshal_tokens ys (\<lambda>_. (empty_flow_key s, p)) bytes ty
    = Err (''yaml: did not find expected '' @ [CHR 0x27] @ '','' @ [CHR 0x27] @ '' or '' @ [CHR 0x27] @ '']'' @ [CHR 0x27])"
  by (simp add: Unmarshal_tokens_def newParser_def empty_flow_key_events yaml_Unmarshal_events_def yaml_parse_document_def
      yaml_parse.simps yaml_parse_items.simps yaml_parse_pairs.simps at_event_def Let_def)

end
