(* ===== verification/Yaml_Grammar.thy ===== *)
theory Yaml_Grammar
  imports Yaml_Parser
begin

text \<open>
  The grammar of YAML tokens, as the comments of \<open>gopkg.in/yaml.v2/parserc.go\<close> give it production by production, and the proof that the
  parser yields, for the tokens of a document, the events of that document.
\<close>

section \<open>Documents in the grammar\<close>

text \<open>
  The productions that \<open>parserc.go\<close> cites, as a relation between a document and the tokens it is written as, with the tag
  directives \<open>ds\<close> in force: block and flow collections, a sequence not indented in a mapping, nodes left empty in a block, anchors
  and tags in either order.  The flags of \<open>renders\<close> allow a block collection and a sequence that is not indented.
\<close>

definition node_tag :: "(string \<times> string) list \<Rightarrow> string \<Rightarrow> string \<Rightarrow> string option" where
  "node_tag ds handle suff =
     (if handle = [] then Some suff
      else (case map_of ds handle of None \<Rightarrow> None | Some pref \<Rightarrow> if pref @ suff = [] then None else Some (pref @ suff)))"

inductive props :: "(string \<times> string) list \<Rightarrow> string option \<Rightarrow> string \<Rightarrow> ytoken list \<Rightarrow> bool" for ds where
  no_props: "props ds None [] []"
| anchor_only: "tk x = KAnchor a \<Longrightarrow> props ds (Some a) [] [x]"
| tag_only: "tk x = KTag h suff \<Longrightarrow> node_tag ds h suff = Some tag \<Longrightarrow> props ds None tag [x]"
| anchor_tag: "tk x = KAnchor a \<Longrightarrow> tk y = KTag h suff \<Longrightarrow> node_tag ds h suff = Some tag \<Longrightarrow> props ds (Some a) tag [x, y]"
| tag_anchor: "tk x = KTag h suff \<Longrightarrow> tk y = KAnchor a \<Longrightarrow> node_tag ds h suff = Some tag \<Longrightarrow> props ds (Some a) tag [x, y]"

definition line_of :: "ytoken list \<Rightarrow> nat" where
  "line_of ts = tk_start (hd ts)"

definition null_node :: "ytoken \<Rightarrow> ytree" where
  "null_node x = TreeScalar None [] [] True (tk_end x)"

inductive renders :: "(string \<times> string) list \<Rightarrow> bool \<Rightarrow> bool \<Rightarrow> ytree \<Rightarrow> ytoken list \<Rightarrow> bool"
  and block_entries :: "(string \<times> string) list \<Rightarrow> ytree list \<Rightarrow> ytoken list \<Rightarrow> bool"
  and block_node :: "(string \<times> string) list \<Rightarrow> bool \<Rightarrow> ytoken \<Rightarrow> ytree \<Rightarrow> ytoken list \<Rightarrow> bool"
  and block_pairs :: "(string \<times> string) list \<Rightarrow> (ytree \<times> ytree) list \<Rightarrow> ytoken list \<Rightarrow> bool"
  and flow_more :: "(string \<times> string) list \<Rightarrow> ytree list \<Rightarrow> ytoken list \<Rightarrow> bool"
  and flow_more_pairs :: "(string \<times> string) list \<Rightarrow> (ytree \<times> ytree) list \<Rightarrow> ytoken list \<Rightarrow> bool" for ds where
  r_alias: "tk x = KAlias name \<Longrightarrow> renders ds b i (TreeAlias name (tk_start x)) [x]"
| r_scalar: "props ds a tag pts \<Longrightarrow> tk x = KScalar s plain \<Longrightarrow>
    renders ds b i (TreeScalar a tag s (tag = [] \<and> plain \<or> tag = ''!'') (line_of (pts @ [x]))) (pts @ [x])"
| r_empty: "props ds a tag pts \<Longrightarrow> a \<noteq> None \<and> a \<noteq> Some [] \<or> tag \<noteq> [] \<Longrightarrow>
    renders ds b i (TreeScalar a tag [] (tag = []) (line_of pts)) pts"
| r_block_seq: "props ds a tag pts \<Longrightarrow> tk x = KBlockSequenceStart \<Longrightarrow> block_entries ds ts toks \<Longrightarrow> tk u = KBlockEnd \<Longrightarrow>
    renders ds True i (TreeSeq a (line_of (pts @ [x])) ts) (pts @ x # toks @ [u])"
| r_indentless: "props ds a tag pts \<Longrightarrow> block_entries ds ts toks \<Longrightarrow> ts \<noteq> [] \<Longrightarrow>
    renders ds b True (TreeSeq a (line_of (pts @ toks)) ts) (pts @ toks)"
| r_block_map: "props ds a tag pts \<Longrightarrow> tk x = KBlockMappingStart \<Longrightarrow> block_pairs ds ps toks \<Longrightarrow> tk u = KBlockEnd \<Longrightarrow>
    renders ds True i (TreeMap a (line_of (pts @ [x])) ps) (pts @ x # toks @ [u])"
| r_flow_seq0: "props ds a tag pts \<Longrightarrow> tk x = KFlowSequenceStart \<Longrightarrow> tk u = KFlowSequenceEnd \<Longrightarrow>
    renders ds b i (TreeSeq a (line_of (pts @ [x])) []) (pts @ [x, u])"
| r_flow_seq: "props ds a tag pts \<Longrightarrow> tk x = KFlowSequenceStart \<Longrightarrow> renders ds False False t tt \<Longrightarrow> flow_more ds ts toks \<Longrightarrow>
    tk u = KFlowSequenceEnd \<Longrightarrow>
    renders ds b i (TreeSeq a (line_of (pts @ [x])) (t # ts)) (pts @ x # tt @ toks @ [u])"
| r_flow_map0: "props ds a tag pts \<Longrightarrow> tk x = KFlowMappingStart \<Longrightarrow> tk u = KFlowMappingEnd \<Longrightarrow>
    renders ds b i (TreeMap a (line_of (pts @ [x])) []) (pts @ [x, u])"
| r_flow_map: "props ds a tag pts \<Longrightarrow> tk x = KFlowMappingStart \<Longrightarrow> tk y = KKey \<Longrightarrow> renders ds False False k kt \<Longrightarrow>
    tk z = KValue \<Longrightarrow> renders ds False False v vt \<Longrightarrow> flow_more_pairs ds ps toks \<Longrightarrow> tk u = KFlowMappingEnd \<Longrightarrow>
    renders ds b i (TreeMap a (line_of (pts @ [x])) ((k, v) # ps)) (pts @ x # y # kt @ z # vt @ toks @ [u])"
| n_null: "block_node ds i x (null_node x) []"
| n_node: "renders ds True i t toks \<Longrightarrow> block_node ds i x t toks"
| e_nil: "block_entries ds [] []"
| e_cons: "tk x = KBlockEntry \<Longrightarrow> block_node ds False x t tt \<Longrightarrow> block_entries ds ts toks \<Longrightarrow> block_entries ds (t # ts) (x # tt @ toks)"
| p_nil: "block_pairs ds [] []"
| p_cons: "tk y = KKey \<Longrightarrow> block_node ds True y k kt \<Longrightarrow> tk z = KValue \<Longrightarrow> block_node ds True z v vt \<Longrightarrow> block_pairs ds ps toks \<Longrightarrow>
    block_pairs ds ((k, v) # ps) (y # kt @ z # vt @ toks)"
| f_nil: "flow_more ds [] []"
| f_comma: "tk x = KFlowEntry \<Longrightarrow> flow_more ds [] [x]"
| f_cons: "tk x = KFlowEntry \<Longrightarrow> renders ds False False t tt \<Longrightarrow> flow_more ds ts toks \<Longrightarrow> flow_more ds (t # ts) (x # tt @ toks)"
| fp_nil: "flow_more_pairs ds [] []"
| fp_comma: "tk x = KFlowEntry \<Longrightarrow> flow_more_pairs ds [] [x]"
| fp_cons: "tk x = KFlowEntry \<Longrightarrow> tk y = KKey \<Longrightarrow> renders ds False False k kt \<Longrightarrow> tk z = KValue \<Longrightarrow> renders ds False False v vt \<Longrightarrow>
    flow_more_pairs ds ps toks \<Longrightarrow> flow_more_pairs ds ((k, v) # ps) (x # y # kt @ z # vt @ toks)"

text \<open>The tokens that cannot start a node.\<close>

definition ends_node :: "tok \<Rightarrow> bool" where
  "ends_node k \<longleftrightarrow> k \<in> {KBlockEntry, KBlockEnd, KKey, KValue, KFlowEntry, KFlowSequenceEnd, KFlowMappingEnd, KDocumentStart, KDocumentEnd, KStreamEnd} \<or> is_directive k"

definition follows :: "bool \<Rightarrow> ytoken list \<Rightarrow> bool" where
  "follows i rest \<longleftrightarrow> rest \<noteq> [] \<and> ends_node (tk (hd rest)) \<and> (i \<longrightarrow> tk (hd rest) \<in> {KKey, KValue, KBlockEnd})"

lemma props_first: "props ds a tag pts \<Longrightarrow> pts \<noteq> [] \<Longrightarrow> token_alias (tk (hd pts)) = None \<and> \<not> ends_node (tk (hd pts))"
  by (induction rule: props.induct) (auto simp: ends_node_def)

text \<open>Running the machine.\<close>

fun runs :: "yparser \<Rightarrow> yevent list \<Rightarrow> yparser \<Rightarrow> bool" where
  "runs ps [] ps' = (ps = ps')"
| "runs ps (e # es) ps' = (\<exists>ps1. yaml_parser_state_machine ps = Ok (e, ps1) \<and> e \<noteq> EStreamEnd \<and> runs ps1 es ps')"

definition goes :: "parsed \<Rightarrow> yevent list \<Rightarrow> yparser \<Rightarrow> bool" where
  "goes m es ps' = (\<exists>e es' ps1. es = e # es' \<and> m = Ok (e, ps1) \<and> e \<noteq> EStreamEnd \<and> runs ps1 es' ps')"

lemma runs_append: "runs ps es ps1 \<Longrightarrow> runs ps1 fs ps' \<Longrightarrow> runs ps (es @ fs) ps'"
  by (induction es arbitrary: ps) auto

lemma goes_runs: "goes (yaml_parser_state_machine ps) es ps' \<Longrightarrow> runs ps es ps'"
  by (auto simp: goes_def)

lemma goes_append: "goes m es ps1 \<Longrightarrow> goes (yaml_parser_state_machine ps1) fs ps' \<Longrightarrow> goes m (es @ fs) ps'"
  by (fastforce simp: goes_def intro: runs_append)

lemma goes_Ok: "e \<noteq> EStreamEnd \<Longrightarrow> goes (yaml_parser_state_machine ps1) fs ps' \<Longrightarrow> goes (Ok (e, ps1)) (e # fs) ps'"
  by (auto simp: goes_def)

lemma goes_last: "e \<noteq> EStreamEnd \<Longrightarrow> goes (Ok (e, ps')) [e] ps'"
  by (auto simp: goes_def)

text \<open>The properties of a node are read, and its content follows.\<close>

lemma same_tokens: "yp_tokens ps = ts \<Longrightarrow> ps\<lparr>yp_tokens := ts\<rparr> = ps"
  by (cases ps) simp

lemma resolve_node_tag_Some: "node_tag (yp_tag_directives ps) h suff = Some tag \<Longrightarrow> resolve_node_tag ps l (Some (h, suff, m)) = Ok tag"
  by (auto simp: resolve_node_tag_def node_tag_def Let_def split: if_splits option.splits)

lemma props_parse:
  assumes "props (yp_tag_directives ps) a tag pts" "yp_tokens ps = pts @ content"
    "content \<noteq> []" "token_anchor (tk (hd content)) = None" "token_tag (tk (hd content)) = None" "token_alias (tk (hd content)) = None"
  shows "yaml_parser_parse_node b i ps = parse_content b i (line_of (pts @ content)) a tag (ps\<lparr>yp_tokens := content\<rparr>)"
proof -
  obtain c cs where c: "content = c # cs" using assms(3) by (cases content) auto
  have none: "resolve_node_tag ps1 l None = Ok []" for ps1 l by (simp add: resolve_node_tag_def)
  show ?thesis
    using assms(1) assms(2-)
    by (cases rule: props.cases)
      (simp_all add: yaml_parser_parse_node_def c peek_token_def parse_properties_def skip_property_def skip_token_def line_of_def
        none resolve_node_tag_Some same_tokens Let_def)
qed

text \<open>Where the machine is after a node, and after a collection.\<close>

definition after_node :: "yparser \<Rightarrow> ytoken list \<Rightarrow> yparser" where
  "after_node ps rest = ps\<lparr>yp_state := hd (yp_states ps), yp_states := tl (yp_states ps), yp_tokens := rest\<rparr>"

definition after_collection :: "yparser \<Rightarrow> ytoken list \<Rightarrow> yparser" where
  "after_collection ps rest = (after_node ps rest)\<lparr>yp_marks := tl (yp_marks ps)\<rparr>"

definition parses_node :: "(string \<times> string) list \<Rightarrow> bool \<Rightarrow> bool \<Rightarrow> ytree \<Rightarrow> ytoken list \<Rightarrow> bool" where
  "parses_node ds b i t toks \<longleftrightarrow> (\<forall>ps rest. yp_tokens ps = toks @ rest \<longrightarrow> yp_states ps \<noteq> [] \<longrightarrow> yp_tag_directives ps = ds \<longrightarrow>
     follows i rest \<longrightarrow> goes (yaml_parser_parse_node b i ps) (events_of t) (after_node ps rest))"

text \<open>A run of a collection's handler to its end, over tokens that end in one of kind \<open>u\<close>.\<close>

definition parses_collection :: "(string \<times> string) list \<Rightarrow> (yparser \<Rightarrow> parsed) \<Rightarrow> yevent list \<Rightarrow> ytoken list \<Rightarrow> tok \<Rightarrow> bool" where
  "parses_collection ds f es toks k \<longleftrightarrow> (\<forall>ps u rest. yp_tokens ps = toks @ u # rest \<longrightarrow> tk u = k \<longrightarrow> yp_states ps \<noteq> [] \<longrightarrow> yp_marks ps \<noteq> [] \<longrightarrow>
     yp_tag_directives ps = ds \<longrightarrow> goes (f ps) es (after_collection ps rest))"

definition parses_indentless :: "(string \<times> string) list \<Rightarrow> yevent list \<Rightarrow> ytoken list \<Rightarrow> bool" where
  "parses_indentless ds es toks \<longleftrightarrow> (\<forall>ps rest. yp_tokens ps = toks @ rest \<longrightarrow> yp_states ps \<noteq> [] \<longrightarrow> yp_tag_directives ps = ds \<longrightarrow>
     follows True rest \<longrightarrow> goes (yaml_parser_parse_indentless_sequence_entry ps) es (after_node ps rest))"

definition parses_entry :: "(string \<times> string) list \<Rightarrow> bool \<Rightarrow> ytoken \<Rightarrow> ytree \<Rightarrow> ytoken list \<Rightarrow> bool" where
  "parses_entry ds i x t toks \<longleftrightarrow> toks = [] \<and> t = null_node x
     \<or> toks \<noteq> [] \<and> (ends_node (tk (hd toks)) \<longrightarrow> i \<and> tk (hd toks) = KBlockEntry) \<and> parses_node ds True i t toks"

lemma token_kinds:
  "ends_node k \<Longrightarrow> token_anchor k = None \<and> token_tag k = None \<and> token_alias k = None \<and> token_scalar k = None"
  "k \<in> {KBlockSequenceStart, KBlockMappingStart, KFlowSequenceStart, KFlowMappingStart} \<Longrightarrow>
    token_anchor k = None \<and> token_tag k = None \<and> token_alias k = None \<and> token_scalar k = None \<and> \<not> ends_node k"
  by (cases k; simp add: ends_node_def)+

lemma parses_alias: "tk x = KAlias name \<Longrightarrow> parses_node ds b i (TreeAlias name (tk_start x)) [x]"
  unfolding parses_node_def
  by (intro allI impI)
    (simp add: yaml_parser_parse_node_def peek_token_def pop_state_def skip_token_def after_node_def goes_def split: list.split)

lemma parses_scalar:
  assumes "props ds a tag pts" "tk x = KScalar s plain"
  shows "parses_node ds b i (TreeScalar a tag s (tag = [] \<and> plain \<or> tag = ''!'') (line_of (pts @ [x]))) (pts @ [x])"
  unfolding parses_node_def
proof (intro allI impI)
  fix ps :: yparser and rest
  assume ps: "yp_tokens ps = (pts @ [x]) @ rest" "yp_states ps \<noteq> []" "yp_tag_directives ps = ds" "follows i rest"
  have "yaml_parser_parse_node b i ps = parse_content b i (line_of (pts @ x # rest)) a tag (ps\<lparr>yp_tokens := x # rest\<rparr>)"
    by (rule props_parse) (use assms ps in simp_all)
  moreover have "line_of (pts @ x # rest) = line_of (pts @ [x])" by (cases pts) (simp_all add: line_of_def)
  ultimately show "goes (yaml_parser_parse_node b i ps)
      (events_of (TreeScalar a tag s (tag = [] \<and> plain \<or> tag = ''!'') (line_of (pts @ [x])))) (after_node ps rest)"
    using ps assms(2) by (cases "yp_states ps") (simp_all add: parse_content_def peek_token_def pop_state_def skip_token_def after_node_def goes_def)
qed

lemma parses_empty:
  assumes "props ds a tag pts" "a \<noteq> None \<and> a \<noteq> Some [] \<or> tag \<noteq> []"
  shows "parses_node ds b i (TreeScalar a tag [] (tag = []) (line_of pts)) pts"
  unfolding parses_node_def
proof (intro allI impI)
  fix ps :: yparser and rest
  assume ps: "yp_tokens ps = pts @ rest" "yp_states ps \<noteq> []" "yp_tag_directives ps = ds" "follows i rest"
  obtain r rs where r: "rest = r # rs" "ends_node (tk r)" "i \<longrightarrow> tk r \<noteq> KBlockEntry" using ps(4) by (cases rest) (auto simp: follows_def)
  have "yaml_parser_parse_node b i ps = parse_content b i (line_of (pts @ rest)) a tag (ps\<lparr>yp_tokens := rest\<rparr>)"
    by (rule props_parse) (use assms ps r token_kinds in simp_all)
  moreover have "line_of (pts @ rest) = line_of pts" using assms by (cases pts) (auto simp: line_of_def elim: props.cases)
  moreover have "tk r \<notin> {KFlowSequenceStart, KFlowMappingStart, KBlockSequenceStart, KBlockMappingStart}"
    using r(2) by (auto simp: ends_node_def)
  ultimately show "goes (yaml_parser_parse_node b i ps) (events_of (TreeScalar a tag [] (tag = []) (line_of pts))) (after_node ps rest)"
    using ps assms(2) r token_kinds(1) [OF r(2)]
    by (cases "yp_states ps") (auto simp: parse_content_def peek_token_def pop_state_def skip_token_def after_node_def goes_def)
qed

text \<open>A collection: its content is parsed in the state it is opened in.\<close>

lemma parses_opened:
  assumes "props ds a tag pts" "tk x \<in> {KBlockSequenceStart, KBlockMappingStart, KFlowSequenceStart, KFlowMappingStart}"
    and start: "\<And>ps l. yp_tokens ps \<noteq> [] \<Longrightarrow> hd (yp_tokens ps) = x \<Longrightarrow> parse_content b i l a tag ps = Ok (ev l, to_state st ps)"
    and run: "\<And>ps rest. yp_tokens ps = x # toks @ rest \<Longrightarrow> yp_states ps \<noteq> [] \<Longrightarrow> yp_tag_directives ps = ds \<Longrightarrow> yp_state ps = st \<Longrightarrow>
      goes (yaml_parser_state_machine ps) es (after_node ps rest)"
    and events: "ev (line_of (pts @ [x])) \<noteq> EStreamEnd" "events_of t = ev (line_of (pts @ [x])) # es"
  shows "parses_node ds b i t (pts @ x # toks)"
  unfolding parses_node_def
proof (intro allI impI)
  fix ps :: yparser and rest
  assume ps: "yp_tokens ps = (pts @ x # toks) @ rest" "yp_states ps \<noteq> []" "yp_tag_directives ps = ds" "follows i rest"
  let ?ps1 = "ps\<lparr>yp_tokens := x # toks @ rest, yp_state := st\<rparr>"
  have "yaml_parser_parse_node b i ps = parse_content b i (line_of (pts @ x # toks @ rest)) a tag (ps\<lparr>yp_tokens := x # toks @ rest\<rparr>)"
    by (rule props_parse) (use assms(1,2) ps token_kinds(2) in simp_all)
  moreover have "line_of (pts @ x # toks @ rest) = line_of (pts @ [x])" by (cases pts) (simp_all add: line_of_def)
  ultimately have node: "yaml_parser_parse_node b i ps = Ok (ev (line_of (pts @ [x])), ?ps1)"
    by (simp add: start to_state_def)
  have "goes (yaml_parser_state_machine ?ps1) es (after_node ps rest)"
    using run [of ?ps1 rest] ps by (simp add: after_node_def)
  then show "goes (yaml_parser_parse_node b i ps) (events_of t) (after_node ps rest)"
    by (simp add: node events goes_Ok)
qed

lemma parses_block_seq:
  assumes "props ds a tag pts" "tk x = KBlockSequenceStart" "tk u = KBlockEnd"
    and entries: "parses_collection ds (yaml_parser_parse_block_sequence_entry False) (concat (map events_of ts) @ [ESeqEnd]) toks KBlockEnd"
  shows "parses_node ds True i (TreeSeq a (line_of (pts @ [x])) ts) (pts @ x # toks @ [u])"
proof (rule parses_opened [OF assms(1), where st = BLOCK_SEQUENCE_FIRST_ENTRY])
  fix ps :: yparser and rest
  assume ps: "yp_tokens ps = x # (toks @ [u]) @ rest" "yp_states ps \<noteq> []" "yp_tag_directives ps = ds" "yp_state ps = BLOCK_SEQUENCE_FIRST_ENTRY"
  let ?ps1 = "ps\<lparr>yp_marks := tk_start x # yp_marks ps, yp_tokens := toks @ u # rest\<rparr>"
  have "yaml_parser_state_machine ps = yaml_parser_parse_block_sequence_entry False ?ps1"
    using ps by (simp add: yaml_parser_state_machine_def yaml_parser_parse_block_sequence_entry_def open_collection_def parser_updates)
  moreover have "goes (yaml_parser_parse_block_sequence_entry False ?ps1) (concat (map events_of ts) @ [ESeqEnd]) (after_collection ?ps1 rest)"
    using entries assms(3) ps by (simp add: parses_collection_def)
  ultimately show "goes (yaml_parser_state_machine ps) (concat (map events_of ts) @ [ESeqEnd]) (after_node ps rest)"
    by (simp add: after_collection_def after_node_def)
qed (use assms(2) in \<open>auto simp: parse_content_def peek_token_def neq_Nil_conv\<close>)

lemma parses_block_map:
  assumes "props ds a tag pts" "tk x = KBlockMappingStart" "tk u = KBlockEnd"
    and entries: "parses_collection ds (yaml_parser_parse_block_mapping_key False)
      (concat (map (\<lambda>(k, v). events_of k @ events_of v) kvs) @ [EMapEnd]) toks KBlockEnd"
  shows "parses_node ds True i (TreeMap a (line_of (pts @ [x])) kvs) (pts @ x # toks @ [u])"
proof (rule parses_opened [OF assms(1), where st = BLOCK_MAPPING_FIRST_KEY])
  fix ps :: yparser and rest
  assume ps: "yp_tokens ps = x # (toks @ [u]) @ rest" "yp_states ps \<noteq> []" "yp_tag_directives ps = ds" "yp_state ps = BLOCK_MAPPING_FIRST_KEY"
  let ?ps1 = "ps\<lparr>yp_marks := tk_start x # yp_marks ps, yp_tokens := toks @ u # rest\<rparr>"
  have "yaml_parser_state_machine ps = yaml_parser_parse_block_mapping_key False ?ps1"
    using ps by (simp add: yaml_parser_state_machine_def yaml_parser_parse_block_mapping_key_def open_collection_def parser_updates)
  moreover have "goes (yaml_parser_parse_block_mapping_key False ?ps1) (concat (map (\<lambda>(k, v). events_of k @ events_of v) kvs) @ [EMapEnd])
      (after_collection ?ps1 rest)"
    using entries assms(3) ps by (simp add: parses_collection_def)
  ultimately show "goes (yaml_parser_state_machine ps) (concat (map (\<lambda>(k, v). events_of k @ events_of v) kvs) @ [EMapEnd]) (after_node ps rest)"
    by (simp add: after_collection_def after_node_def)
qed (use assms(2) in \<open>auto simp: parse_content_def peek_token_def neq_Nil_conv\<close>)

text \<open>The entries of a collection, one after the other.\<close>

lemma node_then:
  assumes "parses_node ds b i t tt" "yp_tokens ps = tt @ rest" "yp_tag_directives ps = ds" "follows i rest"
    and next_step: "goes (yaml_parser_state_machine (ps\<lparr>yp_state := s, yp_tokens := rest\<rparr>)) es ps'"
  shows "goes (yaml_parser_parse_node b i (push_state s ps)) (events_of t @ es) ps'"
proof (rule goes_append)
  show "goes (yaml_parser_parse_node b i (push_state s ps)) (events_of t) (after_node (push_state s ps) rest)"
    using assms(1-4) by (simp add: parses_node_def push_state_def)
  have "after_node (push_state s ps) rest = ps\<lparr>yp_state := s, yp_tokens := rest\<rparr>" by (simp add: after_node_def push_state_def)
  then show "goes (yaml_parser_state_machine (after_node (push_state s ps) rest)) es ps'" using next_step by simp
qed

lemma empty_then: "goes (yaml_parser_state_machine (to_state s ps)) es ps' \<Longrightarrow>
    goes (yaml_parser_process_empty_scalar (to_state s ps) (tk_end x)) (events_of (null_node x) @ es) ps'"
  by (simp add: yaml_parser_process_empty_scalar_def null_node_def goes_Ok)

text \<open>An entry after its indicator \<open>x\<close>: a node, or nothing before a token that ends the entry.\<close>

lemma entry_then:
  assumes "parses_entry ds i x t tt" "yp_tokens ps = tt @ rest" "yp_tag_directives ps = ds" "follows i rest"
    and kinds: "tk (hd rest) \<in> K" "K \<subseteq> {k. ends_node k \<and> (i \<longrightarrow> k \<noteq> KBlockEntry)}"
    and next_step: "goes (yaml_parser_state_machine (ps\<lparr>yp_state := s, yp_tokens := rest\<rparr>)) es ps'"
  shows "goes (go_bind (peek_token ps) (\<lambda>token1. if tk token1 \<notin> K then yaml_parser_parse_node True i (push_state s ps)
      else yaml_parser_process_empty_scalar (to_state s ps) (tk_end x))) (events_of t @ es) ps'"
proof (cases "tt = []")
  case True
  have "ps\<lparr>yp_state := s, yp_tokens := rest\<rparr> = to_state s ps" using assms(2) True by (cases ps) (simp add: to_state_def)
  moreover have "rest \<noteq> []" using assms(4) by (simp add: follows_def)
  ultimately show ?thesis
    using assms(1,2) kinds(1) next_step empty_then [of s ps es ps' x] True
    by (auto simp: peek_token_def parses_entry_def neq_Nil_conv)
next
  case False
  then obtain c cs where tt: "tt = c # cs" by (cases tt) auto
  have "parses_node ds True i t tt" "tk c \<notin> K" using assms(1) kinds(2) tt by (auto simp: parses_entry_def)
  then show ?thesis using node_then [OF _ assms(2-4) next_step] assms(2) tt by (simp add: peek_token_def)
qed

lemma entries_nil: "parses_collection ds (yaml_parser_parse_block_sequence_entry False) [ESeqEnd] [] KBlockEnd"
  "parses_indentless ds [ESeqEnd] []" "parses_collection ds (yaml_parser_parse_block_mapping_key False) [EMapEnd] [] KBlockEnd"
  "parses_collection ds (yaml_parser_parse_flow_sequence_entry False) [ESeqEnd] [] KFlowSequenceEnd"
  "parses_collection ds (yaml_parser_parse_flow_mapping_key False) [EMapEnd] [] KFlowMappingEnd"
  by (auto simp: parses_collection_def parses_indentless_def parser_collections peek_token_def open_collection_def pop_state_def pop_mark_def
      skip_token_def after_collection_def after_node_def goes_def neq_Nil_conv follows_def)

lemma machine_at:
  "yp_state ps = BLOCK_SEQUENCE_ENTRY \<Longrightarrow> yaml_parser_state_machine ps = yaml_parser_parse_block_sequence_entry False ps"
  "yp_state ps = INDENTLESS_SEQUENCE_ENTRY \<Longrightarrow> yaml_parser_state_machine ps = yaml_parser_parse_indentless_sequence_entry ps"
  "yp_state ps = BLOCK_MAPPING_KEY \<Longrightarrow> yaml_parser_state_machine ps = yaml_parser_parse_block_mapping_key False ps"
  "yp_state ps = BLOCK_MAPPING_VALUE \<Longrightarrow> yaml_parser_state_machine ps = yaml_parser_parse_block_mapping_value ps"
  "yp_state ps = FLOW_SEQUENCE_FIRST_ENTRY \<Longrightarrow> yaml_parser_state_machine ps = yaml_parser_parse_flow_sequence_entry True ps"
  "yp_state ps = FLOW_SEQUENCE_ENTRY \<Longrightarrow> yaml_parser_state_machine ps = yaml_parser_parse_flow_sequence_entry False ps"
  "yp_state ps = FLOW_MAPPING_FIRST_KEY \<Longrightarrow> yaml_parser_state_machine ps = yaml_parser_parse_flow_mapping_key True ps"
  "yp_state ps = FLOW_MAPPING_KEY \<Longrightarrow> yaml_parser_state_machine ps = yaml_parser_parse_flow_mapping_key False ps"
  "yp_state ps = FLOW_MAPPING_VALUE \<Longrightarrow> yaml_parser_state_machine ps = yaml_parser_parse_flow_mapping_value False ps"
  by (simp_all add: yaml_parser_state_machine_def)

lemma resumes:
  assumes "parses_collection ds f es toks k" "tk u = k" "yp_states ps \<noteq> []" "yp_marks ps \<noteq> []" "yp_tag_directives ps = ds"
    "\<And>ps. yp_state ps = st \<Longrightarrow> yaml_parser_state_machine ps = f ps"
  shows "goes (yaml_parser_state_machine (ps\<lparr>yp_tokens := ts, yp_state := st, yp_tokens := toks @ u # rest\<rparr>)) es (after_collection ps rest)"
proof -
  have "goes (f (ps\<lparr>yp_state := st, yp_tokens := toks @ u # rest\<rparr>)) es (after_collection (ps\<lparr>yp_state := st, yp_tokens := toks @ u # rest\<rparr>) rest)"
    using assms(1-5) by (simp add: parses_collection_def)
  moreover have "after_collection (ps\<lparr>yp_state := st, yp_tokens := toks @ u # rest\<rparr>) rest = after_collection ps rest"
    by (simp add: after_collection_def after_node_def)
  ultimately show ?thesis using assms(6) by simp
qed

lemma resumes_indentless:
  assumes "parses_indentless ds es toks" "yp_states ps \<noteq> []" "yp_tag_directives ps = ds" "follows True rest"
  shows "goes (yaml_parser_state_machine (ps\<lparr>yp_tokens := ts, yp_state := INDENTLESS_SEQUENCE_ENTRY, yp_tokens := toks @ rest\<rparr>)) es
    (after_node ps rest)"
proof -
  let ?ps1 = "ps\<lparr>yp_state := INDENTLESS_SEQUENCE_ENTRY, yp_tokens := toks @ rest\<rparr>"
  have "goes (yaml_parser_parse_indentless_sequence_entry ?ps1) es (after_node ?ps1 rest)"
    using assms by (simp add: parses_indentless_def)
  moreover have "after_node ?ps1 rest = after_node ps rest" by (simp add: after_node_def)
  ultimately show ?thesis by (simp add: machine_at)
qed

lemma sequence_entry_cons:
  assumes "tk x = KBlockEntry" "parses_entry ds False x t tt" "toks = [] \<or> tk (hd toks) = KBlockEntry"
    "parses_collection ds (yaml_parser_parse_block_sequence_entry False) es toks KBlockEnd"
  shows "parses_collection ds (yaml_parser_parse_block_sequence_entry False) (events_of t @ es) (x # tt @ toks) KBlockEnd"
  unfolding parses_collection_def
proof (intro allI impI)
  fix ps :: yparser and u rest
  assume ps: "yp_tokens ps = (x # tt @ toks) @ u # rest" "tk u = KBlockEnd" "yp_states ps \<noteq> []" "yp_marks ps \<noteq> []" "yp_tag_directives ps = ds"
  have kind: "tk (hd (toks @ u # rest)) \<in> {KBlockEntry, KBlockEnd}" using assms(3) ps(2) by (cases toks) auto
  then have fol: "follows False (toks @ u # rest)" by (auto simp: follows_def ends_node_def)
  show "goes (yaml_parser_parse_block_sequence_entry False ps) (events_of t @ es) (after_collection ps rest)"
    using entry_then [OF assms(2) _ _ fol kind _ resumes [OF assms(4) ps(2-5) machine_at(1)], of "tt @ toks @ u # rest" BLOCK_SEQUENCE_ENTRY] assms(1) ps
    by (simp add: yaml_parser_parse_block_sequence_entry_def open_collection_def peek_token_def skip_token_def Let_def ends_node_def)
qed

lemma indentless_entry_cons:
  assumes "tk x = KBlockEntry" "parses_entry ds False x t tt" "toks = [] \<or> tk (hd toks) = KBlockEntry" "parses_indentless ds es toks"
  shows "parses_indentless ds (events_of t @ es) (x # tt @ toks)"
  unfolding parses_indentless_def
proof (intro allI impI)
  fix ps :: yparser and rest
  assume ps: "yp_tokens ps = (x # tt @ toks) @ rest" "yp_states ps \<noteq> []" "yp_tag_directives ps = ds" "follows True rest"
  have kind: "tk (hd (toks @ rest)) \<in> {KBlockEntry, KKey, KValue, KBlockEnd}" "toks @ rest \<noteq> []"
    using assms(3) ps(4) by (cases toks; auto simp: follows_def)+
  then have fol: "follows False (toks @ rest)" by (auto simp: follows_def ends_node_def)
  show "goes (yaml_parser_parse_indentless_sequence_entry ps) (events_of t @ es) (after_node ps rest)"
    using entry_then [OF assms(2) _ _ fol kind(1) _ resumes_indentless [OF assms(4) ps(2-4)], of "tt @ toks @ rest"] assms(1) ps
    by (simp add: yaml_parser_parse_indentless_sequence_entry_def peek_token_def skip_token_def Let_def ends_node_def)
qed

lemma mapping_entry_cons:
  assumes "tk y = KKey" "parses_entry ds True y k kt" "tk z = KValue" "parses_entry ds True z v vt" "toks = [] \<or> tk (hd toks) = KKey"
    "parses_collection ds (yaml_parser_parse_block_mapping_key False) es toks KBlockEnd"
  shows "parses_collection ds (yaml_parser_parse_block_mapping_key False) (events_of k @ events_of v @ es) (y # kt @ z # vt @ toks) KBlockEnd"
  unfolding parses_collection_def
proof (intro allI impI)
  fix ps :: yparser and u rest
  assume ps: "yp_tokens ps = (y # kt @ z # vt @ toks) @ u # rest" "tk u = KBlockEnd" "yp_states ps \<noteq> []" "yp_marks ps \<noteq> []" "yp_tag_directives ps = ds"
  have kind: "tk (hd (toks @ u # rest)) \<in> {KKey, KValue, KBlockEnd}" using assms(5) ps(2) by (cases toks) auto
  then have fol: "follows True (toks @ u # rest)" by (auto simp: follows_def ends_node_def)
  let ?ps1 = "ps\<lparr>yp_tokens := kt @ z # vt @ toks @ u # rest, yp_state := BLOCK_MAPPING_VALUE, yp_tokens := z # vt @ toks @ u # rest\<rparr>"
  have val: "goes (yaml_parser_state_machine ?ps1) (events_of v @ es) (after_collection ps rest)"
  proof -
    have "after_collection ?ps1 rest = after_collection ps rest" by (simp add: after_collection_def after_node_def)
    then show ?thesis
      using entry_then [OF assms(4) _ _ fol kind _ resumes [OF assms(6) ps(2), where ps = ?ps1 and st = BLOCK_MAPPING_KEY and ts = "vt @ toks @ u # rest" and rest = rest]] assms(3) ps
      by (simp add: machine_at yaml_parser_parse_block_mapping_value_def peek_token_def skip_token_def Let_def ends_node_def cong: if_cong)
  qed
  have "follows True (z # vt @ toks @ u # rest)" using assms(3) by (simp add: follows_def ends_node_def)
  from entry_then [OF assms(2) _ _ this _ _ val, where K = "{KKey, KValue, KBlockEnd}"] assms(1,3) ps
  show "goes (yaml_parser_parse_block_mapping_key False ps) (events_of k @ events_of v @ es) (after_collection ps rest)"
    by (simp add: yaml_parser_parse_block_mapping_key_def open_collection_def peek_token_def skip_token_def Let_def ends_node_def)
qed

text \<open>Flow collections.\<close>

lemma flow_sequence_cons:
  assumes "tk x = KFlowEntry" "parses_node ds False False t tt" "tt \<noteq> []" "\<not> ends_node (tk (hd tt))" "toks = [] \<or> tk (hd toks) = KFlowEntry"
    "parses_collection ds (yaml_parser_parse_flow_sequence_entry False) es toks KFlowSequenceEnd"
  shows "parses_collection ds (yaml_parser_parse_flow_sequence_entry False) (events_of t @ es) (x # tt @ toks) KFlowSequenceEnd"
  unfolding parses_collection_def
proof (intro allI impI)
  fix ps :: yparser and u rest
  assume ps: "yp_tokens ps = (x # tt @ toks) @ u # rest" "tk u = KFlowSequenceEnd" "yp_states ps \<noteq> []" "yp_marks ps \<noteq> []" "yp_tag_directives ps = ds"
  have fol: "follows False (toks @ u # rest)" using assms(5) ps(2) by (cases toks) (auto simp: follows_def ends_node_def)
  obtain c cs where tt: "tt = c # cs" using assms(3) by (cases tt) auto
  show "goes (yaml_parser_parse_flow_sequence_entry False ps) (events_of t @ es) (after_collection ps rest)"
    using node_then [OF assms(2) _ _ fol resumes [OF assms(6) ps(2-5) machine_at(6)], of "tt @ toks @ u # rest" FLOW_SEQUENCE_ENTRY] assms(1,4) ps tt
    by (simp add: yaml_parser_parse_flow_sequence_entry_def flow_separator_def open_collection_def peek_token_def skip_token_def ends_node_def)
qed

lemma flow_comma:
  assumes "tk x = KFlowEntry"
  shows "parses_collection ds (yaml_parser_parse_flow_sequence_entry False) [ESeqEnd] [x] KFlowSequenceEnd"
    "parses_collection ds (yaml_parser_parse_flow_mapping_key False) [EMapEnd] [x] KFlowMappingEnd"
  using assms
  by (auto simp: parses_collection_def parser_collections flow_separator_def peek_token_def open_collection_def pop_state_def pop_mark_def
      skip_token_def after_collection_def after_node_def goes_def neq_Nil_conv)

lemma parses_flow_seq:
  assumes "props ds a tag pts" "tk x = KFlowSequenceStart" "parses_node ds False False t tt" "tt \<noteq> []" "\<not> ends_node (tk (hd tt))"
    "toks = [] \<or> tk (hd toks) = KFlowEntry" "tk u = KFlowSequenceEnd"
    and more: "parses_collection ds (yaml_parser_parse_flow_sequence_entry False) (concat (map events_of ts) @ [ESeqEnd]) toks KFlowSequenceEnd"
  shows "parses_node ds b i (TreeSeq a (line_of (pts @ [x])) (t # ts)) (pts @ x # tt @ toks @ [u])"
proof (rule parses_opened [OF assms(1), where st = FLOW_SEQUENCE_FIRST_ENTRY])
  fix ps :: yparser and rest
  assume ps: "yp_tokens ps = x # (tt @ toks @ [u]) @ rest" "yp_states ps \<noteq> []" "yp_tag_directives ps = ds" "yp_state ps = FLOW_SEQUENCE_FIRST_ENTRY"
  have fol: "follows False (toks @ u # rest)" using assms(6,7) by (cases toks) (auto simp: follows_def ends_node_def)
  obtain c cs where tt: "tt = c # cs" using assms(4) by (cases tt) auto
  let ?ps1 = "ps\<lparr>yp_marks := tk_start x # yp_marks ps\<rparr>"
  have "after_collection ?ps1 rest = after_node ps rest" by (simp add: after_collection_def after_node_def)
  then show "goes (yaml_parser_state_machine ps) (events_of t @ concat (map events_of ts) @ [ESeqEnd]) (after_node ps rest)"
    using node_then [OF assms(3) _ _ fol resumes [OF more assms(7), where ps = ?ps1 and ts = "tt @ toks @ u # rest" and st = FLOW_SEQUENCE_ENTRY]]
      assms(5) ps tt
    by (simp add: machine_at yaml_parser_parse_flow_sequence_entry_def flow_separator_def open_collection_def peek_token_def push_mark_def skip_token_def
        ends_node_def)
qed (use assms(2) in \<open>auto simp: parse_content_def peek_token_def neq_Nil_conv\<close>)

text \<open>A key and its value in a flow mapping, from the \<open>KEY\<close> token on.\<close>

lemma flow_pair_then:
  assumes "parses_node ds False False k kt" "kt \<noteq> []" "\<not> ends_node (tk (hd kt))" "tk z = KValue"
    "parses_node ds False False v vt" "vt \<noteq> []" "\<not> ends_node (tk (hd vt))" "follows False rest" "yp_tag_directives ps = ds"
    "yp_tokens ps = kt @ z # vt @ rest"
    and next_step: "goes (yaml_parser_state_machine (ps\<lparr>yp_state := FLOW_MAPPING_KEY, yp_tokens := rest\<rparr>)) es ps'"
  shows "goes (yaml_parser_parse_node False False (push_state FLOW_MAPPING_VALUE ps)) (events_of k @ events_of v @ es) ps'"
proof (rule node_then [OF assms(1,10,9)])
  show "follows False (z # vt @ rest)" using assms(4) by (simp add: follows_def ends_node_def)
  obtain c cs where vt: "vt = c # cs" using assms(6) by (cases vt) auto
  let ?ps1 = "ps\<lparr>yp_state := FLOW_MAPPING_VALUE, yp_tokens := vt @ rest\<rparr>"
  have "goes (yaml_parser_parse_node False False (push_state FLOW_MAPPING_KEY ?ps1)) (events_of v @ es) ps'"
    by (rule node_then [OF assms(5) _ _ assms(8)]) (use next_step assms(9) in simp_all)
  then show "goes (yaml_parser_state_machine (ps\<lparr>yp_state := FLOW_MAPPING_VALUE, yp_tokens := z # vt @ rest\<rparr>)) (events_of v @ es) ps'"
    using assms(4,7) vt by (simp add: machine_at yaml_parser_parse_flow_mapping_value_def peek_token_def skip_token_def ends_node_def)
qed

lemma flow_mapping_cons:
  assumes "tk x = KFlowEntry" "tk y = KKey" "parses_node ds False False k kt" "kt \<noteq> []" "\<not> ends_node (tk (hd kt))" "tk z = KValue"
    "parses_node ds False False v vt" "vt \<noteq> []" "\<not> ends_node (tk (hd vt))" "toks = [] \<or> tk (hd toks) = KFlowEntry"
    "parses_collection ds (yaml_parser_parse_flow_mapping_key False) es toks KFlowMappingEnd"
  shows "parses_collection ds (yaml_parser_parse_flow_mapping_key False) (events_of k @ events_of v @ es) (x # y # kt @ z # vt @ toks) KFlowMappingEnd"
  unfolding parses_collection_def
proof (intro allI impI)
  fix ps :: yparser and u rest
  assume ps: "yp_tokens ps = (x # y # kt @ z # vt @ toks) @ u # rest" "tk u = KFlowMappingEnd" "yp_states ps \<noteq> []" "yp_marks ps \<noteq> []" "yp_tag_directives ps = ds"
  have fol: "follows False (toks @ u # rest)" using assms(10) ps(2) by (cases toks) (auto simp: follows_def ends_node_def)
  obtain c cs where kt: "kt = c # cs" using assms(4) by (cases kt) auto
  show "goes (yaml_parser_parse_flow_mapping_key False ps) (events_of k @ events_of v @ es) (after_collection ps rest)"
    using flow_pair_then [OF assms(3-9) fol _ _ resumes [OF assms(11) ps(2-5) machine_at(8)], of "kt @ z # vt @ toks @ u # rest"] assms(1,2,5) ps kt
    by (simp add: yaml_parser_parse_flow_mapping_key_def flow_separator_def open_collection_def peek_token_def skip_token_def ends_node_def)
qed

lemma parses_flow_map:
  assumes "props ds a tag pts" "tk x = KFlowMappingStart" "tk y = KKey"
    and pair: "parses_node ds False False k kt" "kt \<noteq> []" "\<not> ends_node (tk (hd kt))" "tk z = KValue"
      "parses_node ds False False v vt" "vt \<noteq> []" "\<not> ends_node (tk (hd vt))"
    and toks: "toks = [] \<or> tk (hd toks) = KFlowEntry" "tk u = KFlowMappingEnd"
      "parses_collection ds (yaml_parser_parse_flow_mapping_key False) (concat (map (\<lambda>(k, v). events_of k @ events_of v) kvs) @ [EMapEnd]) toks KFlowMappingEnd"
  shows "parses_node ds b i (TreeMap a (line_of (pts @ [x])) ((k, v) # kvs)) (pts @ x # y # kt @ z # vt @ toks @ [u])"
proof (rule parses_opened [OF assms(1), where st = FLOW_MAPPING_FIRST_KEY])
  fix ps :: yparser and rest
  assume ps: "yp_tokens ps = x # (y # kt @ z # vt @ toks @ [u]) @ rest" "yp_states ps \<noteq> []" "yp_tag_directives ps = ds" "yp_state ps = FLOW_MAPPING_FIRST_KEY"
  have fol: "follows False (toks @ u # rest)" using toks by (cases toks) (auto simp: follows_def ends_node_def)
  obtain c cs where kt: "kt = c # cs" using pair(2) by (cases kt) auto
  let ?ps1 = "ps\<lparr>yp_marks := tk_start x # yp_marks ps\<rparr>"
  have "after_collection ?ps1 rest = after_node ps rest" by (simp add: after_collection_def after_node_def)
  then show "goes (yaml_parser_state_machine ps) (events_of k @ events_of v @ concat (map (\<lambda>(k, v). events_of k @ events_of v) kvs) @ [EMapEnd]) (after_node ps rest)"
    using flow_pair_then [OF pair fol _ _ resumes [OF toks(3,2), where ps = ?ps1 and ts = "kt @ z # vt @ toks @ u # rest" and st = FLOW_MAPPING_KEY]]
      assms(3) pair(3) ps kt
    by (simp add: machine_at yaml_parser_parse_flow_mapping_key_def flow_separator_def open_collection_def peek_token_def push_mark_def skip_token_def
        ends_node_def)
qed (use assms(2) in \<open>auto simp: parse_content_def peek_token_def neq_Nil_conv\<close>)

lemma parses_flow_empty:
  "props ds a tag pts \<Longrightarrow> tk x = KFlowSequenceStart \<Longrightarrow> tk u = KFlowSequenceEnd \<Longrightarrow>
    parses_node ds b i (TreeSeq a (line_of (pts @ [x])) []) (pts @ [x, u])"
  "props ds a tag pts \<Longrightarrow> tk x = KFlowMappingStart \<Longrightarrow> tk u = KFlowMappingEnd \<Longrightarrow>
    parses_node ds b i (TreeMap a (line_of (pts @ [x])) []) (pts @ [x, u])"
  by (rule parses_opened [where st = FLOW_SEQUENCE_FIRST_ENTRY and toks = "[u]"] parses_opened [where st = FLOW_MAPPING_FIRST_KEY and toks = "[u]"];
     auto simp: parse_content_def peek_token_def neq_Nil_conv machine_at parser_collections open_collection_def pop_state_def pop_mark_def
       parser_updates after_node_def goes_def)+

lemma parses_indentless_seq:
  assumes "props ds a tag pts" "parses_indentless ds (concat (map events_of ts) @ [ESeqEnd]) toks" "toks \<noteq> []" "tk (hd toks) = KBlockEntry"
  shows "parses_node ds b True (TreeSeq a (line_of (pts @ toks)) ts) (pts @ toks)"
  unfolding parses_node_def
proof (intro allI impI)
  fix ps :: yparser and rest
  assume ps: "yp_tokens ps = (pts @ toks) @ rest" "yp_states ps \<noteq> []" "yp_tag_directives ps = ds" "follows True rest"
  have "yaml_parser_parse_node b True ps = parse_content b True (line_of (pts @ toks @ rest)) a tag (ps\<lparr>yp_tokens := toks @ rest\<rparr>)"
    by (rule props_parse) (use assms ps in simp_all)
  moreover have "line_of (pts @ toks @ rest) = line_of (pts @ toks)" using assms(3) by (cases pts) (simp_all add: line_of_def)
  ultimately have "yaml_parser_parse_node b True ps =
      Ok (ESeqStart a (line_of (pts @ toks)), ps\<lparr>yp_tokens := toks @ rest, yp_state := INDENTLESS_SEQUENCE_ENTRY, yp_tokens := toks @ rest\<rparr>)"
    using assms(3,4) by (cases toks) (simp_all add: parse_content_def peek_token_def to_state_def)
  then show "goes (yaml_parser_parse_node b True ps) (events_of (TreeSeq a (line_of (pts @ toks)) ts)) (after_node ps rest)"
    using goes_Ok [OF _ resumes_indentless [OF assms(2) ps(2-4)], of "ESeqStart a (line_of (pts @ toks))" "toks @ rest"] by simp
qed

text \<open>The machine parses what the grammar renders.\<close>

abbreviation pair_events :: "(ytree \<times> ytree) list \<Rightarrow> yevent list" where
  "pair_events kvs \<equiv> concat (map (\<lambda>(k, v). events_of k @ events_of v) kvs)"

lemma start_kinds: "\<not> ends_node (KAlias n)" "\<not> ends_node (KScalar s pl)" "\<not> ends_node KBlockSequenceStart" "\<not> ends_node KBlockMappingStart"
  "\<not> ends_node KFlowSequenceStart" "\<not> ends_node KFlowMappingStart"
  by (simp_all add: ends_node_def)

lemma props_start: "props ds a tag pts \<Longrightarrow> \<not> ends_node (tk x) \<Longrightarrow> \<not> ends_node (tk (hd (pts @ x # toks)))"
  using props_first [of ds a tag pts] by (cases pts) auto

lemma renders_parses:
  "renders ds b i t toks \<Longrightarrow> toks \<noteq> [] \<and> (ends_node (tk (hd toks)) \<longrightarrow> i \<and> tk (hd toks) = KBlockEntry) \<and> parses_node ds b i t toks"
  "block_entries ds ts toks \<Longrightarrow> (toks = [] \<or> tk (hd toks) = KBlockEntry) \<and> (ts \<noteq> [] \<longrightarrow> toks \<noteq> []) \<and>
     parses_collection ds (yaml_parser_parse_block_sequence_entry False) (concat (map events_of ts) @ [ESeqEnd]) toks KBlockEnd \<and>
     parses_indentless ds (concat (map events_of ts) @ [ESeqEnd]) toks"
  "block_node ds i x t toks \<Longrightarrow> parses_entry ds i x t toks"
  "block_pairs ds kvs toks \<Longrightarrow> (toks = [] \<or> tk (hd toks) = KKey) \<and>
     parses_collection ds (yaml_parser_parse_block_mapping_key False) (pair_events kvs @ [EMapEnd]) toks KBlockEnd"
  "flow_more ds ts toks \<Longrightarrow> (toks = [] \<or> tk (hd toks) = KFlowEntry) \<and>
     parses_collection ds (yaml_parser_parse_flow_sequence_entry False) (concat (map events_of ts) @ [ESeqEnd]) toks KFlowSequenceEnd"
  "flow_more_pairs ds kvs toks \<Longrightarrow> (toks = [] \<or> tk (hd toks) = KFlowEntry) \<and>
     parses_collection ds (yaml_parser_parse_flow_mapping_key False) (pair_events kvs @ [EMapEnd]) toks KFlowMappingEnd"
proof (induction rule: renders_block_entries_block_node_block_pairs_flow_more_flow_more_pairs.inducts)
  case (r_alias x name b i)
  then show ?case by (simp add: parses_alias start_kinds)
next
  case (r_scalar a tag pts x s plain b i)
  then show ?case using props_start [OF r_scalar(1), of x "[]"] parses_scalar [OF r_scalar] by (simp add: start_kinds)
next
  case (r_empty a tag pts b i)
  then have "pts \<noteq> []" by (auto elim: props.cases)
  then show ?case using props_first [OF r_empty(1)] parses_empty [OF r_empty] by simp
next
  case (r_block_seq a tag pts x ts toks u i)
  then show ?case using props_start [OF r_block_seq(1), of x "toks @ [u]"] by (simp add: start_kinds parses_block_seq)
next
  case (r_indentless a tag pts ts toks b)
  then have "ends_node (tk (hd (pts @ toks))) \<longrightarrow> tk (hd (pts @ toks)) = KBlockEntry"
    using props_first [OF r_indentless(1)] by (cases pts) auto
  then show ?case using r_indentless parses_indentless_seq [OF r_indentless(1), of ts toks b] by auto
next
  case (r_block_map a tag pts x ps toks u i)
  then show ?case using props_start [OF r_block_map(1), of x "toks @ [u]"] by (simp add: start_kinds parses_block_map)
next
  case (r_flow_seq0 a tag pts x u b i)
  then show ?case using props_start [OF r_flow_seq0(1), of x "[u]"] by (simp add: start_kinds parses_flow_empty)
next
  case (r_flow_seq a tag pts x t tt ts toks u b i)
  then show ?case using props_start [OF r_flow_seq(1), of x "tt @ toks @ [u]"] by (simp add: start_kinds parses_flow_seq)
next
  case (r_flow_map0 a tag pts x u b i)
  then show ?case using props_start [OF r_flow_map0(1), of x "[u]"] by (simp add: start_kinds parses_flow_empty)
next
  case (r_flow_map a tag pts x y k kt z v vt ps toks u b i)
  then show ?case using props_start [OF r_flow_map(1), of x "y # kt @ z # vt @ toks @ [u]"] by (simp add: start_kinds parses_flow_map)
next
  case (n_null i x)
  then show ?case by (simp add: parses_entry_def)
next
  case (n_node i t toks x)
  then show ?case by (simp add: parses_entry_def)
next
  case (e_cons x t tt ts toks)
  then show ?case by (simp add: sequence_entry_cons indentless_entry_cons)
next
  case (p_cons y k kt z v vt ps toks)
  then show ?case by (simp add: mapping_entry_cons)
next
  case (f_cons x t tt ts toks)
  then show ?case by (simp add: flow_sequence_cons)
next
  case (fp_cons x y k kt z v vt ps toks)
  then show ?case by (simp add: flow_mapping_cons)
qed (simp_all add: entries_nil flow_comma)

text \<open>The tokens of a stream with one document, which may have its start and its end marked.\<close>

inductive stream_tokens :: "ytree \<Rightarrow> ytoken list \<Rightarrow> bool" where
  "tk x = KStreamStart \<Longrightarrow> dstart = [] \<or> (\<exists>m. dstart = [m] \<and> tk m = KDocumentStart) \<Longrightarrow> renders default_tag_directives True False t toks \<Longrightarrow>
   dend = [] \<or> (\<exists>m. dend = [m] \<and> tk m = KDocumentEnd) \<Longrightarrow> tk z = KStreamEnd \<Longrightarrow> stream_tokens t (x # dstart @ toks @ dend @ [z])"

lemma parser_events_runs:
  "runs ps es ps' \<Longrightarrow> parser_events ps' = Ok (fs, p) \<Longrightarrow> parser_events ps = Ok (es @ fs, p)"
  by (induction es arbitrary: ps) (auto simp: parser_events.simps)

lemma default_directives: "\<not> is_directive (tk x) \<Longrightarrow>
    directives_loop p False [] (x # ts) = Ok (default_tag_directives, x # ts)"
  by (cases "tk x") (simp_all add: default_tag_directives_def yaml_parser_append_tag_directive_def)

lemma document_end_runs:
  assumes "dend = [] \<or> (\<exists>m. dend = [m] \<and> tk m = KDocumentEnd)" "tk z = KStreamEnd" "yp_state ps = DOCUMENT_END" "yp_tokens ps = dend @ [z]"
  shows "parser_events ps = Ok ([EDocEnd, EStreamEnd], yp_problem ps)"
proof -
  let ?ps1 = "ps\<lparr>yp_tokens := [z], yp_tag_directives := [], yp_state := DOCUMENT_START\<rparr>"
  have "ps\<lparr>yp_tokens := yp_tokens ps\<rparr> = ps" by simp
  then have "yaml_parser_state_machine ps = Ok (EDocEnd, ?ps1)"
    using assms by (auto simp: yaml_parser_state_machine_def yaml_parser_parse_document_end_def peek_token_def parser_updates same_tokens)
  moreover have "yaml_parser_state_machine ?ps1 = Ok (EStreamEnd, skip_token (to_state END_STATE ?ps1))"
    using assms(2) by (simp add: yaml_parser_state_machine_def yaml_parser_parse_document_start_def peek_token_def parser_updates)
  ultimately show ?thesis by (simp add: parser_events.simps parser_updates)
qed

lemma document_runs:
  assumes "stream_tokens t ts"
  shows "parser_events (yaml_parser_initialize (ts, p)) = Ok (EStreamStart # document_events t, p)"
  using assms
proof cases
  case (1 x dstart toks dend z)
  note first = renders_parses(1) [OF 1(4)]
  let ?rest = "dend @ [z]"
  let ?ps0 = "yaml_parser_initialize (ts, p)"
  let ?ps1 = "?ps0\<lparr>yp_state := IMPLICIT_DOCUMENT_START, yp_tokens := dstart @ toks @ ?rest\<rparr>"
  let ?ps2 = "\<lparr>yp_state = if dstart = [] then BLOCK_NODE else DOCUMENT_CONTENT, yp_states = [DOCUMENT_END], yp_marks = [], yp_tokens = toks @ ?rest,
      yp_problem = p, yp_tag_directives = default_tag_directives\<rparr>"
  obtain c cs where toks: "toks = c # cs" "\<not> ends_node (tk c)" using first by (cases toks) auto
  have fol: "follows False ?rest" using 1(5,6) by (auto simp: follows_def ends_node_def)
  have s0: "yaml_parser_state_machine ?ps0 = Ok (EStreamStart, ?ps1)"
    using 1 by (simp add: yaml_parser_initialize_def yaml_parser_state_machine_def yaml_parser_parse_stream_start_def peek_token_def parser_updates)
  have s1: "yaml_parser_state_machine ?ps1 = Ok (EDocStart, ?ps2)"
    using 1(3) toks
    by (auto simp del: directives_loop.simps simp: yaml_parser_initialize_def yaml_parser_state_machine_def yaml_parser_parse_document_start_def
        peek_token_def parser_updates yaml_parser_process_directives_def default_directives ends_node_def)
  have "yaml_parser_state_machine ?ps2 = yaml_parser_parse_node True False ?ps2"
    using toks by (auto simp: yaml_parser_state_machine_def yaml_parser_parse_document_content_def peek_token_def ends_node_def)
  moreover have "goes (yaml_parser_parse_node True False ?ps2) (events_of t) (after_node ?ps2 ?rest)"
    using first fol by (simp add: parses_node_def)
  ultimately have s2: "runs ?ps2 (events_of t) (after_node ?ps2 ?rest)" by (simp add: goes_runs)
  have "parser_events (after_node ?ps2 ?rest) = Ok ([EDocEnd, EStreamEnd], p)"
    using document_end_runs [OF 1(5,6), of "after_node ?ps2 ?rest"] by (simp add: after_node_def)
  from parser_events_runs [OF s2 this] s0 s1 show ?thesis
    by (simp add: parser_events.simps [of ?ps0] parser_events.simps [of ?ps1] document_events_def)
qed


text \<open>The document \<open>"ports":\<close> with the entry \<open>- "80"\<close> on the next line.\<close>

definition ports_tree :: ytree where
  "ports_tree = TreeMap None 0 [(quoted None ''ports'', TreeSeq None 0 [quoted None ''80''])]"

definition ports_tokens :: "ytoken list" where
  "ports_tokens = map plain_token [KStreamStart, KBlockMappingStart, KKey, KScalar ''ports'' False, KValue,
     KBlockEntry, KScalar ''80'' False, KBlockEnd, KStreamEnd]"

lemma renders_quoted: "renders ds b i (quoted None s) [plain_token (KScalar s False)]"
  using r_scalar [OF no_props, of "plain_token (KScalar s False)" s False ds b i] by (simp add: plain_token_def quoted_def line_of_def)

lemma ports_stream: "stream_tokens ports_tree ports_tokens"
proof -
  let ?t = plain_token
  have items: "block_entries ds [quoted None ''80''] [?t KBlockEntry, ?t (KScalar ''80'' False)]" for ds
    using e_cons [OF _ n_node [OF renders_quoted] e_nil, of "?t KBlockEntry" ds "''80''"] by (simp add: plain_token_def)
  have seq: "renders ds True True (TreeSeq None 0 [quoted None ''80'']) [?t KBlockEntry, ?t (KScalar ''80'' False)]" for ds
    using r_indentless [OF no_props items, of ds True] by (simp add: line_of_def plain_token_def)
  have pairs: "block_pairs ds [(quoted None ''ports'', TreeSeq None 0 [quoted None ''80''])]
      [?t KKey, ?t (KScalar ''ports'' False), ?t KValue, ?t KBlockEntry, ?t (KScalar ''80'' False)]" for ds
    using p_cons [OF _ n_node [OF renders_quoted] _ n_node [OF seq] p_nil, of "?t KKey" "?t KValue" ds "''ports''"] by (simp add: plain_token_def)
  have "renders ds True False ports_tree (map ?t [KBlockMappingStart, KKey, KScalar ''ports'' False, KValue, KBlockEntry, KScalar ''80'' False, KBlockEnd])" for ds
    using r_block_map [OF no_props _ pairs, of "?t KBlockMappingStart" "?t KBlockEnd" ds False]
    by (simp add: line_of_def plain_token_def ports_tree_def)
  from stream_tokens.intros [of "?t KStreamStart" "[]", OF _ _ this, of "[]" "?t KStreamEnd"] show ?thesis
    by (simp add: ports_tokens_def plain_token_def)
qed


end
