(* ===== verification/Locks.thy ===== *)
theory Locks
  imports Go_Prelude
begin

text \<open>
  The application-wide keyed lock of \<open>go-machine-service/locks/locks.go\<close>.  A single goroutine,
  \<open>locker\<close>, owns the set of locked keys and answers the requests of a channel one after the
  other, so its state is a set and a request is one step.  The contract its clients rely on is the
  locale \<open>keyed_lock\<close>; what follows from the contract for any number of clients is proved there.
\<close>

section \<open>The contract of a keyed lock\<close>

text \<open>
  The clients' view: \<open>lock\<close> answers an unlocker or none, \<open>unlock\<close> takes an unlocker, and
  \<open>locked\<close> is the set of keys that are taken.
\<close>

locale keyed_lock =
  fixes lock :: "'k \<Rightarrow> 's \<Rightarrow> 'u option \<times> 's"
    and unlock :: "'u \<Rightarrow> 's \<Rightarrow> 's"
    and locked :: "'s \<Rightarrow> 'k set"
    and ukey :: "'u \<Rightarrow> 'k"
  assumes lock_taken: "k \<in> locked s \<Longrightarrow> lock k s = (None, s)"
    and lock_free: "k \<notin> locked s \<Longrightarrow>
      \<exists>u. fst (lock k s) = Some u \<and> ukey u = k \<and> locked (snd (lock k s)) = insert k (locked s)"
    and unlock_frees: "locked (unlock u s) = locked s - {ukey u}"
begin

text \<open>
  Clients that hold unlockers, as an association list from client to unlocker, agree with the lock
  when the held keys are exactly the locked ones and none is held twice.
\<close>

definition agrees :: "('c \<times> 'u) list \<Rightarrow> 's \<Rightarrow> bool" where
  "agrees hs s \<longleftrightarrow> distinct (map (ukey \<circ> snd) hs) \<and> set (map (ukey \<circ> snd) hs) = locked s"

lemma lock_Some:
  assumes "lock k s = (Some u, s')"
  shows "k \<notin> locked s" "ukey u = k" "locked s' = insert k (locked s)"
proof -
  show k: "k \<notin> locked s" using assms lock_taken by force
  from lock_free [OF k] assms show "ukey u = k" "locked s' = insert k (locked s)" by auto
qed

lemma lock_None: "lock k s = (None, s') \<Longrightarrow> k \<in> locked s \<and> s' = s"
  using lock_taken [of k s] lock_free [of k s] by (cases "k \<in> locked s") auto

lemma agrees_empty: "locked s = {} \<Longrightarrow> agrees [] s"
  by (simp add: agrees_def)

lemma agrees_lock: "agrees hs s \<Longrightarrow> lock k s = (Some u, s') \<Longrightarrow> agrees ((c, u) # hs) s'"
  using lock_Some [of k s u s'] by (auto simp: agrees_def)

lemma agrees_unlock:
  assumes "agrees hs s" "(c, u) \<in> set hs"
  shows "agrees (remove1 (c, u) hs) (unlock u s)"
proof -
  obtain as bs where hs: "hs = as @ (c, u) # bs" "(c, u) \<notin> set as"
    using assms(2) by (meson split_list_first)
  then show ?thesis
    using assms(1) unlock_frees [of u s] by (auto simp: agrees_def remove1_append)
qed

lemma agrees_exclusive:
  assumes "agrees hs s" "(c, u) \<in> set hs" "(c', u') \<in> set hs" "ukey u = ukey u'"
  shows "c = c' \<and> u = u'"
proof -
  have "inj_on (ukey \<circ> snd) (set hs)"
    using assms(1) by (simp add: agrees_def distinct_map)
  from inj_onD [OF this, of "(c, u)" "(c', u')"] assms(2-) show ?thesis by simp
qed

end

section \<open>The model of locks.go\<close>

datatype operation = LOCK | UNLOCK

record lockRequest =
  lr_key :: string
  lr_op :: operation

definition newLockRequest :: "string \<Rightarrow> operation \<Rightarrow> lockRequest" where
  "newLockRequest key op = \<lparr>lr_key = key, lr_op = op\<rparr>"

record unlockerImpl =
  un_key :: string

definition newUnlocker :: "string \<Rightarrow> unlockerImpl" where
  "newUnlocker key = \<lparr>un_key = key\<rparr>"

text \<open>
  One turn of the loop of \<open>locker\<close>.  The second component is what is sent on the request's response
  channel: nothing for an unlock, otherwise an unlocker or nil.
\<close>

definition locker_turn :: "string set \<Rightarrow> lockRequest \<Rightarrow> string set \<times> unlockerImpl option option" where
  "locker_turn lockedItems req = (case lr_op req of
     LOCK \<Rightarrow>
       if lr_key req \<in> lockedItems then (lockedItems, Some None)
       else (insert (lr_key req) lockedItems, Some (Some (newUnlocker (lr_key req))))
   | UNLOCK \<Rightarrow> (lockedItems - {lr_key req}, None))"

text \<open>The loop, over the requests in the order the channel delivers them.\<close>

fun locker :: "string set \<Rightarrow> lockRequest list \<Rightarrow> string set \<times> unlockerImpl option option list" where
  "locker lockedItems [] = (lockedItems, [])"
| "locker lockedItems (r # rs) =
     (let (items, resp) = locker_turn lockedItems r; (items', resps) = locker items rs
      in (items', resp # resps))"

definition Lock :: "string \<Rightarrow> string set \<Rightarrow> unlockerImpl option \<times> string set" where
  "Lock key items = (case locker_turn items (newLockRequest key LOCK) of
     (items', resp) \<Rightarrow> (case resp of None \<Rightarrow> None | Some u \<Rightarrow> u, items'))"

definition Unlock :: "unlockerImpl \<Rightarrow> string set \<Rightarrow> string set" where
  "Unlock u items = fst (locker_turn items (newLockRequest (un_key u) UNLOCK))"

lemma Lock_eq:
  "Lock key items =
     (if key \<in> items then (None, items) else (Some \<lparr>un_key = key\<rparr>, insert key items))"
  by (simp add: Lock_def locker_turn_def newLockRequest_def newUnlocker_def)

lemma Unlock_eq: "Unlock u items = items - {un_key u}"
  by (simp add: Unlock_def locker_turn_def newLockRequest_def)

interpretation lk: keyed_lock Lock Unlock "\<lambda>s. s" un_key
  by unfold_locales (auto simp: Lock_eq Unlock_eq)

section \<open>Any number of clients\<close>

text \<open>
  Clients (numbered) that lock keys and give back only the unlockers they hold, interleaved in any
  order.  The state is the locker's set and who holds which unlocker.
\<close>

record lockSys =
  sys_items :: "string set"
  sys_held :: "(nat \<times> unlockerImpl) list"

definition lock_init :: lockSys where
  "lock_init = \<lparr>sys_items = {}, sys_held = []\<rparr>"

inductive lock_step :: "lockSys \<Rightarrow> lockSys \<Rightarrow> bool" where
  acquire: "Lock k (sys_items s) = (Some u, items) \<Longrightarrow>
     lock_step s (s\<lparr>sys_items := items, sys_held := (c, u) # sys_held s\<rparr>)"
| refused: "Lock k (sys_items s) = (None, items) \<Longrightarrow> lock_step s (s\<lparr>sys_items := items\<rparr>)"
| release: "(c, u) \<in> set (sys_held s) \<Longrightarrow>
     lock_step s (s\<lparr>sys_items := Unlock u (sys_items s), sys_held := remove1 (c, u) (sys_held s)\<rparr>)"

inductive lock_reachable :: "lockSys \<Rightarrow> bool" where
  start: "lock_reachable lock_init"
| next_step: "lock_reachable s \<Longrightarrow> lock_step s t \<Longrightarrow> lock_reachable t"

lemma lock_step_agrees:
  "lock_step s t \<Longrightarrow> lk.agrees (sys_held s) (sys_items s) \<Longrightarrow> lk.agrees (sys_held t) (sys_items t)"
  by (induction rule: lock_step.induct) (auto intro: lk.agrees_lock lk.agrees_unlock dest: lk.lock_None)

lemma lock_reachable_agrees: "lock_reachable s \<Longrightarrow> lk.agrees (sys_held s) (sys_items s)"
  by (induction rule: lock_reachable.induct)
    (auto intro: lock_step_agrees lk.agrees_empty simp: lock_init_def)

text \<open>The abstract lock: who owns a key.\<close>

definition owners :: "lockSys \<Rightarrow> string \<rightharpoonup> nat" where
  "owners s = map_of (map (\<lambda>p. (un_key (snd p), fst p)) (sys_held s))"

inductive owner_step :: "(string \<rightharpoonup> nat) \<Rightarrow> (string \<rightharpoonup> nat) \<Rightarrow> bool" where
  own: "f k = None \<Longrightarrow> owner_step f (f(k \<mapsto> c))"
| stutter: "owner_step f f"
| disown: "f k = Some c \<Longrightarrow> owner_step f (f(k := None))"

text \<open>
  C9: the keyed lock gives mutual exclusion. However the clients' requests interleave, two
  unlockers held at the same time are never for the same key unless they are the same unlocker of
  the same client.
\<close>

theorem lock_mutual_exclusion:
  assumes "lock_reachable s" and "(c, u) \<in> set (sys_held s)" and "(c', u') \<in> set (sys_held s)"
    and "un_key u = un_key u'"
  shows "c = c' \<and> u = u'"
  using lk.agrees_exclusive [OF lock_reachable_agrees [OF assms(1)] assms(2-4)] .

theorem lock_mutual_exclusion_witness:
  "let u = \<lparr>un_key = ''1e1''\<rparr>; s = \<lparr>sys_items = {''1e1''}, sys_held = [(7::nat, u)]\<rparr>
   in lock_reachable s \<and> (7 = (7::nat) \<and> u = u)"
proof -
  define u :: unlockerImpl where "u = \<lparr>un_key = ''1e1''\<rparr>"
  define s where "s = lock_init\<lparr>sys_items := {''1e1''}, sys_held := [(7::nat, u)]\<rparr>"
  have "Lock ''1e1'' (sys_items lock_init) = (Some u, {''1e1''})"
    by (simp add: Lock_eq lock_init_def u_def)
  from lock_step.acquire [OF this, of 7] have "lock_step lock_init s"
    by (simp add: s_def lock_init_def)
  then have r: "lock_reachable s"
    by (rule lock_reachable.next_step [OF lock_reachable.start])
  have "(7, u) \<in> set (sys_held s)" by (simp add: s_def)
  from lock_mutual_exclusion [OF r this this refl] r show ?thesis
    by (simp add: s_def u_def lock_init_def)
qed

lemma owners_acquire: "owners (s\<lparr>sys_items := i, sys_held := (c, u) # sys_held s\<rparr>) = (owners s)(un_key u \<mapsto> c)"
  by (simp add: owners_def)

lemma owners_items: "owners (s\<lparr>sys_items := i\<rparr>) = owners s"
  by (simp add: owners_def)

lemma owners_dom: "dom (owners s) = set (map (un_key \<circ> snd) (sys_held s))"
  by (force simp: owners_def dom_map_of_conv_image_fst)

lemma owners_Some:
  assumes "lk.agrees (sys_held s) (sys_items s)"
  shows "owners s k = Some c \<longleftrightarrow> (\<exists>u. (c, u) \<in> set (sys_held s) \<and> un_key u = k)"
proof -
  have "distinct (map fst (map (\<lambda>p. (un_key (snd p), fst p)) (sys_held s)))"
    using assms by (simp add: lk.agrees_def comp_def)
  then show ?thesis
    unfolding owners_def by (subst map_of_eq_Some_iff) force+
qed

lemma owners_release:
  assumes a: "lk.agrees (sys_held s) (sys_items s)" and m: "(c, u) \<in> set (sys_held s)"
  shows "owners (s\<lparr>sys_items := Unlock u (sys_items s), sys_held := remove1 (c, u) (sys_held s)\<rparr>)
       = (owners s)(un_key u := None)"
proof
  let ?t = "s\<lparr>sys_items := Unlock u (sys_items s), sys_held := remove1 (c, u) (sys_held s)\<rparr>"
  have t: "lk.agrees (sys_held ?t) (sys_items ?t)"
    using lk.agrees_unlock [OF a m] by simp
  have d: "distinct (sys_held s)"
    using a by (auto simp: lk.agrees_def distinct_map)
  fix k
  have "owners ?t k = Some c' \<longleftrightarrow> ((owners s)(un_key u := None)) k = Some c'" for c'
    using owners_Some [OF t, of k c'] owners_Some [OF a, of k c'] d
      lk.agrees_exclusive [OF a m] by (cases "un_key u = k") (auto simp: set_remove1_eq)
  then show "owners ?t k = ((owners s)(un_key u := None)) k"
    by (metis option.exhaust)
qed



end
