(* ===== verification/Event_Router.thy ===== *)
theory Event_Router
  imports Locks Client "HOL-Library.Multiset"
begin

text \<open>
  The event router, \<open>go-machine-service/events\<close>: registration with the server (\<open>NewEventRouter\<close>,
  \<open>Start\<close>), and the worker pool that turns the messages of the event stream into handler calls
  (\<open>Start\<close>'s loop and \<open>DoWork\<close>), as a step relation over the keyed lock of \<open>Locks\<close>.
\<close>

section \<open>Events and replies\<close>

text \<open>An event, less its \<open>Data\<close> map, which no code reads.\<close>

record Event =
  evt_Name :: string
  evt_Id :: string
  evt_PreviousIds :: string
  evt_PreviousNames :: string
  evt_Publisher :: string
  evt_ReplyTo :: string
  evt_ResourceId :: string
  evt_ResourceType :: string
  evt_Transitioning :: string
  evt_TransitioningInternalMessage :: string
  evt_TransitioningMessage :: string
  evt_TransitioningProgress :: string

definition Event_of :: "string \<Rightarrow> string \<Rightarrow> string \<Rightarrow> string \<Rightarrow> Event" where
  "Event_of name i replyTo resourceId = \<lparr>evt_Name = name, evt_Id = i, evt_PreviousIds = [],
     evt_PreviousNames = [], evt_Publisher = [], evt_ReplyTo = replyTo, evt_ResourceId = resourceId,
     evt_ResourceType = [], evt_Transitioning = [], evt_TransitioningInternalMessage = [],
     evt_TransitioningMessage = [], evt_TransitioningProgress = []\<rparr>"

text \<open>The fields of \<open>client.Publish\<close> that the program sets.\<close>

record Publish =
  pb_Name :: string
  pb_PreviousIds :: "string list"
  pb_Transitioning :: string
  pb_TransitioningMessage :: string

record ProcessConfig =
  pcf_Name :: string
  pcf_OnError :: string

record ExternalHandler =
  eh_Id :: string
  eh_Name :: string
  eh_Uuid :: string
  eh_Priority :: int
  eh_ProcessConfigs :: "ProcessConfig list"
  eh_Transitioning :: string
  eh_Actions :: "string set"

text \<open>
  The calls of the generated API client that the router makes, and the dialling of the event stream (URL
  and \<open>Authorization\<close> header): parameters.
\<close>

record 'w router_api =
  ra_List :: "(string \<times> string) list \<Rightarrow> ('w, ExternalHandler list) act"
  ra_ById :: "string \<Rightarrow> ('w, ExternalHandler) act"
  ra_ActionDeactivate :: "ExternalHandler \<Rightarrow> ('w, ExternalHandler) act"
  ra_ActionRemove :: "ExternalHandler \<Rightarrow> ('w, ExternalHandler) act"
  ra_Create :: "ExternalHandler \<Rightarrow> ('w, ExternalHandler) act"
  ra_Dial :: "string \<Rightarrow> string \<Rightarrow> ('w, unit) act"

record EventRouter =
  er_name :: string
  er_priority :: int
  er_apiUrl :: string
  er_accessKey :: string
  er_secretKey :: string
  er_subscribeUrl :: string
  er_workerCount :: nat
  er_resourceName :: string

section \<open>Registration\<close>

text \<open>\<open>strings.Replace(s, "http", "ws", -1)\<close>.\<close>

function replace_http :: "string \<Rightarrow> string" where
  "replace_http s =
     (if has_prefix s ''http'' then ''ws'' @ replace_http (drop 4 s)
      else (case s of [] \<Rightarrow> [] | c # cs \<Rightarrow> c # replace_http cs))"
  by pat_completeness auto
termination
proof (relation "measure length")
  fix s assume "has_prefix s ''http''"
  then have "length s \<ge> 4" by (auto simp: has_prefix_def dest: arg_cong [of _ _ length])
  then show "(drop 4 s, s) \<in> measure length" by simp
qed auto

declare replace_http.simps [simp del]

text \<open>The API client is connected by the caller or by \<open>client.NewRancherClient\<close>; \<open>connect\<close> is its result.\<close>

definition NewEventRouter :: "string \<Rightarrow> int \<Rightarrow> string \<Rightarrow> string \<Rightarrow> string \<Rightarrow> 'c option \<Rightarrow> 'c go \<Rightarrow> string \<Rightarrow> nat \<Rightarrow>
    (EventRouter \<times> 'c) go" where
  "NewEventRouter name priority apiUrl accessKey secretKey apiClient connect resourceName workerCount =
     go_bind (case apiClient of Some c \<Rightarrow> Ok c | None \<Rightarrow> connect) (\<lambda>client.
       Ok (\<lparr>er_name = name, er_priority = priority, er_apiUrl = apiUrl, er_accessKey = accessKey,
            er_secretKey = secretKey, er_subscribeUrl = replace_http (apiUrl @ ''/subscribe''),
            er_workerCount = workerCount, er_resourceName = resourceName\<rparr>, client))"

text \<open>
  \<open>waitForTransition\<close> polls at every tick; \<open>n\<close> is the number of ticks before the first one that is after
  the timeout.
\<close>

fun waitForTransition :: "nat \<Rightarrow> ('w, bool) act \<Rightarrow> ('w, unit) act" where
  "waitForTransition 0 waitFunc =
     act_bind waitFunc (\<lambda>done. if done then act_return () else act_fail ''Timed out waiting for transtion.'')"
| "waitForTransition (Suc n) waitFunc =
     act_bind waitFunc (\<lambda>done. if done then act_return () else waitForTransition n waitFunc)"

definition doneTransitioning :: "'w router_api \<Rightarrow> ExternalHandler \<Rightarrow> ('w, bool) act" where
  "doneTransitioning api h = act_bind (ra_ById api (eh_Id h)) (\<lambda>h. act_return (eh_Transitioning h \<noteq> ''yes''))"

definition removeHandler :: "'w router_api \<Rightarrow> nat \<Rightarrow> ExternalHandler \<Rightarrow> ('w, unit) act" where
  "removeHandler api ticks h =
     act_bind
       (if ''deactivate'' \<in> eh_Actions h
        then act_bind (ra_ActionDeactivate api h) (\<lambda>h.
               act_bind (waitForTransition ticks (doneTransitioning api h)) (\<lambda>_. act_return h))
        else act_return h)
       (\<lambda>h. act_bind (ra_ById api (eh_Id h)) (\<lambda>h.
          if ''remove'' \<in> eh_Actions h
          then act_bind (ra_ActionRemove api h) (\<lambda>h. waitForTransition ticks (doneTransitioning api h))
          else act_return ()))"

definition removeOldHandler :: "'w router_api \<Rightarrow> nat \<Rightarrow> string \<Rightarrow> ('w, unit) act" where
  "removeOldHandler api ticks name =
     act_bind (ra_List api [(''name'', name), (''state'', ''active'')]) (act_each (removeHandler api ticks))"

definition createNewHandler :: "'w router_api \<Rightarrow> ExternalHandler \<Rightarrow> ('w, unit) act" where
  "createNewHandler api externalHandler = act_bind (ra_Create api externalHandler) (\<lambda>_. act_return ())"

text \<open>The event handlers are a Go map; the list gives its entries in the order of the iteration.\<close>

definition handlerSuffix :: "string \<Rightarrow> string" where
  "handlerSuffix name = '';handler='' @ name"

definition start_handlers :: "string \<Rightarrow> (string \<times> 'h) list \<Rightarrow> string \<rightharpoonup> 'h" where
  "start_handlers name eventHandlers =
     fold (\<lambda>(event, handler) m. m(event @ handlerSuffix name \<mapsto> handler)) eventHandlers
       (case map_of eventHandlers ''ping'' of Some h \<Rightarrow> [''ping'' \<mapsto> h] | None \<Rightarrow> Map.empty)"

definition start_eventNames :: "string \<Rightarrow> (string \<times> 'h) list \<Rightarrow> string list" where
  "start_eventNames name eventHandlers = map (\<lambda>(event, _). event @ handlerSuffix name) eventHandlers"

definition start_externalHandler :: "EventRouter \<Rightarrow> (string \<times> 'h) list \<Rightarrow> ExternalHandler" where
  "start_externalHandler router eventHandlers =
     \<lparr>eh_Id = [], eh_Name = er_name router, eh_Uuid = er_name router, eh_Priority = er_priority router,
      eh_ProcessConfigs = map (\<lambda>(event, _). \<lparr>pcf_Name = event, pcf_OnError = er_resourceName router @ ''.error''\<rparr>) eventHandlers,
      eh_Transitioning = [], eh_Actions = {}\<rparr>"

text \<open>\<open>url.Values.Encode\<close> of the one parameter, and basic authentication.\<close>

definition hex_digit :: "nat \<Rightarrow> char" where
  "hex_digit n = char_of (if n < 10 then 48 + n else 55 + n)"

definition query_escape_char :: "char \<Rightarrow> string" where
  "query_escape_char c =
     (if is_upper c \<or> is_lower c \<or> is_digit c \<or> c \<in> {CHR ''-'', CHR ''_'', CHR ''.'', CHR ''~''} then [c]
      else if c = CHR '' '' then ''+''
      else [CHR ''%'', hex_digit (of_char c div 16), hex_digit (of_char c mod 16)])"

definition query_encode :: "string \<Rightarrow> string list \<Rightarrow> string" where
  "query_encode key values =
     join ''&'' (map (\<lambda>v. concat (map query_escape_char key) @ ''='' @ concat (map query_escape_char v)) values)"

definition b64_char :: "nat \<Rightarrow> char" where
  "b64_char n = (if n < 26 then char_of (65 + n) else if n < 52 then char_of (71 + n)
     else if n < 62 then char_of (n - 4) else if n = 62 then CHR ''+'' else CHR ''/'')"

fun base64_groups :: "nat list \<Rightarrow> string" where
  "base64_groups [] = []"
| "base64_groups [a] = [b64_char (a div 4), b64_char (a mod 4 * 16), CHR ''='', CHR ''='']"
| "base64_groups [a, b] =
     [b64_char (a div 4), b64_char (a mod 4 * 16 + b div 16), b64_char (b mod 16 * 4), CHR ''='']"
| "base64_groups (a # b # c # rest) =
     [b64_char (a div 4), b64_char (a mod 4 * 16 + b div 16), b64_char (b mod 16 * 4 + c div 64), b64_char (c mod 64)] @
       base64_groups rest"

definition base64 :: "string \<Rightarrow> string" where
  "base64 s = base64_groups (map of_char s)"

definition subscribeToEvents :: "'w router_api \<Rightarrow> string \<Rightarrow> string \<Rightarrow> string \<Rightarrow> string list \<Rightarrow> ('w, unit) act" where
  "subscribeToEvents api subscribeUrl accessKey secretKey eventNames =
     ra_Dial api (subscribeUrl @ ''?'' @ query_encode ''eventNames'' eventNames)
       (''Basic '' @ base64 (accessKey @ '':'' @ secretKey))"

text \<open>\<open>Start\<close> up to the loop: the handlers by the event names the loop will see.\<close>

definition Start_setup :: "'w router_api \<Rightarrow> nat \<Rightarrow> EventRouter \<Rightarrow> (string \<times> 'h) list \<Rightarrow> ('w, string \<rightharpoonup> 'h) act" where
  "Start_setup api ticks router eventHandlers =
     act_bind (removeOldHandler api ticks (er_name router)) (\<lambda>_.
     act_bind (createNewHandler api (start_externalHandler router eventHandlers)) (\<lambda>_.
     act_bind (subscribeToEvents api (er_subscribeUrl router) (er_accessKey router) (er_secretKey router)
         (start_eventNames (er_name router) eventHandlers)) (\<lambda>_.
       act_return (start_handlers (er_name router) eventHandlers))))"

section \<open>The worker pool\<close>

text \<open>
  Where a worker is in \<open>DoWork\<close>: before the event is decoded, in the handler or after it failed (both
  under the lock), before the deferred unlock, and before it goes back into the pool.
\<close>

datatype job = Decoding string | Handling Event unlockerImpl | Replying Event unlockerImpl string
  | Unlocking unlockerImpl | Returning

text \<open>
  \<open>wk_decode\<close> is \<open>json.Unmarshal\<close> into an \<open>*Event\<close>, nil for the message \<open>null\<close>; \<open>wk_outcome\<close> relates an
  event to what the registered handler may return for it, \<open>None\<close> for an unregistered name.
\<close>

record worker_env =
  wk_decode :: "string \<Rightarrow> Event option go"
  wk_outcome :: "Event \<Rightarrow> unit go option \<Rightarrow> bool"

record router_state =
  rt_idle :: "nat list"
  rt_jobs :: "nat \<rightharpoonup> job"
  rt_items :: "string set"
  rt_handled :: "(Event \<times> unit go) list"
  rt_published :: "Publish list"
  rt_dropped :: "string list"
  rt_crashed :: bool

definition router_init :: "nat \<Rightarrow> router_state" where
  "router_init workerCount = \<lparr>rt_idle = [0..<workerCount], rt_jobs = Map.empty, rt_items = {}, rt_handled = [],
     rt_published = [], rt_dropped = [], rt_crashed = False\<rparr>"

definition error_reply :: "Event \<Rightarrow> string \<Rightarrow> Publish" where
  "error_reply event err =
     \<lparr>pb_Name = evt_ReplyTo event, pb_PreviousIds = [evt_Id event], pb_Transitioning = ''error'',
      pb_TransitioningMessage = err\<rparr>"

text \<open>The loop of \<open>Start\<close> takes a message: skipped when blank, given to an idle worker, or dropped.\<close>

definition receive :: "string \<Rightarrow> router_state \<Rightarrow> router_state" where
  "receive message s =
     (let message = trim_space message
      in if length message = 0 then s
         else (case rt_idle s of
             worker # rest \<Rightarrow> s\<lparr>rt_idle := rest, rt_jobs := (rt_jobs s)(worker \<mapsto> Decoding message)\<rparr>
           | [] \<Rightarrow> s\<lparr>rt_dropped := rt_dropped s @ [message]\<rparr>))"

definition set_job :: "nat \<Rightarrow> job \<Rightarrow> router_state \<Rightarrow> router_state" where
  "set_job w j s = s\<lparr>rt_jobs := (rt_jobs s)(w \<mapsto> j)\<rparr>"

definition work_decode :: "worker_env \<Rightarrow> nat \<Rightarrow> string \<Rightarrow> router_state \<Rightarrow> router_state" where
  "work_decode env w rawEvent s = (case wk_decode env rawEvent of
     Err _ \<Rightarrow> set_job w Returning s
   | Panic \<Rightarrow> s\<lparr>rt_crashed := True\<rparr>
   | Ok None \<Rightarrow> s\<lparr>rt_crashed := True\<rparr>
   | Ok (Some event) \<Rightarrow>
       (let (unlocker, items) = Lock (evt_ResourceId event) (rt_items s);
            s = s\<lparr>rt_items := items\<rparr>
        in case unlocker of
             None \<Rightarrow> set_job w Returning s
           | Some u \<Rightarrow> set_job w (Handling event u) s))"

definition work_handle :: "nat \<Rightarrow> Event \<Rightarrow> unlockerImpl \<Rightarrow> unit go option \<Rightarrow> router_state \<Rightarrow> router_state" where
  "work_handle w event u outcome s = (case outcome of
     None \<Rightarrow> set_job w (Unlocking u) s
   | Some r \<Rightarrow>
       (let s = s\<lparr>rt_handled := rt_handled s @ [(event, r)]\<rparr>
        in case r of
             Ok _ \<Rightarrow> set_job w (Unlocking u) s
           | Err err \<Rightarrow> set_job w (Replying event u err) s
           | Panic \<Rightarrow> s\<lparr>rt_crashed := True\<rparr>))"

definition work_reply :: "nat \<Rightarrow> Event \<Rightarrow> unlockerImpl \<Rightarrow> string \<Rightarrow> router_state \<Rightarrow> router_state" where
  "work_reply w event u err s =
     set_job w (Unlocking u) (s\<lparr>rt_published := rt_published s @ [error_reply event err]\<rparr>)"

definition work_unlock :: "nat \<Rightarrow> unlockerImpl \<Rightarrow> router_state \<Rightarrow> router_state" where
  "work_unlock w u s = set_job w Returning (s\<lparr>rt_items := Unlock u (rt_items s)\<rparr>)"

definition work_return :: "nat \<Rightarrow> router_state \<Rightarrow> router_state" where
  "work_return w s = s\<lparr>rt_idle := rt_idle s @ [w], rt_jobs := (rt_jobs s)(w := None)\<rparr>"

text \<open>One step of the worker \<open>w\<close>.\<close>

inductive worker_step :: "worker_env \<Rightarrow> nat \<Rightarrow> router_state \<Rightarrow> router_state \<Rightarrow> bool" for env w where
  decode: "rt_jobs s w = Some (Decoding raw) \<Longrightarrow> worker_step env w s (work_decode env w raw s)"
| handle: "rt_jobs s w = Some (Handling event u) \<Longrightarrow> wk_outcome env event outcome \<Longrightarrow>
    worker_step env w s (work_handle w event u outcome s)"
| reply: "rt_jobs s w = Some (Replying event u err) \<Longrightarrow> worker_step env w s (work_reply w event u err s)"
| unlock: "rt_jobs s w = Some (Unlocking u) \<Longrightarrow> worker_step env w s (work_unlock w u s)"
| give_back: "rt_jobs s w = Some Returning \<Longrightarrow> worker_step env w s (work_return w s)"

inductive router_step :: "worker_env \<Rightarrow> router_state \<Rightarrow> router_state \<Rightarrow> bool" for env where
  message: "\<not> rt_crashed s \<Longrightarrow> router_step env s (receive m s)"
| worker: "\<not> rt_crashed s \<Longrightarrow> worker_step env w s s' \<Longrightarrow> router_step env s s'"

inductive router_reachable :: "worker_env \<Rightarrow> nat \<Rightarrow> router_state \<Rightarrow> bool" for env n where
  init: "router_reachable env n (router_init n)"
| step: "router_reachable env n s \<Longrightarrow> router_step env s s' \<Longrightarrow> router_reachable env n s'"

section \<open>The invariant of the worker pool\<close>

fun job_lock :: "job \<Rightarrow> unlockerImpl option" where
  "job_lock (Handling event u) = Some u"
| "job_lock (Replying event u err) = Some u"
| "job_lock (Unlocking u) = Some u"
| "job_lock (Decoding raw) = None"
| "job_lock Returning = None"

fun job_event :: "job \<Rightarrow> (Event \<times> unlockerImpl) option" where
  "job_event (Handling event u) = Some (event, u)"
| "job_event (Replying event u err) = Some (event, u)"
| "job_event (Unlocking u) = None"
| "job_event (Decoding raw) = None"
| "job_event Returning = None"

fun job_reply :: "job option \<Rightarrow> Publish multiset" where
  "job_reply (Some (Replying event u err)) = {#error_reply event err#}"
| "job_reply (Some (Handling event u)) = {#}"
| "job_reply (Some (Unlocking u)) = {#}"
| "job_reply (Some (Decoding raw)) = {#}"
| "job_reply (Some Returning) = {#}"
| "job_reply None = {#}"

definition works_on :: "router_state \<Rightarrow> nat \<Rightarrow> Event option" where
  "works_on s w = map_option fst (Option.bind (rt_jobs s w) job_event)"

definition holders :: "router_state \<Rightarrow> (nat \<times> unlockerImpl) set" where
  "holders s = {(w, u). \<exists>j. rt_jobs s w = Some j \<and> job_lock j = Some u}"

definition pool_inv :: "nat \<Rightarrow> router_state \<Rightarrow> bool" where
  "pool_inv n s \<longleftrightarrow> distinct (rt_idle s) \<and> set (rt_idle s) \<inter> dom (rt_jobs s) = {} \<and>
     set (rt_idle s) \<union> dom (rt_jobs s) = {..<n}"

definition locks_inv :: "router_state \<Rightarrow> bool" where
  "locks_inv s \<longleftrightarrow> (\<exists>held. lk.agrees held (rt_items s) \<and> set held = holders s) \<and>
     (\<forall>w j event u. rt_jobs s w = Some j \<longrightarrow> job_event j = Some (event, u) \<longrightarrow> un_key u = evt_ResourceId event)"

text \<open>The error replies the handler results so far call for.\<close>

definition due_replies :: "(Event \<times> unit go) list \<Rightarrow> Publish list" where
  "due_replies handled = concat (map (\<lambda>(event, r). case r of Err err \<Rightarrow> [error_reply event err] | _ \<Rightarrow> []) handled)"

definition replies_inv :: "nat \<Rightarrow> router_state \<Rightarrow> bool" where
  "replies_inv n s \<longleftrightarrow>
     mset (rt_published s) + (\<Sum>w<n. job_reply (rt_jobs s w)) = mset (due_replies (rt_handled s))"

lemma job_reply_update:
  fixes n :: nat
  assumes "w < n"
  shows "(\<Sum>x<n. job_reply ((m(w := j)) x)) + job_reply (m w) = (\<Sum>x<n. job_reply (m x)) + job_reply j"
proof -
  have "(\<Sum>x<n. job_reply (f x)) = job_reply (f w) + (\<Sum>x\<in>{..<n} - {w}. job_reply (f x))" for f
    using assms by (intro sum.remove) auto
  moreover have "(\<Sum>x\<in>{..<n} - {w}. job_reply ((m(w := j)) x)) = (\<Sum>x\<in>{..<n} - {w}. job_reply (m x))"
    by (intro sum.cong) auto
  ultimately show ?thesis by (simp only: fun_upd_same ac_simps)
qed

lemma holders_update:
  "rt_jobs s' = (rt_jobs s)(w := j) \<Longrightarrow>
     holders s' = {p \<in> holders s. fst p \<noteq> w} \<union> {(w, u) |u. \<exists>j'. j = Some j' \<and> job_lock j' = Some u}"
  by (auto simp: holders_def split: if_splits)

lemma locks_keep:
  assumes "locks_inv s" "rt_items s' = rt_items s" "rt_jobs s' = (rt_jobs s)(w := j)"
    "(case rt_jobs s w of None \<Rightarrow> None | Some j \<Rightarrow> job_lock j) = (case j of None \<Rightarrow> None | Some j \<Rightarrow> job_lock j)"
    "\<And>j' event u. j = Some j' \<Longrightarrow> job_event j' = Some (event, u) \<Longrightarrow>
       \<exists>j0. rt_jobs s w = Some j0 \<and> job_event j0 = Some (event, u)"
  shows "locks_inv s'"
proof -
  have "holders s' = holders s"
    using assms(4) unfolding holders_update [OF assms(3)]
    by (auto simp: holders_def split: option.splits if_splits)
  with assms show ?thesis unfolding locks_inv_def by (auto split: if_splits) blast+
qed

lemma locks_acquire:
  assumes "locks_inv s" "Lock (evt_ResourceId event) (rt_items s) = (Some u, items)"
    "rt_jobs s w = Some j0" "job_lock j0 = None"
    "rt_items s' = items" "rt_jobs s' = (rt_jobs s)(w \<mapsto> Handling event u)"
  shows "locks_inv s'"
proof -
  from assms(1) obtain held where h: "lk.agrees held (rt_items s)" "set held = holders s"
    by (auto simp: locks_inv_def)
  have "holders s' = insert (w, u) (holders s)"
    using assms(3,4) unfolding holders_update [OF assms(6)] by (auto simp: holders_def)
  then have "lk.agrees ((w, u) # held) (rt_items s') \<and> set ((w, u) # held) = holders s'"
    using lk.agrees_lock [OF h(1) assms(2)] h(2) assms(5) by simp
  moreover have "un_key u = evt_ResourceId event" using lk.lock_Some [OF assms(2)] by simp
  ultimately show ?thesis using assms(1,6) unfolding locks_inv_def
    by (intro conjI exI [of _ "(w, u) # held"]) (auto split: if_splits)
qed

lemma locks_release:
  assumes "locks_inv s" "rt_jobs s w = Some (Unlocking u)"
    "rt_items s' = Unlock u (rt_items s)" "rt_jobs s' = (rt_jobs s)(w \<mapsto> Returning)"
  shows "locks_inv s'"
proof -
  from assms(1) obtain held where h: "lk.agrees held (rt_items s)" "set held = holders s"
    by (auto simp: locks_inv_def)
  have wu: "(w, u) \<in> set held" using assms(2) by (auto simp: h(2) holders_def)
  have d: "distinct held" using h(1) by (simp add: lk.agrees_def distinct_map)
  have "holders s' = holders s - {(w, u)}"
    using assms(2) unfolding holders_update [OF assms(4)] by (auto simp: holders_def)
  then have "lk.agrees (remove1 (w, u) held) (rt_items s') \<and> set (remove1 (w, u) held) = holders s'"
    using lk.agrees_unlock [OF h(1) wu] assms(3) h(2) d by simp
  then show ?thesis using assms(1,4) unfolding locks_inv_def
    by (intro conjI exI [of _ "remove1 (w, u) held"]) (auto split: if_splits)
qed

definition router_inv :: "nat \<Rightarrow> router_state \<Rightarrow> bool" where
  "router_inv n s \<longleftrightarrow> pool_inv n s \<and> locks_inv s \<and> replies_inv n s"

lemma router_inv_init: "router_inv n (router_init n)"
  by (auto simp: router_inv_def pool_inv_def locks_inv_def replies_inv_def router_init_def due_replies_def
      holders_def intro!: exI [of _ "[]"] lk.agrees_empty)

text \<open>A worker's step keeps the pool: its job stays a job, or it goes back to the idle workers.\<close>

lemma pool_set_job:
  "pool_inv n s \<Longrightarrow> rt_jobs s w \<noteq> None \<Longrightarrow> rt_idle s' = rt_idle s \<Longrightarrow> rt_jobs s' = (rt_jobs s)(w \<mapsto> j) \<Longrightarrow> pool_inv n s'"
  by (auto simp: pool_inv_def)

lemma replies_set_job:
  assumes "replies_inv n s" "w < n" "rt_jobs s' = (rt_jobs s)(w := j)"
    "mset (rt_published s') + mset (due_replies (rt_handled s)) + job_reply j =
     mset (rt_published s) + mset (due_replies (rt_handled s')) + job_reply (rt_jobs s w)"
  shows "replies_inv n s'"
proof -
  let ?S = "\<Sum>x<n. job_reply (rt_jobs s x)" and ?S' = "\<Sum>x<n. job_reply (rt_jobs s' x)"
  have "?S' + job_reply (rt_jobs s w) = ?S + job_reply j"
    using job_reply_update [OF assms(2), of "rt_jobs s" j] assms(3) by simp
  then have "(mset (rt_published s') + ?S') + (job_reply (rt_jobs s w) + mset (rt_published s) + mset (due_replies (rt_handled s)) + job_reply j) =
      mset (due_replies (rt_handled s')) + (job_reply (rt_jobs s w) + mset (rt_published s) + mset (due_replies (rt_handled s)) + job_reply j)"
    using assms(1,4) unfolding replies_inv_def by (smt (verit, ccfv_threshold) add.assoc add.commute)
  then show ?thesis unfolding replies_inv_def by simp
qed

lemma pool_worker: "pool_inv n s \<Longrightarrow> rt_jobs s w = Some j \<Longrightarrow> w < n"
  by (auto simp: pool_inv_def)

lemma set_job_sel [simp]:
  "rt_jobs (set_job w j s) = (rt_jobs s)(w \<mapsto> j)" "rt_idle (set_job w j s) = rt_idle s"
  "rt_items (set_job w j s) = rt_items s" "rt_handled (set_job w j s) = rt_handled s"
  "rt_published (set_job w j s) = rt_published s" "rt_crashed (set_job w j s) = rt_crashed s"
  by (simp_all add: set_job_def)

lemma router_inv_crash: "router_inv n (s\<lparr>rt_crashed := b\<rparr>) = router_inv n s"
  by (simp add: router_inv_def pool_inv_def locks_inv_def replies_inv_def holders_def)

lemma inv_decode:
  assumes inv: "router_inv n s" and j: "rt_jobs s w = Some (Decoding raw)"
  shows "router_inv n (work_decode env w raw s)"
proof -
  from inv have i: "pool_inv n s" "locks_inv s" "replies_inv n s" by (simp_all add: router_inv_def)
  have w: "w < n" by (rule pool_worker [OF i(1) j])
  have refuse: "router_inv n s'" if "rt_jobs s' = (rt_jobs s)(w \<mapsto> Returning)" "rt_idle s' = rt_idle s"
    "rt_items s' = rt_items s" "rt_handled s' = rt_handled s" "rt_published s' = rt_published s" for s'
    using pool_set_job [OF i(1) _ that(2,1)] locks_keep [OF i(2) that(3,1)]
      replies_set_job [OF i(3) w that(1)] that j by (simp add: router_inv_def)
  show ?thesis
  proof (cases "wk_decode env raw")
    case (Ok x)
    show ?thesis
    proof (cases x)
      case None
      with Ok inv show ?thesis by (simp add: work_decode_def router_inv_crash)
    next
      case (Some event)
      obtain unlocker items where l: "Lock (evt_ResourceId event) (rt_items s) = (unlocker, items)" by fastforce
      show ?thesis
      proof (cases unlocker)
        case None
        with lk.lock_None [of _ "rt_items s" items] l have "items = rt_items s" by simp
        with Ok Some l None show ?thesis by (intro refuse) (simp_all add: work_decode_def)
      next
        case u: (Some u)
        let ?s = "set_job w (Handling event u) (s\<lparr>rt_items := items\<rparr>)"
        have "pool_inv n ?s" by (rule pool_set_job [OF i(1)]) (simp_all add: j)
        moreover have "locks_inv ?s"
          by (rule locks_acquire [OF i(2) _ j]) (simp_all add: l u)
        moreover have "replies_inv n ?s" by (rule replies_set_job [OF i(3) w, of _ "Some (Handling event u)"]) (simp_all add: j)
        ultimately show ?thesis using Ok Some l u by (simp add: work_decode_def router_inv_def)
      qed
    qed
  next
    case (Err e)
    then show ?thesis by (intro refuse) (simp_all add: work_decode_def)
  next
    case Panic
    with inv show ?thesis by (simp add: work_decode_def router_inv_crash)
  qed
qed

lemma due_replies_snoc: "due_replies (hs @ [(event, r)]) =
    due_replies hs @ (case r of Err err \<Rightarrow> [error_reply event err] | _ \<Rightarrow> [])"
  by (simp add: due_replies_def)

lemma inv_handle:
  assumes inv: "router_inv n s" and j: "rt_jobs s w = Some (Handling event u)"
  shows "router_inv n (work_handle w event u outcome s)"
proof -
  from inv have i: "pool_inv n s" "locks_inv s" "replies_inv n s" by (simp_all add: router_inv_def)
  have w: "w < n" by (rule pool_worker [OF i(1) j])
  have move: "pool_inv n s' \<and> locks_inv s'" if "rt_jobs s' = (rt_jobs s)(w \<mapsto> j')" "rt_idle s' = rt_idle s"
    "rt_items s' = rt_items s" "job_lock j' = Some u" "job_event j' = None \<or> job_event j' = Some (event, u)" for s' j'
  proof
    show "pool_inv n s'" by (rule pool_set_job [OF i(1) _ that(2,1)]) (simp add: j)
    show "locks_inv s'" by (rule locks_keep [OF i(2) that(3,1)]) (use that(4,5) j in auto)
  qed
  show ?thesis
  proof (cases outcome)
    case None
    let ?s = "set_job w (Unlocking u) s"
    have "replies_inv n ?s" by (rule replies_set_job [OF i(3) w, of _ "Some (Unlocking u)"]) (simp_all add: j)
    with None move [of ?s "Unlocking u"] show ?thesis by (simp add: work_handle_def router_inv_def)
  next
    case (Some r)
    let ?h = "s\<lparr>rt_handled := rt_handled s @ [(event, r)]\<rparr>"
    show ?thesis
    proof (cases r)
      case (Ok x)
      have "replies_inv n (set_job w (Unlocking u) ?h)"
        by (rule replies_set_job [OF i(3) w, of _ "Some (Unlocking u)"]) (simp_all add: j due_replies_snoc Ok)
      with Some Ok move [of "set_job w (Unlocking u) ?h" "Unlocking u"] show ?thesis
        by (simp add: work_handle_def router_inv_def)
    next
      case (Err err)
      have "replies_inv n (set_job w (Replying event u err) ?h)"
        by (rule replies_set_job [OF i(3) w, of _ "Some (Replying event u err)"])
          (simp_all add: j due_replies_snoc Err)
      with Some Err move [of "set_job w (Replying event u err) ?h" "Replying event u err"] show ?thesis
        by (simp add: work_handle_def router_inv_def)
    next
      case Panic
      have "router_inv n ?h" using i Panic
        by (simp add: router_inv_def pool_inv_def locks_inv_def replies_inv_def holders_def due_replies_snoc)
      with Some Panic show ?thesis
        using router_inv_crash [where s = "?h" and n = n and b = True] by (simp add: work_handle_def)
    qed
  qed
qed

lemma inv_reply:
  assumes inv: "router_inv n s" and j: "rt_jobs s w = Some (Replying event u err)"
  shows "router_inv n (work_reply w event u err s)"
proof -
  from inv have i: "pool_inv n s" "locks_inv s" "replies_inv n s" by (simp_all add: router_inv_def)
  have w: "w < n" by (rule pool_worker [OF i(1) j])
  let ?s = "work_reply w event u err s"
  have "pool_inv n ?s" by (rule pool_set_job [OF i(1), of w _ "Unlocking u"]) (simp_all add: j work_reply_def)
  moreover have "locks_inv ?s"
    by (rule locks_keep [OF i(2), of _ w "Some (Unlocking u)"]) (auto simp: j work_reply_def)
  moreover have "replies_inv n ?s"
    by (rule replies_set_job [OF i(3) w, of _ "Some (Unlocking u)"]) (simp_all add: j work_reply_def)
  ultimately show ?thesis by (simp add: router_inv_def)
qed

lemma inv_unlock:
  assumes inv: "router_inv n s" and j: "rt_jobs s w = Some (Unlocking u)"
  shows "router_inv n (work_unlock w u s)"
proof -
  from inv have i: "pool_inv n s" "locks_inv s" "replies_inv n s" by (simp_all add: router_inv_def)
  have w: "w < n" by (rule pool_worker [OF i(1) j])
  let ?s = "work_unlock w u s"
  have "pool_inv n ?s" by (rule pool_set_job [OF i(1), of w _ Returning]) (simp_all add: j work_unlock_def)
  moreover have "locks_inv ?s" by (rule locks_release [OF i(2) j]) (simp_all add: work_unlock_def)
  moreover have "replies_inv n ?s"
    by (rule replies_set_job [OF i(3) w, of _ "Some Returning"]) (simp_all add: j work_unlock_def)
  ultimately show ?thesis by (simp add: router_inv_def)
qed

lemma inv_return:
  assumes inv: "router_inv n s" and j: "rt_jobs s w = Some Returning"
  shows "router_inv n (work_return w s)"
proof -
  from inv have i: "pool_inv n s" "locks_inv s" "replies_inv n s" by (simp_all add: router_inv_def)
  have w: "w < n" by (rule pool_worker [OF i(1) j])
  let ?s = "work_return w s"
  have "pool_inv n ?s" using i(1) j by (auto simp: pool_inv_def work_return_def)
  moreover have "locks_inv ?s"
    by (rule locks_keep [OF i(2), of _ w None]) (simp_all add: j work_return_def)
  moreover have "replies_inv n ?s"
    by (rule replies_set_job [OF i(3) w, of _ None]) (simp_all add: j work_return_def)
  ultimately show ?thesis by (simp add: router_inv_def)
qed

lemma inv_receive:
  assumes inv: "router_inv n s"
  shows "router_inv n (receive m s)"
proof -
  from inv have i: "pool_inv n s" "locks_inv s" "replies_inv n s" by (simp_all add: router_inv_def)
  show ?thesis
  proof (cases "trim_space m = []")
    case False
    show ?thesis
    proof (cases "rt_idle s")
      case Nil
      then have "router_inv n (s\<lparr>rt_dropped := rt_dropped s @ [trim_space m]\<rparr>)"
        using inv by (simp add: router_inv_def pool_inv_def locks_inv_def replies_inv_def holders_def)
      with Nil False show ?thesis by (simp add: receive_def Let_def)
    next
      case (Cons w rest)
      let ?s = "s\<lparr>rt_idle := rest, rt_jobs := (rt_jobs s)(w \<mapsto> Decoding (trim_space m))\<rparr>"
      have none: "rt_jobs s w = None" and w: "w < n" using i(1) Cons by (auto simp: pool_inv_def)
      have "pool_inv n ?s" using i(1) Cons by (auto simp: pool_inv_def)
      moreover have "locks_inv ?s"
        by (rule locks_keep [OF i(2), of _ w "Some (Decoding (trim_space m))"]) (auto simp: none)
      moreover have "replies_inv n ?s"
        by (rule replies_set_job [OF i(3) w, of _ "Some (Decoding (trim_space m))"]) (simp_all add: none)
      ultimately show ?thesis using False Cons by (simp add: receive_def Let_def router_inv_def)
    qed
  qed (use inv in \<open>simp add: receive_def Let_def\<close>)
qed

lemma router_reachable_inv: "router_reachable env n s \<Longrightarrow> router_inv n s"
proof (induction rule: router_reachable.induct)
  case (step s s')
  from step(2) show ?case
  proof (cases rule: router_step.cases)
    case (message m)
    with step.IH inv_receive show ?thesis by simp
  next
    case (worker w)
    from worker(2) step.IH show ?thesis
      by (cases rule: worker_step.cases) (auto intro: inv_decode inv_handle inv_reply inv_unlock inv_return)
  qed
qed (rule router_inv_init)

text \<open>Every handler result on record is one the handler may return for the event.\<close>

lemma handled_outcomes:
  "router_reachable env n s \<Longrightarrow> (event, r) \<in> set (rt_handled s) \<Longrightarrow> wk_outcome env event (Some r)"
proof (induction rule: router_reachable.induct)
  case init
  then show ?case by (simp add: router_init_def)
next
  case (step s s')
  from step.hyps(2) show ?case
  proof (cases rule: router_step.cases)
    case (message m)
    with step show ?thesis by (auto simp: receive_def Let_def split: if_splits list.splits)
  next
    case (worker w)
    from worker(2) step.IH step.prems show ?thesis
      by (cases rule: worker_step.cases)
        (auto simp: work_decode_def work_handle_def work_reply_def work_unlock_def work_return_def Let_def
          split: go.splits option.splits prod.splits if_splits)
  qed
qed

lemma published_due:
  assumes "router_reachable env n s" "reply \<in> set (rt_published s)"
  obtains event err where "(event, Err err) \<in> set (rt_handled s)" "reply = error_reply event err"
proof -
  have "mset (rt_published s) \<subseteq># mset (due_replies (rt_handled s))"
    using router_reachable_inv [OF assms(1)] by (metis mset_subset_eq_add_left replies_inv_def router_inv_def)
  with assms(2) have "reply \<in> set (due_replies (rt_handled s))" by (metis mset_subset_eqD set_mset_mset)
  then show thesis using that by (auto simp: due_replies_def split: go.splits)
qed

section \<open>Properties of the router\<close>

text \<open>A concrete run for the witnesses: of two events of one resource the second is dropped, and the first fails.\<close>

definition demo_env :: worker_env where
  "demo_env = \<lparr>wk_decode = (\<lambda>raw. if raw = ''null'' then Ok None else Ok (Some (Event_of raw ''7'' ''reply'' ''1e1''))),
     wk_outcome = (\<lambda>event r. r = Some (Err ''boom''))\<rparr>"

definition demo_event :: Event where
  "demo_event = Event_of ''a'' ''7'' ''reply'' ''1e1''"

definition demo_lock :: unlockerImpl where
  "demo_lock = \<lparr>un_key = ''1e1''\<rparr>"

definition demo_state :: router_state where
  "demo_state =
     work_handle 0 demo_event demo_lock (Some (Err ''boom''))
       (work_decode demo_env 1 ''b'' (work_decode demo_env 0 ''a'' (receive ''b'' (receive ''a'' (router_init 2)))))"

lemmas demo_simps = demo_state_def demo_env_def demo_event_def demo_lock_def router_init_def receive_def
  work_decode_def work_handle_def set_job_def Event_of_def Lock_def newLockRequest_def newUnlocker_def locker_turn_def trim_space_def is_space_def Let_def upt_rec

lemma receive_crashed [simp]: "rt_crashed (receive m s) = rt_crashed s"
  by (simp add: receive_def Let_def split: list.splits)

lemma demo_reachable: "router_reachable demo_env 2 demo_state"
proof -
  note step = router_reachable.step
  have r1: "router_reachable demo_env 2 (receive ''b'' (receive ''a'' (router_init 2)))"
    by (rule step [OF step [OF router_reachable.init router_step.message] router_step.message])
      (simp_all add: router_init_def)
  have w0: "worker_step demo_env 0 (receive ''b'' (receive ''a'' (router_init 2)))
      (work_decode demo_env 0 ''a'' (receive ''b'' (receive ''a'' (router_init 2))))"
    by (rule worker_step.decode) (simp add: demo_simps)
  have r2: "router_reachable demo_env 2 (work_decode demo_env 0 ''a'' (receive ''b'' (receive ''a'' (router_init 2))))"
    by (rule step [OF r1 router_step.worker [OF _ w0]]) (simp add: demo_simps)
  let ?s2 = "work_decode demo_env 0 ''a'' (receive ''b'' (receive ''a'' (router_init 2)))"
  have w1: "worker_step demo_env 1 ?s2 (work_decode demo_env 1 ''b'' ?s2)"
    by (rule worker_step.decode) (simp add: demo_simps)
  have r3: "router_reachable demo_env 2 (work_decode demo_env 1 ''b'' ?s2)"
    by (rule step [OF r2 router_step.worker [OF _ w1]]) (simp add: demo_simps)
  have w2: "worker_step demo_env 0 (work_decode demo_env 1 ''b'' ?s2) demo_state"
    unfolding demo_state_def by (rule worker_step.handle) (simp_all add: demo_simps)
  show ?thesis by (rule step [OF r3 router_step.worker [OF _ w2]]) (simp add: demo_simps)
qed

lemma demo_jobs: "rt_jobs demo_state = [0 \<mapsto> Replying demo_event demo_lock ''boom'', 1 \<mapsto> Returning]"
  by (rule ext) (simp add: demo_simps)

text \<open>
  The worker pool.  However the messages and the workers interleave, no worker is lost or used twice:
  each of the \<open>n\<close> workers is idle or has one job, so at most \<open>n\<close> events are processed at once.
\<close>

theorem worker_pool_conserved:
  assumes "router_reachable env n s"
  shows "distinct (rt_idle s) \<and> set (rt_idle s) \<inter> dom (rt_jobs s) = {} \<and>
    length (rt_idle s) + card (dom (rt_jobs s)) = n"
proof -
  have p: "pool_inv n s" using router_reachable_inv [OF assms] by (simp add: router_inv_def)
  then have "finite (dom (rt_jobs s))" by (metis finite_Un finite_lessThan pool_inv_def)
  with p have "card (set (rt_idle s)) + card (dom (rt_jobs s)) = card {..<n}"
    unfolding pool_inv_def by (metis List.finite_set card_Un_disjoint)
  with p show ?thesis by (simp add: pool_inv_def distinct_card)
qed

theorem worker_pool_conserved_witness:
  "length (rt_idle demo_state) + card (dom (rt_jobs demo_state)) = 2"
  using worker_pool_conserved [OF demo_reachable] by blast

text \<open>
  C4: One event per resource.  Two workers that are in their handlers (or in the error reply after it) work
  on events of different resources, which are locked for as long; once every worker is idle no resource is
  locked.
\<close>

theorem one_event_per_resource:
  assumes "router_reachable env n s"
  shows "(\<forall>w w' event event'. works_on s w = Some event \<longrightarrow> works_on s w' = Some event' \<longrightarrow>
        evt_ResourceId event = evt_ResourceId event' \<longrightarrow> w = w') \<and>
    (\<forall>w event. works_on s w = Some event \<longrightarrow> evt_ResourceId event \<in> rt_items s) \<and>
    (rt_jobs s = Map.empty \<longrightarrow> rt_items s = {})"
proof -
  have l: "locks_inv s" using router_reachable_inv [OF assms] by (simp add: router_inv_def)
  then obtain held where h: "lk.agrees held (rt_items s)" "set held = holders s" by (auto simp: locks_inv_def)
  have work: "\<exists>u. (w, u) \<in> set held \<and> un_key u = evt_ResourceId event" if "works_on s w = Some event" for w event
  proof -
    from that obtain j u where j: "rt_jobs s w = Some j" "job_event j = Some (event, u)"
      by (auto simp: works_on_def bind_eq_Some_conv)
    then have "job_lock j = Some u" by (cases j) auto
    with j show ?thesis using l unfolding locks_inv_def by (auto simp: h(2) holders_def)
  qed
  have "w = w'" if "works_on s w = Some event" "works_on s w' = Some event'"
    "evt_ResourceId event = evt_ResourceId event'" for w w' event event'
    using work [OF that(1)] work [OF that(2)] that(3) lk.agrees_exclusive [OF h(1)] by fastforce
  moreover have "evt_ResourceId event \<in> rt_items s" if "works_on s w = Some event" for w event
    using work [OF that] h(1) by (force simp: lk.agrees_def)
  moreover have "rt_items s = {}" if "rt_jobs s = Map.empty"
    using h that by (simp add: holders_def lk.agrees_def)
  ultimately show ?thesis by blast
qed

theorem one_event_per_resource_witness:
  "works_on demo_state 0 = Some demo_event \<and> evt_ResourceId demo_event \<in> rt_items demo_state"
proof -
  have w: "works_on demo_state 0 = Some demo_event" by (simp add: works_on_def demo_jobs)
  with one_event_per_resource [OF demo_reachable] show ?thesis by blast
qed

text \<open>
  C5: Every failure is reported once.  The error replies published so far, with those a worker is about to
  publish, are exactly the replies due for the handler calls that returned an error: one for each, to
  the event's reply address, with the error's text.
\<close>

theorem failures_reported_once:
  assumes "router_reachable env n s"
  shows "mset (rt_published s) + (\<Sum>w<n. job_reply (rt_jobs s w)) = mset (due_replies (rt_handled s))"
  using router_reachable_inv [OF assms] by (simp add: router_inv_def replies_inv_def)

theorem failures_reported_once_witness:
  "mset (rt_published demo_state) + (\<Sum>w<2. job_reply (rt_jobs demo_state w)) = {#error_reply demo_event ''boom''#}"
  using failures_reported_once [OF demo_reachable] by (simp add: demo_simps due_replies_def)

text \<open>The steps a worker has left.\<close>

fun job_rank :: "job option \<Rightarrow> nat" where
  "job_rank None = 0"
| "job_rank (Some Returning) = 1"
| "job_rank (Some (Unlocking u)) = 2"
| "job_rank (Some (Replying event u err)) = 3"
| "job_rank (Some (Handling event u)) = 4"
| "job_rank (Some (Decoding raw)) = 5"

lemma worker_step_rank:
  "worker_step env w s s' \<Longrightarrow> rt_crashed s' \<or> job_rank (rt_jobs s' w) < job_rank (rt_jobs s w)"
  by (induction rule: worker_step.induct)
    (auto simp: work_decode_def work_handle_def work_reply_def work_unlock_def work_return_def
      Let_def split: go.splits option.splits prod.splits)

lemma worker_step_exists:
  assumes "\<And>event. \<exists>r. wk_outcome env event r" "rt_jobs s w = Some j"
  shows "\<exists>s'. worker_step env w s s'"
proof (cases j)
  case (Handling event u)
  moreover obtain r where "wk_outcome env event r" using assms(1) by blast
  ultimately show ?thesis using assms(2) by (auto intro: worker_step.handle)
qed (use assms(2) in \<open>auto intro: worker_step.intros\<close>)



text \<open>
  A null message.  The message \<open>null\<close> decodes to a nil event without an error, and the first field access
  panics outside any recover: one such message, at any moment when a worker is idle, ends the process.
\<close>

theorem null_message_crashes:
  assumes "wk_decode env m = Ok None" "trim_space m = m" "m \<noteq> []" "\<not> rt_crashed s" "rt_idle s = w # ws"
  shows "\<exists>t u. router_step env s t \<and> router_step env t u \<and> rt_crashed u \<and> (\<forall>v. \<not> router_step env u v)"
proof -
  let ?t = "receive m s"
  have t: "rt_jobs ?t w = Some (Decoding m)" "\<not> rt_crashed ?t"
    using assms(2-5) by (simp_all add: receive_def Let_def)
  let ?u = "work_decode env w m ?t"
  have u: "rt_crashed ?u" using assms(1) by (simp add: work_decode_def)
  have "router_step env s ?t" by (rule router_step.message [OF assms(4)])
  moreover have "router_step env ?t ?u"
    by (rule router_step.worker [OF t(2) worker_step.decode [of ?t w m env, OF t(1)]])
  moreover have "\<not> router_step env ?u v" for v using u by (auto elim: router_step.cases)
  ultimately show ?thesis using u by blast
qed

theorem null_message_crashes_witness:
  "\<exists>t u. router_step demo_env (router_init 10) t \<and> router_step demo_env t u \<and> rt_crashed u \<and>
     (\<forall>v. \<not> router_step demo_env u v)"
  by (rule null_message_crashes [of _ "''null''" _ 0 "[1..<10]"])
    (simp_all add: demo_simps)

lemma start_handlers_fold:
  "distinct (map fst hs) \<Longrightarrow>
     fold (\<lambda>(event, handler) m. m(event @ x \<mapsto> handler)) hs m0 k =
       (case map_of (map (\<lambda>(event, handler). (event @ x, handler)) hs) k of Some h \<Rightarrow> Some h | None \<Rightarrow> m0 k)"
proof (induction hs arbitrary: m0)
  case (Cons p hs)
  obtain a b where p: "p = (a, b)" by (cases p)
  have "map_of (map (\<lambda>(event, handler). (event @ x, handler)) hs) (a @ x) = None"
    using Cons.prems p by (force simp: map_of_eq_None_iff)
  with Cons p show ?case by (auto split: option.splits)
qed simp

text \<open>
  The dispatch table.  The names subscribed to are the registered process names with the handler's suffix;
  each dispatches to the handler registered for the process, whatever the order of Go's map iteration, and the
  only other name the router dispatches is an unsuffixed \<open>ping\<close>.
\<close>

theorem dispatch_table:
  assumes "distinct (map fst hs)"
  shows "set (start_eventNames name hs) = (\<lambda>event. event @ handlerSuffix name) ` set (map fst hs) \<and>
    (\<forall>event h. map_of hs event = Some h \<longrightarrow> start_handlers name hs (event @ handlerSuffix name) = Some h) \<and>
    (\<forall>k. k \<notin> set (start_eventNames name hs) \<longrightarrow>
      start_handlers name hs k = (if k = ''ping'' then map_of hs k else None)) \<and>
    map pcf_Name (eh_ProcessConfigs (start_externalHandler router hs)) = map fst hs"
proof -
  let ?hs = "map (\<lambda>(event, handler). (event @ handlerSuffix name, handler)) hs"
  have keys: "map fst ?hs = start_eventNames name hs" by (auto simp: start_eventNames_def)
  have "map fst ?hs = map (\<lambda>event. event @ handlerSuffix name) (map fst hs)" by auto
  then have d: "distinct (map fst ?hs)" using assms by (simp only: distinct_map) (simp add: inj_on_def)
  have "set (start_eventNames name hs) = (\<lambda>event. event @ handlerSuffix name) ` set (map fst hs)"
    by (force simp: start_eventNames_def)
  moreover have "start_handlers name hs (event @ handlerSuffix name) = Some h" if "map_of hs event = Some h" for event h
  proof -
    from map_of_SomeD [OF that] have "(event @ handlerSuffix name, h) \<in> set ?hs" by force
    with d have "map_of ?hs (event @ handlerSuffix name) = Some h" by (rule map_of_is_SomeI)
    then show ?thesis by (simp only: start_handlers_def start_handlers_fold [OF assms] option.case)
  qed
  moreover have "start_handlers name hs k = (if k = ''ping'' then map_of hs k else None)"
    if "k \<notin> set (start_eventNames name hs)" for k
  proof -
    from that keys have "map_of ?hs k = None" by (metis map_of_eq_None_iff set_map)
    then show ?thesis
      by (simp only: start_handlers_def start_handlers_fold [OF assms] option.case) (auto split: option.splits)
  qed
  moreover have "map pcf_Name (eh_ProcessConfigs (start_externalHandler router hs)) = map fst hs"
    by (auto simp: start_externalHandler_def)
  ultimately show ?thesis by blast
qed

theorem dispatch_table_witness:
  "start_handlers ''r'' [(''environment.create'', True), (''ping'', False)] ''environment.create;handler=r'' = Some True"
proof -
  have "distinct (map fst [(''environment.create'', True), (''ping'', False)])" by simp
  from dispatch_table [OF this, of "''r''"]
  have "map_of [(''environment.create'', True), (''ping'', False)] ''environment.create'' = Some True \<longrightarrow>
    start_handlers ''r'' [(''environment.create'', True), (''ping'', False)] (''environment.create'' @ handlerSuffix ''r'') = Some True"
    by blast
  then show ?thesis by (simp add: handlerSuffix_def)
qed

end
