(* ===== verification/Go_Version.thy ===== *)
theory Go_Version
  imports Go_Prelude
begin

text \<open>
  Versions and constraints, \<open>hashicorp/go-version\<close>, which \<open>checkVersion\<close> of the Rancher context compares: the
  regular expressions as parsers, the comparison, and the constraint operators.
\<close>

section \<open>Parsing\<close>

record Version =
  v_metadata :: string
  v_pre :: string
  v_segments :: "int list"
  v_si :: nat

definition ident_char :: "char \<Rightarrow> bool" where
  "ident_char c \<longleftrightarrow> is_digit c \<or> is_upper c \<or> is_lower c \<or> c = CHR ''-''"

text \<open>The expression \<open>[0-9A-Za-z\-]+(\.[0-9A-Za-z\-]+)*\<close>.\<close>

definition dotted_idents :: "string \<Rightarrow> bool" where
  "dotted_idents s \<longleftrightarrow> list_all (\<lambda>p. p \<noteq> [] \<and> list_all ident_char p) (split_on (CHR ''.'') s)"

text \<open>The expression \<open>[0-9]+(\.[0-9]+){0,2}\<close>.\<close>

definition dotted_digits :: "string \<Rightarrow> bool" where
  "dotted_digits s \<longleftrightarrow> length (split_on (CHR ''.'') s) \<le> 3 \<and>
     list_all (\<lambda>p. p \<noteq> [] \<and> list_all is_digit p) (split_on (CHR ''.'') s)"

text \<open>
  The groups of \<open>versionRegexp\<close>, anchored at both ends: the segments, the text after a hyphen, the text after
  a plus sign.  The three parts use disjoint separators, so where they end is determined.
\<close>

definition match_metadata :: "string \<Rightarrow> string option" where
  "match_metadata s = (case s of
     [] \<Rightarrow> Some []
   | c # meta \<Rightarrow> if c = CHR ''+'' \<and> dotted_idents meta then Some meta else None)"

definition match_pre :: "string \<Rightarrow> (string \<times> string) option" where
  "match_pre s = (case s of
     [] \<Rightarrow> Some ([], [])
   | c # r \<Rightarrow>
       if c = CHR ''-'' then
         (let pre = takeWhile (\<lambda>x. x \<noteq> CHR ''+'') r
          in if dotted_idents pre
             then map_option (\<lambda>meta. (pre, meta)) (match_metadata (dropWhile (\<lambda>x. x \<noteq> CHR ''+'') r))
             else None)
       else map_option (\<lambda>meta. ([], meta)) (match_metadata s))"

definition seg_char :: "char \<Rightarrow> bool" where
  "seg_char c \<longleftrightarrow> is_digit c \<or> c = CHR ''.''"

definition match_version :: "string \<Rightarrow> (string \<times> string \<times> string) option" where
  "match_version s =
     (let segs = takeWhile seg_char s
      in if dotted_digits segs
         then map_option (\<lambda>(pre, meta). (segs, pre, meta)) (match_pre (dropWhile seg_char s))
         else None)"

text \<open>\<open>strconv.ParseInt(s, 10, 32)\<close>.\<close>

definition ParseInt32 :: "string \<Rightarrow> int go" where
  "ParseInt32 s = (case atoi s of
     Some i \<Rightarrow> if - (2 ^ 31) \<le> i \<and> i < 2 ^ 31 then Ok i
       else Err (''strconv.ParseInt: parsing '' @ s @ '': value out of range'')
   | None \<Rightarrow> Err (''strconv.ParseInt: parsing '' @ s @ '': invalid syntax''))"

definition parse_segment :: "string \<Rightarrow> int go" where
  "parse_segment str = go_else (ParseInt32 str) (\<lambda>i. i) (\<lambda>e. Err (''Error parsing version: '' @ e))"

definition NewVersion :: "string \<Rightarrow> Version go" where
  "NewVersion v = (case match_version v of
     None \<Rightarrow> Err (''Malformed version: '' @ v)
   | Some (segs, pre, meta) \<Rightarrow>
       go_bind (go_map parse_segment (split_on (CHR ''.'') segs)) (\<lambda>segments.
         Ok \<lparr>v_metadata = meta, v_pre = pre, v_segments = segments @ replicate (3 - length segments) 0,
             v_si = length segments\<rparr>))"

definition Version_String :: "Version \<Rightarrow> string" where
  "Version_String v =
     join ''.'' (map show_int (take 3 (v_segments v))) @
     (if v_pre v \<noteq> [] then CHR ''-'' # v_pre v else []) @
     (if v_metadata v \<noteq> [] then CHR ''+'' # v_metadata v else [])"

definition Must :: "Version go \<Rightarrow> Version go" where
  "Must r = (case r of Ok v \<Rightarrow> Ok v | _ \<Rightarrow> Panic)"

section \<open>Comparing\<close>

text \<open>Go compares strings byte by byte.\<close>

fun string_less :: "string \<Rightarrow> string \<Rightarrow> bool" where
  "string_less s [] = False"
| "string_less [] (y # ys) = True"
| "string_less (x # xs) (y # ys) =
     ((of_char x :: nat) < of_char y \<or> (x = y \<and> string_less xs ys))"

definition comparePart :: "string \<Rightarrow> string \<Rightarrow> int" where
  "comparePart preSelf preOther =
     (if preSelf = preOther then 0
      else if preSelf = [] then (if atoi preOther \<noteq> None then - 1 else 1)
      else if preOther = [] then (if atoi preSelf \<noteq> None then 1 else - 1)
      else if string_less preOther preSelf then 1 else - 1)"

text \<open>The loop over the parts; a missing part counts as the empty string.\<close>

fun compare_parts :: "string list \<Rightarrow> string list \<Rightarrow> int" where
  "compare_parts [] [] = 0"
| "compare_parts (x # xs) [] = (let c = comparePart x [] in if c \<noteq> 0 then c else compare_parts xs [])"
| "compare_parts [] (y # ys) = (let c = comparePart [] y in if c \<noteq> 0 then c else compare_parts [] ys)"
| "compare_parts (x # xs) (y # ys) = (let c = comparePart x y in if c \<noteq> 0 then c else compare_parts xs ys)"

definition comparePrereleases :: "string \<Rightarrow> string \<Rightarrow> int" where
  "comparePrereleases v other =
     (if v = other then 0 else compare_parts (split_on (CHR ''.'') v) (split_on (CHR ''.'') other))"

fun compare_segments :: "int list \<Rightarrow> int list \<Rightarrow> int go" where
  "compare_segments [] ys = Panic"
| "compare_segments (x # xs) [] = Panic"
| "compare_segments (x # xs) (y # ys) =
     (if x = y then compare_segments xs ys else if x < y then Ok (- 1) else Ok 1)"

definition Compare :: "Version \<Rightarrow> Version \<Rightarrow> int go" where
  "Compare v other =
     (if Version_String v = Version_String other then Ok 0
      else if v_segments v = v_segments other then
        (let preSelf = v_pre v; preOther = v_pre other
         in if preSelf = [] \<and> preOther = [] then Ok 0
            else if preSelf = [] then Ok 1
            else if preOther = [] then Ok (- 1)
            else Ok (comparePrereleases preSelf preOther))
      else compare_segments (v_segments v) (v_segments other))"

definition version_Equal :: "Version \<Rightarrow> Version \<Rightarrow> bool go" where
  "version_Equal v o' = go_bind (Compare v o') (\<lambda>c. Ok (c = 0))"

definition GreaterThan :: "Version \<Rightarrow> Version \<Rightarrow> bool go" where
  "GreaterThan v o' = go_bind (Compare v o') (\<lambda>c. Ok (c > 0))"

definition LessThan :: "Version \<Rightarrow> Version \<Rightarrow> bool go" where
  "LessThan v o' = go_bind (Compare v o') (\<lambda>c. Ok (c < 0))"

section \<open>Constraints\<close>

datatype constraint_op = OpEqual | OpNotEqual | OpGreaterThan | OpLessThan | OpGreaterThanEqual | OpLessThanEqual
  | OpPessimistic

record Constraint =
  c_f :: constraint_op
  c_check :: Version
  c_original :: string

fun constraintOperators :: "string \<Rightarrow> constraint_op option" where
  "constraintOperators op =
     (if op = [] \<or> op = ''='' then Some OpEqual
      else if op = ''!='' then Some OpNotEqual
      else if op = ''>'' then Some OpGreaterThan
      else if op = ''<'' then Some OpLessThan
      else if op = ''>='' then Some OpGreaterThanEqual
      else if op = ''<='' then Some OpLessThanEqual
      else if op = ''~>'' then Some OpPessimistic
      else None)"

text \<open>The loop of the pessimistic operator; an index out of range panics.\<close>

fun same_prefix :: "nat \<Rightarrow> int list \<Rightarrow> int list \<Rightarrow> bool go" where
  "same_prefix 0 xs ys = Ok True"
| "same_prefix (Suc n) (x # xs) (y # ys) = (if x \<noteq> y then Ok False else same_prefix n xs ys)"
| "same_prefix (Suc n) [] ys = Panic"
| "same_prefix (Suc n) (x # xs) [] = Panic"

definition constraintPessimistic :: "Version \<Rightarrow> Version \<Rightarrow> bool go" where
  "constraintPessimistic v c = go_bind (LessThan v c) (\<lambda>less.
     if less then Ok False else same_prefix (v_si c - 1) (v_segments v) (v_segments c))"

fun constraint_fun :: "constraint_op \<Rightarrow> Version \<Rightarrow> Version \<Rightarrow> bool go" where
  "constraint_fun OpEqual v c = version_Equal v c"
| "constraint_fun OpNotEqual v c = go_bind (version_Equal v c) (\<lambda>b. Ok (\<not> b))"
| "constraint_fun OpGreaterThan v c = go_bind (Compare v c) (\<lambda>r. Ok (r = 1))"
| "constraint_fun OpLessThan v c = go_bind (Compare v c) (\<lambda>r. Ok (r = - 1))"
| "constraint_fun OpGreaterThanEqual v c = go_bind (Compare v c) (\<lambda>r. Ok (r \<ge> 0))"
| "constraint_fun OpLessThanEqual v c = go_bind (Compare v c) (\<lambda>r. Ok (r \<le> 0))"
| "constraint_fun OpPessimistic v c = constraintPessimistic v c"

text \<open>
  \<open>constraintRegexp\<close>: spaces, an operator, spaces, a version, spaces.  The operators consist of characters that
  neither a version nor a space starts with, so the operator is the longest text of such characters.
\<close>

definition re_space :: "char \<Rightarrow> bool" where
  "re_space c \<longleftrightarrow> c \<in> {CHR '' '', CHR 0x09, CHR 0x0A, CHR 0x0C, CHR 0x0D}"

definition op_char :: "char \<Rightarrow> bool" where
  "op_char c \<longleftrightarrow> c \<in> {CHR ''='', CHR ''!'', CHR ''>'', CHR ''<'', CHR ''~''}"

definition match_constraint :: "string \<Rightarrow> (constraint_op \<times> string) option" where
  "match_constraint s =
     (let s = dropWhile re_space s;
          op = takeWhile op_char s;
          version = rev (dropWhile re_space (rev (dropWhile re_space (dropWhile op_char s))))
      in if match_version version = None then None
         else map_option (\<lambda>f. (f, version)) (constraintOperators op))"

definition parseSingle :: "string \<Rightarrow> Constraint go" where
  "parseSingle v = (case match_constraint v of
     None \<Rightarrow> Err (''Malformed constraint: '' @ v)
   | Some (f, version) \<Rightarrow>
       go_bind (Must (NewVersion version)) (\<lambda>check. Ok \<lparr>c_f = f, c_check = check, c_original = v\<rparr>))"

definition NewConstraint :: "string \<Rightarrow> Constraint list go" where
  "NewConstraint v = go_map parseSingle (split_on (CHR '','') v)"

definition Constraint_Check :: "Constraint \<Rightarrow> Version \<Rightarrow> bool go" where
  "Constraint_Check c v = constraint_fun (c_f c) v (c_check c)"

fun Constraints_Check :: "Constraint list \<Rightarrow> Version \<Rightarrow> bool go" where
  "Constraints_Check [] v = Ok True"
| "Constraints_Check (c # cs) v = go_bind (Constraint_Check c v) (\<lambda>b. if \<not> b then Ok False else Constraints_Check cs v)"

definition Constraints_String :: "Constraint list \<Rightarrow> string" where
  "Constraints_String cs = join '','' (map c_original cs)"

text \<open>\<open>Collection\<close>, for \<open>sort\<close>.\<close>

definition Collection_Less :: "Version list \<Rightarrow> nat \<Rightarrow> nat \<Rightarrow> bool go" where
  "Collection_Less v i j = (if i < length v \<and> j < length v then LessThan (v ! i) (v ! j) else Panic)"

definition Collection_Swap :: "Version list \<Rightarrow> nat \<Rightarrow> nat \<Rightarrow> Version list go" where
  "Collection_Swap v i j = (if i < length v \<and> j < length v then Ok (v[i := v ! j, j := v ! i]) else Panic)"

section \<open>Well-formed versions\<close>

definition wf_version :: "Version \<Rightarrow> bool" where
  "wf_version v \<longleftrightarrow> length (v_segments v) = 3 \<and> (\<forall>i \<in> set (v_segments v). 0 \<le> i \<and> i < 2 ^ 31) \<and>
     1 \<le> v_si v \<and> v_si v \<le> 3 \<and> (v_pre v = [] \<or> dotted_idents (v_pre v)) \<and>
     (v_metadata v = [] \<or> dotted_idents (v_metadata v))"

lemma parse_segment_bounds:
  assumes "parse_segment s = Ok i" "list_all is_digit s"
  shows "0 \<le> i \<and> i < 2 ^ 31"
proof -
  from assms(1) have a: "atoi s = Some i" "i < 2 ^ 31"
    by (auto simp: parse_segment_def ParseInt32_def split: option.splits if_splits)
  have "0 \<le> i"
  proof (cases s)
    case (Cons c cs)
    with assms(2) have "is_digit c" by simp
    then have c: "c \<noteq> CHR ''-''" "c \<noteq> CHR ''+''" by (auto simp: is_digit_def)
    show ?thesis
    proof (cases "parse_nat s")
      case (Some n)
      with Cons c have "i = int n" using a(1) by (simp add: atoi_def split: if_splits)
      then show ?thesis by simp
    qed (use Cons c a(1) in \<open>simp add: atoi_def\<close>)
  qed (use a in \<open>simp add: atoi_def\<close>)
  with a(2) show ?thesis by simp
qed

lemma match_pre_wf: "match_pre s = Some (pre, meta) \<Longrightarrow>
    (pre = [] \<or> dotted_idents pre) \<and> (meta = [] \<or> dotted_idents meta)"
  by (auto simp: match_pre_def match_metadata_def Let_def split: list.splits if_splits)

lemma NewVersion_wf:
  assumes "NewVersion s = Ok v"
  shows "wf_version v"
proof -
  from assms obtain segs pre meta ints where m: "match_version s = Some (segs, pre, meta)"
    and ints: "go_map parse_segment (split_on (CHR ''.'') segs) = Ok ints"
    and v: "v = \<lparr>v_metadata = meta, v_pre = pre, v_segments = ints @ replicate (3 - length ints) 0, v_si = length ints\<rparr>"
    by (auto simp: NewVersion_def go_bind_Ok_iff split: option.splits)
  from m have d: "dotted_digits segs" and p: "match_pre (dropWhile seg_char s) = Some (pre, meta)"
    by (auto simp: match_version_def Let_def split: if_splits)
  have l: "length ints = length (split_on (CHR ''.'') segs)" by (rule go_map_Ok_length [OF ints])
  have "0 \<le> i \<and> i < 2 ^ 31" if "i \<in> set ints" for i
  proof -
    from ints have l2: "list_all2 (\<lambda>x y. parse_segment x = Ok y) (split_on (CHR ''.'') segs) ints"
      by (simp only: go_map_Ok_list_all2)
    from that obtain k where k: "k < length ints" "i = ints ! k" by (auto simp: in_set_conv_nth)
    let ?str = "split_on (CHR ''.'') segs ! k"
    have "parse_segment ?str = Ok i" using list_all2_nthD2 [OF l2 k(1)] k(2) by simp
    moreover have "?str \<in> set (split_on (CHR ''.'') segs)" using k(1) l by simp
    then have "list_all is_digit ?str" using d unfolding dotted_digits_def list_all_iff by blast
    ultimately show ?thesis by (rule parse_segment_bounds)
  qed
  moreover have "1 \<le> length ints" using l by (simp add: Suc_le_eq)
  ultimately show ?thesis
    using d l match_pre_wf [OF p] by (auto simp: wf_version_def v dotted_digits_def)
qed

section \<open>Printing and parsing back\<close>

lemma span_append:
  assumes "\<forall>c \<in> set a. P c" "b = [] \<or> \<not> P (hd b)"
  shows "takeWhile P (a @ b) = a" "dropWhile P (a @ b) = b"
  using assms by (induction a) (cases b; simp)+

lemma dotted_idents_chars: "dotted_idents s \<Longrightarrow> c \<in> set s \<Longrightarrow> ident_char c \<or> c = CHR ''.''"
proof -
  assume d: "dotted_idents s" and c: "c \<in> set s"
  from set_join [of c "CHR ''.''" "split_on (CHR ''.'') s"] c have "c = CHR ''.'' \<or> (\<exists>p \<in> set (split_on (CHR ''.'') s). c \<in> set p)"
    by (auto simp: join_split_on)
  with d show ?thesis by (auto simp: dotted_idents_def list_all_iff)
qed

lemma dotted_idents_no_plus: "dotted_idents s \<Longrightarrow> CHR ''+'' \<notin> set s"
  using dotted_idents_chars [of s "CHR ''+''"] by (auto simp: ident_char_def is_digit_def is_upper_def is_lower_def)

lemma dotted_idents_ne [simp]: "\<not> dotted_idents []"
  by (simp add: dotted_idents_def)

lemma match_metadata_print:
  "meta = [] \<or> dotted_idents meta \<Longrightarrow> match_metadata (if meta \<noteq> [] then CHR ''+'' # meta else []) = Some meta"
  by (auto simp: match_metadata_def)

lemma match_pre_print:
  assumes "pre = [] \<or> dotted_idents pre" "meta = [] \<or> dotted_idents meta"
  shows "match_pre ((if pre \<noteq> [] then CHR ''-'' # pre else []) @ (if meta \<noteq> [] then CHR ''+'' # meta else [])) =
    Some (pre, meta)"
proof (cases "pre = []")
  case True
  then show ?thesis using match_metadata_print [OF assms(2)] assms(2) by (cases "meta = []") (auto simp: match_pre_def)
next
  case False
  then have d: "dotted_idents pre" using assms(1) by simp
  let ?m = "if meta \<noteq> [] then CHR ''+'' # meta else []"
  have "\<forall>x \<in> set pre. x \<noteq> CHR ''+''" using dotted_idents_no_plus [OF d] by auto
  then have "takeWhile (\<lambda>x. x \<noteq> CHR ''+'') (pre @ ?m) = pre" "dropWhile (\<lambda>x. x \<noteq> CHR ''+'') (pre @ ?m) = ?m"
    by (simp_all add: takeWhile_append2 dropWhile_append2)
  with False d match_metadata_print [OF assms(2)] show ?thesis
    by (simp add: match_pre_def Let_def del: takeWhile_append dropWhile_append)
qed

lemma show_seg: "0 \<le> i \<Longrightarrow> show_int i = show_nat (nat i)"
  by (simp add: show_int_def)

lemma parse_show_segment: "0 \<le> i \<Longrightarrow> i < 2 ^ 31 \<Longrightarrow> parse_segment (show_int i) = Ok i"
  using atoi_show_int [of i] by (simp add: parse_segment_def ParseInt32_def)

lemma show_seg_digits: "0 \<le> i \<Longrightarrow> show_int i \<noteq> [] \<and> list_all is_digit (show_int i)"
  using show_nat_digits by (auto simp: show_seg list_all_iff)

lemma print_segments:
  assumes "length ints = 3" "\<forall>i \<in> set ints. 0 \<le> i \<and> i < 2 ^ 31"
  shows "split_on (CHR ''.'') (join ''.'' (map show_int ints)) = map show_int ints"
    "dotted_digits (join ''.'' (map show_int ints))" "\<forall>c \<in> set (join ''.'' (map show_int ints)). seg_char c"
proof -
  have dig: "is_digit c" if "x \<in> set (map show_int ints)" "c \<in> set x" for x c
    using that assms(2) show_seg_digits by (fastforce simp: list_all_iff)
  show sp: "split_on (CHR ''.'') (join ''.'' (map show_int ints)) = map show_int ints"
  proof (rule split_on_join)
    show "map show_int ints \<noteq> []" using assms(1) by auto
    show "CHR ''.'' \<notin> set x" if "x \<in> set (map show_int ints)" for x
      using dig [OF that, of "CHR ''.''"] by (auto simp: is_digit_def)
  qed
  have "p \<noteq> [] \<and> list_all is_digit p" if "p \<in> set (map show_int ints)" for p
    using that assms(2) show_seg_digits by auto
  then show "dotted_digits (join ''.'' (map show_int ints))"
    using assms(1) unfolding dotted_digits_def sp by (auto simp: list_all_iff)
  show "\<forall>c \<in> set (join ''.'' (map show_int ints)). seg_char c"
  proof
    fix c assume "c \<in> set (join ''.'' (map show_int ints))"
    then have "c = CHR ''.'' \<or> (\<exists>x \<in> set (map show_int ints). c \<in> set x)" by (rule set_join)
    with dig show "seg_char c" unfolding seg_char_def by blast
  qed
qed

lemma NewVersion_String:
  assumes "wf_version v"
  shows "NewVersion (Version_String v) = Ok (v\<lparr>v_si := 3\<rparr>)"
proof -
  let ?s = "v_segments v"
  let ?suffix = "(if v_pre v \<noteq> [] then CHR ''-'' # v_pre v else []) @ (if v_metadata v \<noteq> [] then CHR ''+'' # v_metadata v else [])"
  have w: "length ?s = 3" "\<forall>i \<in> set ?s. 0 \<le> i \<and> i < 2 ^ 31" "v_pre v = [] \<or> dotted_idents (v_pre v)"
    "v_metadata v = [] \<or> dotted_idents (v_metadata v)" using assms by (auto simp: wf_version_def)
  note p = print_segments [OF w(1,2)]
  have str: "Version_String v = join ''.'' (map show_int ?s) @ ?suffix" using w(1) by (simp add: Version_String_def)
  have "?suffix = [] \<or> \<not> seg_char (hd ?suffix)" by (auto simp: seg_char_def is_digit_def)
  from span_append [OF p(3) this] have "takeWhile seg_char (Version_String v) = join ''.'' (map show_int ?s)"
    and "dropWhile seg_char (Version_String v) = ?suffix"
    by (simp_all only: str)
  with p(2) match_pre_print [OF w(3,4)]
  have m: "match_version (Version_String v) = Some (join ''.'' (map show_int ?s), v_pre v, v_metadata v)"
    by (simp only: match_version_def Let_def if_True option.map prod.case)
  have "go_map parse_segment (map show_int ?s) = Ok ?s"
    using w(2) parse_show_segment by (auto simp: go_map_Ok_list_all2 list_all2_map1 list_all2_same)
  then show ?thesis using w(1) by (simp add: NewVersion_def m p(1))
qed

section \<open>The order\<close>

lemma string_less_total: "string_less x y \<or> x = y \<or> string_less y x"
proof (induction x y rule: string_less.induct)
  case (3 x xs y ys)
  have "(of_char x :: nat) = of_char y \<longleftrightarrow> x = y" by (rule of_char_eq_iff)
  with 3 show ?case by auto
next
  case (1 s)
  then show ?case by (cases s) auto
qed auto

lemma string_less_asym: "string_less x y \<Longrightarrow> \<not> string_less y x"
  by (induction x y rule: string_less.induct) auto

lemma comparePart_anti: "comparePart y x = - comparePart x y"
  using string_less_total [of x y] string_less_asym [of x y] by (auto simp: comparePart_def)

lemma comparePart_range: "comparePart x y \<in> {- 1, 0, 1}"
  by (simp add: comparePart_def)

lemma compare_parts_anti: "compare_parts ys xs = - compare_parts xs ys"
proof (induction xs ys rule: compare_parts.induct)
  case (2 x xs)
  then show ?case using comparePart_anti [of "[]" x] by (auto simp: Let_def)
next
  case (3 y ys)
  then show ?case using comparePart_anti [of y "[]"] by (auto simp: Let_def)
next
  case (4 x xs y ys)
  then show ?case using comparePart_anti [of y x] by (auto simp: Let_def)
qed simp

lemma compare_parts_range: "compare_parts xs ys \<in> {- 1, 0, 1}"
  using comparePart_range by (induction xs ys rule: compare_parts.induct) (auto simp: Let_def)

lemma compare_segments_order:
  assumes "length xs = length ys" "xs \<noteq> ys"
  shows "(compare_segments xs ys = Ok (- 1) \<and> compare_segments ys xs = Ok 1 \<and> (xs, ys) \<in> lexord {(x, y). x < y}) \<or>
    (compare_segments xs ys = Ok 1 \<and> compare_segments ys xs = Ok (- 1) \<and> (ys, xs) \<in> lexord {(x, y). x < y})"
  using assms by (induction xs ys rule: list_induct2) auto

text \<open>
  Bounds.  A parsed version has three segments, each in the range of a non-negative 32-bit integer, of which one
  to three were given.
\<close>

theorem version_bounds:
  assumes "NewVersion s = Ok v"
  shows "length (v_segments v) = 3 \<and> (\<forall>i \<in> set (v_segments v). 0 \<le> i \<and> i < 2 ^ 31) \<and> v_si v \<in> {1..3}"
  using NewVersion_wf [OF assms] by (simp add: wf_version_def)

lemma parse_example: "\<exists>v. NewVersion ''1.2-rc1+b'' = Ok v"
    by (simp add: NewVersion_def match_version_def match_pre_def match_metadata_def seg_char_def is_digit_def
        dotted_digits_def dotted_idents_def ident_char_def is_lower_def is_upper_def Let_def parse_segment_def
        ParseInt32_def atoi_def parse_nat_def)

theorem version_bounds_witness:
  "\<exists>v. NewVersion ''1.2-rc1+b'' = Ok v \<and> length (v_segments v) = 3"
proof -
  obtain v where "NewVersion ''1.2-rc1+b'' = Ok v" using parse_example by blast
  with version_bounds show ?thesis by blast
qed



text \<open>
  C31: Comparing parsed versions never panics and is antisymmetric; on releases (no text after a hyphen) it is the
  lexicographic order of the segments.
\<close>

theorem Compare_order:
  assumes "NewVersion s = Ok v" "NewVersion t = Ok u"
  shows "(\<exists>c \<in> {- 1, 0, 1}. Compare v u = Ok c \<and> Compare u v = Ok (- c)) \<and>
    (v_pre v = [] \<and> v_pre u = [] \<longrightarrow>
      (Compare v u = Ok (- 1) \<longleftrightarrow> (v_segments v, v_segments u) \<in> lexord {(x, y). x < y}) \<and>
      (Compare v u = Ok 0 \<longleftrightarrow> v_segments v = v_segments u))"
proof -
  note wf = NewVersion_wf [OF assms(1)] NewVersion_wf [OF assms(2)]
  have same: "v_segments v = v_segments u \<and> v_pre v = v_pre u" if "Version_String v = Version_String u"
    using NewVersion_String [OF wf(1)] NewVersion_String [OF wf(2)] that
    by (metis Version.ext_inject Version.surjective Version.update_convs(4) go.inject(1))
  show ?thesis
  proof (cases "v_segments v = v_segments u")
    case True
    have pr: "comparePrereleases x y \<in> {- 1, 0, 1}" "comparePrereleases y x = - comparePrereleases x y" for x y
      using compare_parts_range compare_parts_anti [of "split_on (CHR ''.'') y"] by (auto simp: comparePrereleases_def)
    have irrefl: "(v_segments u, v_segments u) \<notin> lexord {(x :: int, y). x < y}"
      by (rule lexord_irreflexive) simp
    show ?thesis
      using True irrefl pr(1) [of "v_pre v" "v_pre u"] pr(2) [of "v_pre v" "v_pre u"]
      by (auto simp: Compare_def Let_def)
  next
    case False
    then have "Version_String v \<noteq> Version_String u" "Version_String u \<noteq> Version_String v" using same by auto
    then have c: "Compare v u = compare_segments (v_segments v) (v_segments u)"
      "Compare u v = compare_segments (v_segments u) (v_segments v)"
      using False by (simp_all add: Compare_def)
    have asym: "\<not> ((xs, ys) \<in> lexord {(x :: int, y). x < y} \<and> (ys, xs) \<in> lexord {(x, y). x < y})" for xs ys
      using lexord_asymmetric [of "{(x :: int, y). x < y}" xs ys] by (auto simp: asym_on_def)
    have "length (v_segments v) = length (v_segments u)" using wf by (simp add: wf_version_def)
    from compare_segments_order [OF this False] asym [of "v_segments v" "v_segments u"] False show ?thesis
      unfolding c by auto
  qed
qed

theorem Compare_order_witness:
  "\<exists>v u. NewVersion ''1.2-rc1+b'' = Ok v \<and> NewVersion (Version_String v) = Ok u \<and>
     (\<exists>c \<in> {- 1, 0, 1}. Compare v u = Ok c \<and> Compare u v = Ok (- c))"
proof -
  obtain v where v: "NewVersion ''1.2-rc1+b'' = Ok v" using parse_example by blast
  have "NewVersion (Version_String v) = Ok (v\<lparr>v_si := 3\<rparr>)" by (rule NewVersion_String [OF NewVersion_wf [OF v]])
  with v Compare_order [OF v this] show ?thesis by blast
qed

text \<open>
  The comparison is not transitive on prereleases: each of these three versions is less than the next, and the
  last is less than the first.
\<close>

theorem Compare_not_transitive:
  "\<exists>a b c. NewVersion ''1.0.0-a'' = Ok a \<and> NewVersion ''1.0.0-a.5'' = Ok b \<and> NewVersion ''1.0.0-a.b'' = Ok c \<and>
     LessThan a b = Ok True \<and> LessThan b c = Ok True \<and> LessThan c a = Ok True"
proof -
  let ?v = "\<lambda>pre. \<lparr>v_metadata = [], v_pre = pre, v_segments = [1, 0, 0], v_si = 3\<rparr>"
  note parse = NewVersion_def match_version_def match_pre_def match_metadata_def seg_char_def is_digit_def
    dotted_digits_def dotted_idents_def ident_char_def is_lower_def is_upper_def Let_def parse_segment_def
    ParseInt32_def atoi_def parse_nat_def
  have "NewVersion ''1.0.0-a'' = Ok (?v ''a'')" by (simp add: parse)
  moreover have "NewVersion ''1.0.0-a.5'' = Ok (?v ''a.5'')" by (simp add: parse)
  moreover have "NewVersion ''1.0.0-a.b'' = Ok (?v ''a.b'')" by (simp add: parse)
  moreover have less: "LessThan (?v x) (?v y) = Ok True" if "x \<noteq> y" "x \<noteq> []" "y \<noteq> []" "comparePrereleases x y = - 1" for x y
    using that by (simp add: LessThan_def Compare_def Version_String_def)
  have "LessThan (?v ''a'') (?v ''a.5'') = Ok True"
    by (rule less) (simp_all add: comparePrereleases_def comparePart_def atoi_def parse_nat_def is_digit_def Let_def)
  moreover have "LessThan (?v ''a.5'') (?v ''a.b'') = Ok True"
    by (rule less) (simp_all add: comparePrereleases_def comparePart_def atoi_def parse_nat_def is_digit_def Let_def)
  moreover have "LessThan (?v ''a.b'') (?v ''a'') = Ok True"
    by (rule less) (simp_all add: comparePrereleases_def comparePart_def atoi_def parse_nat_def is_digit_def Let_def)
  ultimately show ?thesis by blast
qed

text \<open>
  A constraint whose version has a segment beyond 32 bits passes the regular expression and makes the parser
  panic.
\<close>

theorem parseSingle_panics:
  "parseSingle ''>= 2147483648'' = Panic"
  by (simp add: parseSingle_def match_constraint_def re_space_def op_char_def match_version_def match_pre_def seg_char_def
      is_digit_def dotted_digits_def Let_def Must_def NewVersion_def parse_segment_def ParseInt32_def atoi_def parse_nat_def)

end
