(* ===== verification/Rancher_Context.thy ===== *)
theory Rancher_Context
  imports Rancher_Service Go_Version Client
begin

text \<open>
  The context of \<open>rancher-compose/rancher\<close>: reading the Rancher configuration, connecting, finding or creating
  the stack (\<open>context.go\<close>), and making the project (\<open>project.go\<close>).
\<close>

section \<open>The context\<close>

text \<open>
  The Rancher context embeds the one of libcompose (\<open>rcx_core\<close>), which the project points to; both have
  an \<open>isOpen\<close> of their own.
\<close>

record rancher_context =
  rcx_core :: Context
  rcx_RancherConfig :: "string \<rightharpoonup> RancherConfig"
  rcx_RancherComposeFile :: string
  rcx_RancherComposeBytes :: "string option"
  rcx_Url :: string
  rcx_AccessKey :: string
  rcx_SecretKey :: string
  rcx_Environment :: "Stack option"
  rcx_isOpen :: bool

text \<open>
  From outside: the operating system, YAML, the conversion of the decoded services, the environment of the
  stack, and the connection to the server.
\<close>

record 'x context_env =
  xe_os :: os_env
  xe_yaml :: "string \<Rightarrow> RawServiceMap go"
  xe_convert :: "RawServiceMap \<Rightarrow> (string \<rightharpoonup> RancherConfig) go"
  xe_environmentLookup :: env_lookup
  xe_NewRancherClient :: "ClientOpts \<Rightarrow> ('x, RancherBaseClient) api_act"
  xe_server :: "'x rancher_server"
  xe_VERSION :: string

definition unmarshalBytes :: "'x context_env \<Rightarrow> string \<Rightarrow> (string \<rightharpoonup> RancherConfig) go" where
  "unmarshalBytes xe bytes =
     go_bind (xe_yaml xe bytes) (\<lambda>rawServiceMap.
     go_bind (Interpolate (xe_environmentLookup xe) rawServiceMap) (xe_convert xe))"

definition rancher_compose_file :: "'x context_env \<Rightarrow> rancher_context \<Rightarrow> string go" where
  "rancher_compose_file xe c =
     (if rcx_RancherComposeBytes c = None \<and> rcx_RancherComposeFile c = [] \<and> cx_ComposeFile (rcx_core c) \<noteq> []
      then go_bind (os_Abs (xe_os xe) (cx_ComposeFile (rcx_core c))) (\<lambda>f.
        Ok (path_Join [path_Dir f, ''rancher-compose.yml'']))
      else Ok (rcx_RancherComposeFile c))"

definition readRancherConfig :: "'x context_env \<Rightarrow> rancher_context \<Rightarrow> rancher_context go" where
  "readRancherConfig xe c =
     go_bind (rancher_compose_file xe c) (\<lambda>file.
       (let c = c\<lparr>rcx_RancherComposeFile := file\<rparr>
        in case rcx_RancherComposeBytes c of
             Some bytes \<Rightarrow> go_bind (unmarshalBytes xe bytes) (\<lambda>config. Ok (c\<lparr>rcx_RancherConfig := config\<rparr>))
           | None \<Rightarrow> (case os_ReadFile (xe_os xe) file of
               ReadNotExist _ \<Rightarrow> Ok c
             | ReadFailed e \<Rightarrow> Err e
             | ReadOk composeBytes \<Rightarrow>
                 go_bind (unmarshalBytes xe composeBytes) (\<lambda>config.
                   Ok (c\<lparr>rcx_RancherComposeBytes := Some composeBytes, rcx_RancherConfig := config\<rparr>)))))"

text \<open>Rancher's \<open>projectRegexp\<close> keeps letters, digits and hyphens; the name must not be empty.\<close>

definition rancher_name_char :: "char \<Rightarrow> bool" where
  "rancher_name_char c \<longleftrightarrow> is_upper c \<or> is_lower c \<or> is_digit c \<or> c = CHR ''-''"

definition rancher_char :: "char \<Rightarrow> char" where
  "rancher_char c = (if rancher_name_char c then c else CHR ''-'')"

definition fixUpProjectName :: "string \<Rightarrow> string go" where
  "fixUpProjectName name = (case map rancher_char (to_lower name) of
     [] \<Rightarrow> Panic
   | x # xs \<Rightarrow> Ok (if x = CHR ''_'' \<or> x = CHR ''.'' \<or> x = CHR ''-'' then CHR ''x'' # x # xs else x # xs))"

section \<open>The server\<close>

definition getSetting :: "'x context_env \<Rightarrow> string \<Rightarrow> ('x, string) api_act" where
  "getSetting xe key =
     act_bind (act_try (api (GetSetting key) (ap_GetSetting (xe_server xe) key))) (\<lambda>s.
       act_return (case s of Ok v \<Rightarrow> v | _ \<Rightarrow> []))"

text \<open>\<open>strings.TrimLeft(s, "v")\<close>; the version that \<open>checkVersion\<close> warns of, if it does.\<close>

definition newer_version :: "string \<Rightarrow> string \<Rightarrow> string option" where
  "newer_version VERSION newVersion =
     (if length newVersion \<le> 1 \<and> length VERSION \<le> 1 then None
      else (case NewVersion (dropWhile (\<lambda>c. c = CHR ''v'') VERSION) of
          Ok current \<Rightarrow>
            (let parts = split2 (CHR ''v'') newVersion;
                 newVersion = (if length parts = 2 then parts ! 1 else newVersion)
             in case NewVersion newVersion of
                  Ok toCheck \<Rightarrow> if GreaterThan toCheck current = Ok True then Some newVersion else None
                | _ \<Rightarrow> None)
        | _ \<Rightarrow> None))"

definition checkVersion :: "'x context_env \<Rightarrow> ('x, string option) api_act" where
  "checkVersion xe = act_bind (getSetting xe ''rancher.compose.version'') (\<lambda>newVersion.
     act_return (newer_version (xe_VERSION xe) newVersion))"

text \<open>\<open>strings.EqualFold\<close>, on ASCII text.\<close>

definition EqualFold :: "string \<Rightarrow> string \<Rightarrow> bool" where
  "EqualFold s t \<longleftrightarrow> to_lower s = to_lower t"

definition find_stack :: "string \<Rightarrow> Stack list \<Rightarrow> Stack option" where
  "find_stack name envs = find (\<lambda>env. EqualFold name (stk_Name env)) envs"

definition loadEnv :: "'x context_env \<Rightarrow> rancher_context \<Rightarrow> ('x, rancher_context) api_act" where
  "loadEnv xe c =
     (let name = cx_ProjectName (rcx_core c); found = (\<lambda>env. act_return (c\<lparr>rcx_Environment := Some env\<rparr>))
      in if rcx_Environment c \<noteq> None then act_return c
         else act_bind (api (ListStacks (Some name)) (ap_ListStacks (xe_server xe) (Some name))) (\<lambda>envs.
           case find_stack name envs of
             Some env \<Rightarrow> found env
           | None \<Rightarrow> act_bind (api (ListStacks None) (ap_ListStacks (xe_server xe) None)) (\<lambda>envs.
               case find_stack name envs of
                 Some env \<Rightarrow> found env
               | None \<Rightarrow> act_bind (api (CreateStack name) (ap_CreateStack (xe_server xe) name)) found)))"

definition can_create_stack :: "RancherBaseClient \<Rightarrow> bool" where
  "can_create_stack client \<longleftrightarrow> (case rb_Types client ''environment'' of
     None \<Rightarrow> False
   | Some schema \<Rightarrow> rancher_Contains (sch_CollectionMethods schema) ''POST'')"

definition rancher_open :: "'x context_env \<Rightarrow> rancher_context \<Rightarrow> ('x, rancher_context) api_act" where
  "rancher_open xe c =
     (if rcx_isOpen c then act_return c
      else act_bind (act_lift (fixUpProjectName (cx_ProjectName (rcx_core c)))) (\<lambda>name.
        act_bind (act_lift (readRancherConfig xe (c\<lparr>rcx_core := (rcx_core c)\<lparr>cx_ProjectName := name\<rparr>\<rparr>))) (\<lambda>c.
          if rcx_Url c = [] then act_fail ''RANCHER_URL is not set''
          else act_bind (xe_NewRancherClient xe \<lparr>co_Url = rcx_Url c, co_AccessKey = rcx_AccessKey c,
                co_SecretKey = rcx_SecretKey c\<rparr>) (\<lambda>client.
            if \<not> can_create_stack client
            then act_fail (''Can not create a stack, check API key ['' @ rcx_AccessKey c @ ''] for ['' @ rcx_Url c @ '']'')
            else act_bind (checkVersion xe) (\<lambda>_.
              act_bind (loadEnv xe c) (\<lambda>c. act_return (c\<lparr>rcx_isOpen := True\<rparr>)))))))"

text \<open>
  \<open>NewProject\<close>: the project points to the libcompose context, so what \<open>open\<close> writes to it is seen through the
  project.  \<open>None\<close> is the parser's fuel exhausted.
\<close>

definition rancher_NewProject :: "'x context_env \<Rightarrow> project_env \<Rightarrow> rancher_context \<Rightarrow>
    ('x, Project \<times> rancher_context \<times> SidekickInfo) api_proc" where
  "rancher_NewProject xe pe c w = (case Parse pe (NewProject (rcx_core c) 0) of
     None \<Rightarrow> None
   | Some r \<Rightarrow> Some (act_bind (act_lift r) (\<lambda>p.
       act_bind (rancher_open xe (c\<lparr>rcx_core := pr_context p\<rparr>)) (\<lambda>c.
         act_return (p\<lparr>pr_context := rcx_core c, pr_Name := cx_ProjectName (rcx_core c)\<rparr>, c,
           NewSidekickInfo (pr_Configs p)))) w))"

section \<open>The name of the stack\<close>

lemma rancher_char_idem: "rancher_char (lower_char (rancher_char (lower_char c))) = rancher_char (lower_char c)"
proof -
  have "lower_char (rancher_char (lower_char c)) = rancher_char (lower_char c)"
    by (simp add: rancher_char_def) (simp add: lower_char_def is_upper_def)
  then show ?thesis by (simp add: rancher_char_def rancher_name_char_def)
qed

lemma rancher_char_ok: "rancher_name_char (rancher_char c)"
  by (simp add: rancher_char_def rancher_name_char_def)

lemma rancher_char_not_upper: "\<not> is_upper (rancher_char (lower_char c))"
  using lower_char_not_upper by (auto simp: rancher_char_def is_upper_def)

text \<open>
  The name of the stack.  For a name that is not empty, as libcompose guarantees, the fixed name consists of small
  letters, digits and hyphens and does not start with a hyphen, and fixing it again changes nothing; an
  empty name panics.
\<close>

theorem fixUpProjectName_valid:
  "(name = [] \<and> fixUpProjectName name = Panic) \<or>
   (\<exists>n. fixUpProjectName name = Ok n \<and> n \<noteq> [] \<and> hd n \<noteq> CHR ''-'' \<and>
      list_all (\<lambda>c. rancher_name_char c \<and> \<not> is_upper c) n \<and> fixUpProjectName n = Ok n)"
proof (cases name)
  case (Cons c cs)
  let ?f = "\<lambda>c. rancher_char (lower_char c)"
  have fx: "?f (CHR ''x'') = CHR ''x''" by (simp add: lower_char_def is_upper_def rancher_char_def rancher_name_char_def is_lower_def)
  have ok: "rancher_name_char (?f c) \<and> \<not> is_upper (?f c)" for c
    using rancher_char_ok rancher_char_not_upper by blast
  have ne: "?f c \<noteq> CHR ''_'' \<and> ?f c \<noteq> CHR ''.''"
    using rancher_char_ok [of "lower_char c"] by (auto simp: rancher_name_char_def is_upper_def is_lower_def is_digit_def)
  have x: "rancher_name_char (CHR ''x'') \<and> \<not> is_upper (CHR ''x'')" by (simp add: rancher_name_char_def is_lower_def is_upper_def)
  let ?n = "if ?f c = CHR ''-'' then CHR ''x'' # ?f c # map ?f cs else ?f c # map ?f cs"
  have n: "fixUpProjectName name = Ok ?n" using Cons ne by (simp add: fixUpProjectName_def to_lower_def comp_def)
  have "?f (CHR ''-'') = CHR ''-''" by (simp add: lower_char_def is_upper_def rancher_char_def rancher_name_char_def)
  then have "map ?f ?n = ?n" by (simp add: fx rancher_char_idem)
  then have "fixUpProjectName ?n = Ok ?n" using ne by (auto simp: fixUpProjectName_def to_lower_def comp_def split: if_splits)
  moreover have "list_all (\<lambda>c. rancher_name_char c \<and> \<not> is_upper c) ?n"
    using ok x by (simp add: list_all_iff) (simp add: rancher_name_char_def is_upper_def)
  moreover have "?n \<noteq> [] \<and> hd ?n \<noteq> CHR ''-''" by simp
  ultimately show ?thesis using n by blast
qed (simp add: fixUpProjectName_def to_lower_def)


definition demo_context :: "string \<Rightarrow> rancher_context" where
  "demo_context name = \<lparr>rcx_core = \<lparr>cx_ComposeFile = [], cx_ComposeBytes = Some [], cx_ProjectName = name, cx_isOpen = True,
       cx_IgnoreMissingConfig = False\<rparr>, rcx_RancherConfig = Map.empty, rcx_RancherComposeFile = [],
     rcx_RancherComposeBytes = Some [], rcx_Url = ''http://cattle'', rcx_AccessKey = [], rcx_SecretKey = [],
     rcx_Environment = None, rcx_isOpen = False\<rparr>"

text \<open>The environment of the witnesses: stacks by name, and any key may create stacks.\<close>

definition demo_stacks :: "(Stack list) rancher_server" where
  "demo_stacks = \<lparr>ap_ListServices = (\<lambda>e n x. (Ok [Service_zero\<lparr>rsv_Name := n\<rparr>], x)),
     ap_ListStacks = (\<lambda>n x. (Ok (case n of None \<Rightarrow> x | Some n \<Rightarrow> filter (\<lambda>s. stk_Name s = n) x), x)),
     ap_CreateStack = (\<lambda>n x. (Ok \<lparr>stk_Id = ''1e9'', stk_Name = n\<rparr>, x @ [\<lparr>stk_Id = ''1e9'', stk_Name = n\<rparr>])),
     ap_CreateExternalService = (\<lambda>s x. (Ok (), x)), ap_CreateDnsService = (\<lambda>s x. (Ok (), x)),
     ap_CreateLoadBalancerService = (\<lambda>s x. (Ok (), x)), ap_CreateNormalService = (\<lambda>s x. (Ok Service_zero, x)),
     ap_SetServiceLinks = (\<lambda>s ls x. (Ok (), x)), ap_Activate = (\<lambda>s x. (Ok s, x)), ap_Deactivate = (\<lambda>s x. (Ok s, x)),
     ap_DeleteService = (\<lambda>s x. (Ok (), x)), ap_ScaleService = (\<lambda>s n x. (Ok s, x)), ap_ReloadService = (\<lambda>s x. (Ok s, x)),
     ap_PostTransform = (\<lambda>u c x. (Err [], x)), ap_GetInstances = (\<lambda>s x. (Ok [], x)),
     ap_RestartContainer = (\<lambda>i x. (Ok i, x)), ap_ReloadInstance = (\<lambda>i x. (Ok i, x)),
     ap_ListCertificates = (\<lambda>n x. (Ok [], x)), ap_GetSetting = (\<lambda>n x. (Ok [], x)),
     ap_CreatePullTask = (\<lambda>t x. (Ok t, x)), ap_ReloadPullTask = (\<lambda>t x. (Ok t, x))\<rparr>"

definition demo_client :: RancherBaseClient where
  "demo_client = \<lparr>rb_Opts = \<lparr>co_Url = [], co_AccessKey = [], co_SecretKey = []\<rparr>,
     rb_Types = [''environment'' \<mapsto> \<lparr>sch_Id = ''environment'', sch_Links = Map.empty, sch_PluralName = [],
       sch_ResourceMethods = [], sch_CollectionMethods = [''POST'']\<rparr>]\<rparr>"

definition demo_xe :: "Stack list context_env" where
  "demo_xe = \<lparr>xe_os = \<lparr>os_Stdin = Ok [], os_ReadFile = (\<lambda>f. ReadNotExist []), os_Getenv = (\<lambda>k. []), os_Abs = Ok, os_Getwd = Ok []\<rparr>,
     xe_yaml = (\<lambda>b. Ok []), xe_convert = (\<lambda>m. Ok Map.empty), xe_environmentLookup = (\<lambda>k s c. []),
     xe_NewRancherClient = (\<lambda>o'. act_return demo_client), xe_server = demo_stacks, xe_VERSION = []\<rparr>"


end
