(* ===== verification/Handlers.thy ===== *)
theory Handlers
  imports Event_Router Rancher_Context Rancher_Laws
begin

text \<open>
  The executor itself, \<open>handlers/\<close> and \<open>main.go\<close>: the handler of \<open>environment.create\<close> events, which looks the
  stack up, builds its project, creates the services and replies to the event, and the table of handlers
  that \<open>main\<close> registers with the router.
\<close>

section \<open>Replies\<close>

text \<open>The world of a handler: the replies it has posted, and the world of the Rancher API.\<close>

record 'x handler_world =
  hw_published :: "Publish list"
  hw_rancher :: "'x rancher_world"

text \<open>The stack as the API returns it; the values of its environment are their \<open>%v\<close> texts.\<close>

record Environment =
  env_Name :: string
  env_AccountId :: string
  env_DockerCompose :: string
  env_RancherCompose :: string
  env_Environment :: "string \<rightharpoonup> string"

text \<open>
  \<open>hv_ById\<close> and \<open>hv_Publish\<close> are the calls of the generated client; \<open>hv_pe\<close> and \<open>hv_xe\<close> what the project and
  the Rancher context read from outside; \<open>hv_opts\<close> are the options of the router's client.
\<close>

record 'x handler_env =
  hv_ById :: "string \<Rightarrow> ('x, Environment) act"
  hv_Publish :: "Publish \<Rightarrow> ('x, unit) act"
  hv_pe :: project_env
  hv_xe :: "'x context_env"
  hv_opts :: ClientOpts
  hv_SchemasLink :: string
  hv_NowMillis :: int
  hv_order :: "(Link \<times> string) list \<Rightarrow> (Link \<times> string) list"

definition newReply :: "Event_Router.Event \<Rightarrow> Publish" where
  "newReply event = \<lparr>pb_Name = evt_ReplyTo event, pb_PreviousIds = [evt_Id event], pb_Transitioning = [],
     pb_TransitioningMessage = []\<rparr>"

definition on_server :: "('x, 'a) act \<Rightarrow> ('x handler_world, 'a) act" where
  "on_server m w = (case m (rw_server (hw_rancher w)) of
     (r, x) \<Rightarrow> (r, w\<lparr>hw_rancher := (hw_rancher w)\<lparr>rw_server := x\<rparr>\<rparr>))"

definition publishReply :: "'x handler_env \<Rightarrow> Publish \<Rightarrow> ('x handler_world, unit) act" where
  "publishReply hv reply w = on_server (hv_Publish hv reply) (w\<lparr>hw_published := hw_published w @ [reply]\<rparr>)"

definition emptyReply :: "'x handler_env \<Rightarrow> Event_Router.Event \<Rightarrow> ('x handler_world, unit) act" where
  "emptyReply hv event = publishReply hv (newReply event)"

definition transitioning_reply :: "string \<Rightarrow> Event_Router.Event \<Rightarrow> Publish" where
  "transitioning_reply msg event = (newReply event)\<lparr>pb_Transitioning := ''yes'', pb_TransitioningMessage := msg\<rparr>"

definition publishTransitioningReply :: "'x handler_env \<Rightarrow> string \<Rightarrow> Event_Router.Event \<Rightarrow> ('x handler_world, unit) act" where
  "publishTransitioningReply hv msg event = act_ignore (publishReply hv (transitioning_reply msg event))"

section \<open>The project of a stack\<close>

definition stack_lookup :: "Environment \<Rightarrow> env_lookup" where
  "stack_lookup env = MapEnvLookup_Lookup (\<lambda>v. v) \<lparr>Env = env_Environment env\<rparr>"

definition stack_pe :: "'x handler_env \<Rightarrow> Environment \<Rightarrow> project_env" where
  "stack_pe hv env = (hv_pe hv)\<lparr>pe_envLookup := Some (stack_lookup env),
     pe_compose := (pe_compose (hv_pe hv))\<lparr>ce_environmentLookup := stack_lookup env, ce_configLookup := None\<rparr>\<rparr>"

definition stack_xe :: "'x handler_env \<Rightarrow> Environment \<Rightarrow> 'x context_env" where
  "stack_xe hv env = (hv_xe hv)\<lparr>xe_environmentLookup := stack_lookup env\<rparr>"

definition stack_context :: "'x handler_env \<Rightarrow> Environment \<Rightarrow> rancher_context" where
  "stack_context hv env =
     \<lparr>rcx_core = \<lparr>cx_ComposeFile = [], cx_ComposeBytes = Some (env_DockerCompose env), cx_ProjectName = env_Name env,
        cx_isOpen = False, cx_IgnoreMissingConfig = False\<rparr>,
      rcx_RancherConfig = Map.empty, rcx_RancherComposeFile = [], rcx_RancherComposeBytes = Some (env_RancherCompose env),
      rcx_Url = co_Url (hv_opts hv) @ ''/projects/'' @ env_AccountId env @ ''/schemas'',
      rcx_AccessKey = co_AccessKey (hv_opts hv), rcx_SecretKey = co_SecretKey (hv_opts hv),
      rcx_Environment = None, rcx_isOpen = False\<rparr>"

text \<open>
  \<open>constructProject\<close>: the project is parsed by \<open>NewProject\<close> and once more with the listener (the channel 1)
  added.
\<close>

definition constructProject :: "'x handler_env \<Rightarrow> Environment \<Rightarrow> ('x, Project \<times> rancher_context \<times> SidekickInfo) api_proc" where
  "constructProject hv env =
     proc_bind (rancher_NewProject (stack_xe hv env) (stack_pe hv env) (stack_context hv env)) (\<lambda>(p, c, info) w.
       map_option (\<lambda>r. (go_bind r (\<lambda>p. Ok (p, c, info)), w)) (Parse (stack_pe hv env) (AddListener 1 p)))"

text \<open>The context of the services of the stack.\<close>

definition services_env :: "'x handler_env \<Rightarrow> Environment \<Rightarrow> Project \<Rightarrow> rancher_context \<Rightarrow> SidekickInfo \<Rightarrow> 'x rancher_env" where
  "services_env hv env p c info =
     \<lparr>rx_ProjectName = cx_ProjectName (rcx_core c),
      rx_Environment = (case rcx_Environment c of Some e \<Rightarrow> e | None \<Rightarrow> \<lparr>stk_Id = [], stk_Name = []\<rparr>),
      rx_RancherConfig = rcx_RancherConfig c, rx_Configs = map_of (pr_Configs p), rx_SidekickInfo = info,
      rx_SchemasLink = hv_SchemasLink hv, rx_Upload = None, rx_PullCached = False,
      rx_NowMillis = hv_NowMillis hv, rx_server = xe_server (hv_xe hv), rx_order = hv_order hv\<rparr>"

fun werr_of :: "unit go \<Rightarrow> werr" where
  "werr_of (Ok x) = NoErr"
| "werr_of (Err e) = OtherErr e"
| "werr_of Panic = OtherErr []"

text \<open>
  The configuration \<open>CreateService\<close> gives a service, and what \<open>Create\<close> may return for it: nil for a sidekick,
  otherwise the result of some run of \<open>RancherService_Create\<close> that did not panic, in whatever state the
  other services' calls left the server.  A name without a service is never called.
\<close>

definition service_of :: "project_env \<Rightarrow> Project \<Rightarrow> string \<Rightarrow> RancherService go" where
  "service_of pe p name = CreateService pe (\<lambda>n c. Ok (NewService n c)) name p"

definition creates_as :: "'x rancher_env \<Rightarrow> project_env \<Rightarrow> Project \<Rightarrow> SidekickInfo \<Rightarrow> (string \<Rightarrow> svc_op \<Rightarrow> werr) \<Rightarrow> bool" where
  "creates_as rx pe p info call \<longleftrightarrow> (\<forall>n. case service_of pe p n of
     Ok r \<Rightarrow>
       (if is_sidekick info n then call n Svc_Create = NoErr
        else (\<exists>w res w'. RancherService_Create rx r w = Some (res, w') \<and> res \<noteq> Panic \<and> call n Svc_Create = werr_of res))
   | _ \<Rightarrow> call n Svc_Create = NoErr)"

definition project_Create :: "'x rancher_env \<Rightarrow> project_env \<Rightarrow> Project \<Rightarrow> SidekickInfo \<Rightarrow> unit go \<Rightarrow> bool" where
  "project_Create rx pe p info r \<longleftrightarrow> (\<exists>call reloads err p'. creates_as rx pe p info call \<and>
     perform Svc_Create call (\<lambda>n. CreateService pe (factory_Create (pr_Configs p) info) n p) [] reloads p err p' \<and>
     r = (case err of NoErr \<Rightarrow> Ok () | ErrRestart \<Rightarrow> Err ''Restart execution'' | OtherErr e \<Rightarrow> Err e))"

section \<open>The handler\<close>

text \<open>
  \<open>createEnvironment\<close>, a relation: the creation of the services runs in any order, and leaves the server in some
  state (\<open>rw\<close>).  It relates nothing where the parser or the creation does not return.  \<open>ById\<close> never returns nil
  without an error, so the branch for a missing stack has no rule.
\<close>

inductive createEnvironment :: "'x handler_env \<Rightarrow> Event_Router.Event \<Rightarrow> 'x handler_world \<Rightarrow> unit go \<Rightarrow> 'x handler_world \<Rightarrow> bool"
  for hv event w where
  lookup_failed: "on_server (hv_ById hv (evt_ResourceId event)) w = (Err e, w1) \<Longrightarrow>
    createEnvironment hv event w (Err e) w1"
| no_compose: "on_server (hv_ById hv (evt_ResourceId event)) w = (Ok env, w1) \<Longrightarrow> env_DockerCompose env = [] \<Longrightarrow>
    emptyReply hv event w1 = (r, w2) \<Longrightarrow> createEnvironment hv event w r w2"
| construct_failed: "on_server (hv_ById hv (evt_ResourceId event)) w = (Ok env, w1) \<Longrightarrow> env_DockerCompose env \<noteq> [] \<Longrightarrow>
    constructProject hv env (hw_rancher w1) = Some (Err e, rw) \<Longrightarrow>
    createEnvironment hv event w (Err e) (w1\<lparr>hw_rancher := rw\<rparr>)"
| create_failed: "on_server (hv_ById hv (evt_ResourceId event)) w = (Ok env, w1) \<Longrightarrow> env_DockerCompose env \<noteq> [] \<Longrightarrow>
    constructProject hv env (hw_rancher w1) = Some (Ok (p, c, info), rw) \<Longrightarrow>
    publishTransitioningReply hv ''Creating stack'' event (w1\<lparr>hw_rancher := rw\<rparr>) = (Ok (), w2) \<Longrightarrow>
    project_Create (services_env hv env p c info) (stack_pe hv env) p info (Err e) \<Longrightarrow>
    createEnvironment hv event w (Err e) (w2\<lparr>hw_rancher := rw'\<rparr>)"
| created: "on_server (hv_ById hv (evt_ResourceId event)) w = (Ok env, w1) \<Longrightarrow> env_DockerCompose env \<noteq> [] \<Longrightarrow>
    constructProject hv env (hw_rancher w1) = Some (Ok (p, c, info), rw) \<Longrightarrow>
    publishTransitioningReply hv ''Creating stack'' event (w1\<lparr>hw_rancher := rw\<rparr>) = (Ok (), w2) \<Longrightarrow>
    project_Create (services_env hv env p c info) (stack_pe hv env) p info (Ok ()) \<Longrightarrow>
    emptyReply hv event (w2\<lparr>hw_rancher := rw'\<rparr>) = (r, w3) \<Longrightarrow>
    createEnvironment hv event w r w3"

inductive_cases createEnvironmentE: "createEnvironment hv event w r w'"

text \<open>\<open>CreateEnvironment\<close> posts the error as a transitioning reply and returns it.\<close>

inductive CreateEnvironment :: "'x handler_env \<Rightarrow> Event_Router.Event \<Rightarrow> 'x handler_world \<Rightarrow> unit go \<Rightarrow> 'x handler_world \<Rightarrow> bool"
  for hv event w where
  failed: "createEnvironment hv event w (Err e) w1 \<Longrightarrow>
    publishTransitioningReply hv e event w1 = (Ok (), w2) \<Longrightarrow> CreateEnvironment hv event w (Err e) w2"
| done': "createEnvironment hv event w (Ok ()) w1 \<Longrightarrow> CreateEnvironment hv event w (Ok ()) w1"

inductive_cases CreateEnvironmentE: "CreateEnvironment hv event w r w'"

section \<open>The executor\<close>

datatype handler = Handle_CreateEnvironment | Handle_ping

definition main_eventHandlers :: "(string \<times> handler) list" where
  "main_eventHandlers = [(''environment.create'', Handle_CreateEnvironment), (''ping'', Handle_ping)]"

definition router_name :: string where
  "router_name = ''rancher-compose-executor''"

definition main_router :: "string \<Rightarrow> string \<Rightarrow> string \<Rightarrow> 'c go \<Rightarrow> (EventRouter \<times> 'c) go" where
  "main_router CATTLE_URL CATTLE_ACCESS_KEY CATTLE_SECRET_KEY connect =
     NewEventRouter router_name 2000 CATTLE_URL CATTLE_ACCESS_KEY CATTLE_SECRET_KEY None connect ''environment'' 10"

text \<open>What a worker of the executor may get from the handler of an event.\<close>

definition executor_outcome :: "'x handler_env \<Rightarrow> Event_Router.Event \<Rightarrow> unit go option \<Rightarrow> bool" where
  "executor_outcome hv event r \<longleftrightarrow> (case start_handlers router_name main_eventHandlers (evt_Name event) of
     None \<Rightarrow> r = None
   | Some Handle_ping \<Rightarrow> r = Some (Ok ())
   | Some Handle_CreateEnvironment \<Rightarrow> (\<exists>w q w'. CreateEnvironment hv event w q w' \<and> r = Some q))"

definition executor_env :: "'x handler_env \<Rightarrow> (string \<Rightarrow> Event_Router.Event option go) \<Rightarrow> worker_env" where
  "executor_env hv decode = \<lparr>wk_decode = decode, wk_outcome = executor_outcome hv\<rparr>"

section \<open>What the handler replies\<close>

lemma on_server_published [simp]: "hw_published (snd (on_server m w)) = hw_published w"
  by (simp add: on_server_def split: prod.split)

lemma publishReply_published: "publishReply hv reply w = (r, w') \<Longrightarrow> hw_published w' = hw_published w @ [reply]"
  unfolding publishReply_def
  using on_server_published [of "hv_Publish hv reply" "w\<lparr>hw_published := hw_published w @ [reply]\<rparr>"] by simp

lemma transitioning_published:
  "publishTransitioningReply hv msg event w = (r, w') \<Longrightarrow>
     hw_published w' = hw_published w @ [transitioning_reply msg event]"
  using publishReply_published [of hv "transitioning_reply msg event" w]
  by (auto simp: publishTransitioningReply_def act_ignore_def act_bind_def act_try_def split: prod.splits go.splits)

lemma by_id_published: "on_server m w = (r, w') \<Longrightarrow> hw_published w' = hw_published w"
  using on_server_published [of m w] by simp

lemma createEnvironment_replies:
  assumes "createEnvironment hv event w r w'"
  shows "\<exists>pre fin. hw_published w' = hw_published w @ pre @ fin \<and>
    pre \<in> {[], [transitioning_reply ''Creating stack'' event]} \<and> fin \<in> {[], [newReply event]} \<and>
    (r = Ok () \<longrightarrow> fin = [newReply event])"
  using assms
proof cases
  case (no_compose env w1)
  then have "hw_published w' = hw_published w @ [] @ [newReply event]"
    using publishReply_published [of hv "newReply event" w1 r w'] by_id_published by (simp add: emptyReply_def)
  then show ?thesis by blast
next
  case (create_failed env w1 p c info rw w2 e rw')
  then have "hw_published w' = hw_published w @ [transitioning_reply ''Creating stack'' event] @ []"
    using transitioning_published [OF create_failed(6)] by_id_published by simp
  then show ?thesis using create_failed(1) by blast
next
  case (created env w1 p c info rw w2 rw')
  then have "hw_published w' = hw_published w @ [transitioning_reply ''Creating stack'' event] @ [newReply event]"
    using transitioning_published [OF created(4)] publishReply_published [of hv "newReply event"] by_id_published
    by (simp add: emptyReply_def)
  then show ?thesis by blast
qed (use by_id_published in fastforce)+

section \<open>The services of a project\<close>

lemma AddConfig_distinct:
  "go_fold (\<lambda>(name, config). AddConfig name config) configs p = Ok p' \<Longrightarrow> distinct (map fst (pr_Configs p)) \<Longrightarrow>
     distinct (map fst (pr_Configs p'))"
proof (induction configs arbitrary: p)
  case (Cons nc configs)
  obtain n c where nc: "nc = (n, c)" by fastforce
  have notify: "pr_Configs q = pr_Configs p" if "Notify ev x d p = Ok q" for ev x d p q
  proof -
    have "pr_Configs q = pr_Configs p" if
      "go_fold (\<lambda>l p. if l \<in> pr_closed p then Panic else Ok (p\<lparr>pr_sent := pr_sent p @ [(l, e)]\<rparr>)) ls p = Ok q" for ls e p q
      using that by (induction ls arbitrary: p) (auto split: if_splits)
    with that show ?thesis by (auto simp: Notify_def Let_def split: if_splits)
  qed
  from Cons.prems nc obtain q where q: "Notify EventServiceAdd n None p = Ok q"
    "go_fold (\<lambda>(name, config). AddConfig name config) configs
       (q\<lparr>pr_Configs := alist_set n c (pr_Configs q), pr_reload := pr_reload q @ [n]\<rparr>) = Ok p'"
    by (auto simp: AddConfig_def [of n] go_bind_Ok_iff)
  show ?case by (rule Cons.IH [OF q(2)]) (simp add: notify [OF q(1)] Cons.prems(2))
qed simp

lemma Parse_distinct:
  assumes "Parse pe p = Some (Ok p')" "distinct (map fst (pr_Configs p))"
  shows "distinct (map fst (pr_Configs p'))"
  using assms by (auto simp: Parse_def Load_def Let_def go_bind_Ok_iff split: go.splits option.splits
      dest!: AddConfig_distinct)

lemma constructProject_distinct:
  assumes "constructProject hv env rw = Some (Ok (p, c, info), rw')"
  shows "distinct (map fst (pr_Configs p))"
proof -
  from assms obtain p0 c0 w0 where n: "rancher_NewProject (stack_xe hv env) (stack_pe hv env) (stack_context hv env) rw = Some (Ok (p0, c0, info), w0)"
    and p: "Parse (stack_pe hv env) (AddListener 1 p0) = Some (Ok p)"
    by (auto simp: constructProject_def proc_bind_def go_bind_Ok_iff split: option.splits prod.splits go.splits)
  from n obtain p1 where "Parse (stack_pe hv env) (NewProject (rcx_core (stack_context hv env)) 0) = Some (Ok p1)"
    "pr_Configs p0 = pr_Configs p1"
    by (auto simp: rancher_NewProject_def act_bind_Ok_iff split: option.splits)
  then have "distinct (map fst (pr_Configs p0))" using Parse_distinct by (fastforce simp: NewProject_def)
  then show ?thesis by (intro Parse_distinct [OF p]) (simp add: AddListener_def)
qed

lemma service_view_optional:
  assumes "\<not> is_sidekick info n" "CreateService pe (factory_Create configs info) n p = Ok v" "dep \<in> set (sv_DependentServices v)"
  shows "rel_Optional dep"
  using assms by (auto simp: CreateService_def factory_Create_def Let_def RancherService_deps_optional split: option.splits)

lemma project_well_behaved:
  assumes "\<forall>n. \<not> is_sidekick info n" "set names = fst ` set (pr_Configs p)" "\<forall>n. call n op \<noteq> ErrRestart" "op \<noteq> Svc_Up"
  shows "well_behaved op call (\<lambda>n. CreateService pe (factory_Create (pr_Configs p) info) n p) names"
  unfolding well_behaved_def
proof (intro conjI ballI)
  fix n assume "n \<in> set names"
  then obtain c where "map_of (pr_Configs p) n = Some c" using assms(2) by (metis map_of_eq_None_iff not_None_eq)
  then have "\<exists>v. CreateService pe (factory_Create (pr_Configs p) info) n p = Ok v"
    by (simp add: CreateService_def factory_Create_def Let_def)
  then show "\<exists>v. CreateService pe (factory_Create (pr_Configs p) info) n p = Ok v \<and>
      (\<forall>dep \<in> set (sv_DependentServices v). rel_Optional dep)"
    using service_view_optional assms(1) by blast
qed (use assms in auto)

lemma service_of_Ok: "n \<in> fst ` set (pr_Configs p) \<Longrightarrow> \<exists>r. service_of pe p n = Ok r"
proof -
  assume "n \<in> fst ` set (pr_Configs p)"
  then obtain c where "map_of (pr_Configs p) n = Some c" by (metis map_of_eq_None_iff not_None_eq)
  then show ?thesis by (simp add: service_of_def CreateService_def Let_def)
qed

lemma werr_of_no_restart [simp]: "werr_of res \<noteq> ErrRestart"
  by (cases res) auto

lemma creates_asD:
  "creates_as rx pe p info call \<Longrightarrow> service_of pe p n = Ok r \<Longrightarrow> \<not> is_sidekick info n \<Longrightarrow>
     \<exists>w res w'. RancherService_Create rx r w = Some (res, w') \<and> res \<noteq> Panic \<and> call n Svc_Create = werr_of res"
  "creates_as rx pe p info call \<Longrightarrow> (\<And>r. service_of pe p n \<noteq> Ok r) \<Longrightarrow> call n Svc_Create = NoErr"
  unfolding creates_as_def by (drule spec [of _ n]; cases "service_of pe p n"; auto)+

lemma creates_as_no_restart:
  assumes "creates_as rx pe p info call"
  shows "call n Svc_Create \<noteq> ErrRestart"
proof (cases "\<exists>r. service_of pe p n = Ok r")
  case True
  then obtain r where r: "service_of pe p n = Ok r" by blast
  show ?thesis
  proof (cases "is_sidekick info n")
    case True
    with r spec [OF assms [unfolded creates_as_def], of n] show ?thesis by simp
  next
    case False
    from creates_asD(1) [OF assms r this] obtain res where "call n Svc_Create = werr_of res" by blast
    then show ?thesis by simp
  qed
next
  case False
  then have "call n Svc_Create = NoErr" by (intro creates_asD(2) [OF assms]) auto
  then show ?thesis by simp
qed

lemma project_Create_all:
  assumes "project_Create rx pe p info (Ok ())" "\<forall>n. \<not> is_sidekick info n" "n \<in> fst ` set (pr_Configs p)"
  shows "\<exists>r u u'. service_of pe p n = Ok r \<and> RancherService_Create rx r u = Some (Ok (), u')"
proof -
  from assms(1) obtain call reloads p' names evs where c: "creates_as rx pe p info call"
    and names: "set names = fst ` set (pr_Configs p)"
    and run: "forEach Svc_Create call (\<lambda>n. CreateService pe (factory_Create (pr_Configs p) info) n p) [] names reloads NoErr evs"
    unfolding project_Create_def perform_def by (metis (no_types, lifting) go.distinct(1) werr.exhaust werr.simps(8-10))
  have w: "well_behaved Svc_Create call (\<lambda>n. CreateService pe (factory_Create (pr_Configs p) info) n p) names"
    by (rule project_well_behaved [OF assms(2) names]) (simp_all add: creates_as_no_restart [OF c])
  from well_behaved_truthful [OF w run] names assms(3) have ok: "call n Svc_Create = NoErr"
    by (auto simp: isSelected_def)
  obtain r where r: "service_of pe p n = Ok r" using service_of_Ok [OF assms(3)] by blast
  from creates_asD(1) [OF c r] assms(2) ok obtain u res u' where
    u: "RancherService_Create rx r u = Some (res, u')" "res \<noteq> Panic" "werr_of res = NoErr" by force
  then have "RancherService_Create rx r u = Some (Ok (), u')" by (cases res) auto
  with r show ?thesis by blast
qed

section \<open>Properties\<close>

text \<open>
  C7: The replies to an event.  All of them go to the event's reply address with its identifier.  They are at most the
  announcement of the creation, then at most one final reply that is not in transition, then, exactly when
  the handler fails, its error as a transitioning reply; a handler that succeeds has posted the final reply.
\<close>

theorem handler_replies:
  assumes "CreateEnvironment hv event w r w'"
  shows "\<exists>pre fin. hw_published w' = hw_published w @ pre @ fin @
      (case r of Err e \<Rightarrow> [transitioning_reply e event] | _ \<Rightarrow> []) \<and>
    pre \<in> {[], [transitioning_reply ''Creating stack'' event]} \<and> fin \<in> {[], [newReply event]} \<and>
    (r = Ok () \<longrightarrow> fin = [newReply event])"
  using assms
proof cases
  case (failed e w1)
  from createEnvironment_replies [OF failed(2)] obtain pre fin where p: "hw_published w1 = hw_published w @ pre @ fin"
    "pre \<in> {[], [transitioning_reply ''Creating stack'' event]}" "fin \<in> {[], [newReply event]}" by blast
  have "hw_published w' = hw_published w @ pre @ fin @ [transitioning_reply e event]"
    using transitioning_published [OF failed(3)] p(1) by simp
  with p(2,3) failed(1) show ?thesis by (intro exI [of _ pre] exI [of _ fin]) simp
next
  case done'
  from createEnvironment_replies [OF done'(2)] done'(1) show ?thesis by auto
qed


text \<open>
  C8: What the router reports.  In the running executor, however messages and workers interleave, an error reply is
  published only for an event named \<open>environment.create\<close> with the executor's suffix, and its text is the
  error that some run of the handler returned for that event.
\<close>

theorem executor_error_replies:
  assumes "router_reachable (executor_env hv decode) n s" "reply \<in> set (rt_published s)"
  shows "\<exists>event err w w'. reply = error_reply event err \<and>
    evt_Name event = ''environment.create;handler=rancher-compose-executor'' \<and> CreateEnvironment hv event w (Err err) w'"
proof -
  from published_due [OF assms] obtain event err where e: "(event, Err err) \<in> set (rt_handled s)" "reply = error_reply event err" .
  from handled_outcomes [OF assms(1) e(1)] have o': "executor_outcome hv event (Some (Err err))" by (simp add: executor_env_def)
  have names: "start_handlers router_name main_eventHandlers n = Some Handle_CreateEnvironment \<Longrightarrow>
      n = ''environment.create;handler=rancher-compose-executor''" for n
    by (auto simp: start_handlers_def main_eventHandlers_def handlerSuffix_def router_name_def split: if_splits)
  from o' names e(2) show ?thesis by (fastforce simp: executor_outcome_def split: option.splits handler.splits)
qed

section \<open>A run of the handler\<close>

text \<open>A stack of one service, on a server that has the service already.\<close>

definition demo_environment :: Environment where
  "demo_environment = \<lparr>env_Name = ''web'', env_AccountId = ''1a5'', env_DockerCompose = ''web: {}'', env_RancherCompose = [],
     env_Environment = Map.empty\<rparr>"

definition demo_handler_pe :: project_env where
  "demo_handler_pe = \<lparr>pe_os = \<lparr>os_Stdin = Ok [], os_ReadFile = (\<lambda>f. ReadNotExist []), os_Getenv = (\<lambda>k. []), os_Abs = Ok, os_Getwd = Ok []\<rparr>,
     pe_compose = \<lparr>ce_yaml = (\<lambda>b. Ok [(''web'', [])]), ce_convert = (\<lambda>s. Ok ServiceConfig_zero),
       ce_convert_all = (\<lambda>m. Ok [(''web'', ServiceConfig_zero)]), ce_configLookup = None, ce_environmentLookup = (\<lambda>k s c. [])\<rparr>,
     pe_order = (\<lambda>ns. ns), pe_fuel = 1, pe_envLookup = None\<rparr>"

definition demo_hv :: "Stack list handler_env" where
  "demo_hv = \<lparr>hv_ById = (\<lambda>i x. (Ok demo_environment, x)), hv_Publish = (\<lambda>p x. (Ok (), x)), hv_pe = demo_handler_pe,
     hv_xe = demo_xe, hv_opts = \<lparr>co_Url = ''http://cattle'', co_AccessKey = [], co_SecretKey = []\<rparr>,
     hv_SchemasLink = [], hv_NowMillis = 0, hv_order = (\<lambda>ls. ls)\<rparr>"

definition demo_hw :: "Stack list handler_world" where
  "demo_hw = \<lparr>hw_published = [], hw_rancher = \<lparr>rw_log = [], rw_server = []\<rparr>\<rparr>"

lemma demo_merge:
  "mergeProject (pe_fuel (stack_pe demo_hv demo_environment)) (pe_compose (stack_pe demo_hv demo_environment)) file
     (pe_order (stack_pe demo_hv demo_environment)) bytes = Some (Ok [(''web'', ServiceConfig_zero)])"
proof -
  have "Compose_Merge.parse 1 (pe_compose (stack_pe demo_hv demo_environment)) file ''web'' [(''web'', [])] = Some (Ok ([], [(''web'', [])]))"
    by (simp add: stack_pe_def demo_hv_def demo_handler_pe_def readEnvFile_def ServiceConfig_zero_def
        Stringorslice_Slice_def resolveBuild_def extends_of_def Let_def)
  moreover have "sc_Restart ServiceConfig_zero = []" by (simp add: ServiceConfig_zero_def)
  ultimately show ?thesis
    by (simp add: mergeProject_def stack_pe_def demo_hv_def demo_handler_pe_def Interpolate_def Interpolate_service_def
        adjustValues_def)
qed

lemma demo_name: "project_name ''web'' = ''web''" "fixUpProjectName ''web'' = Ok ''web''"
  by code_simp+

text \<open>Parsing opens the context the first time and adds the one service each time.\<close>

lemma demo_parse:
  assumes "set (pr_listeners p) \<inter> pr_closed p = {}" "context_open (pe_os (stack_pe demo_hv demo_environment)) (pr_context p) = Ok c"
    "cx_ComposeBytes c \<noteq> None"
  shows "\<exists>p'. Parse (stack_pe demo_hv demo_environment) p = Some (Ok p') \<and> pr_context p' = c \<and>
    pr_Configs p' = alist_set ''web'' ServiceConfig_zero (pr_Configs p) \<and> pr_listeners p' = pr_listeners p \<and>
    pr_closed p' = pr_closed p \<and> pr_hasListeners p' = pr_hasListeners p"
  using assms by (auto simp: Parse_def Load_def demo_merge AddConfig_def Notify_open)

definition demo_core :: Context where
  "demo_core = \<lparr>cx_ComposeFile = [], cx_ComposeBytes = Some ''web: {}'', cx_ProjectName = ''web'', cx_isOpen = True,
     cx_IgnoreMissingConfig = False\<rparr>"

lemma demo_context_open:
  "context_open os (rcx_core (stack_context demo_hv demo_environment)) = Ok demo_core"
  "context_open os demo_core = Ok demo_core"
  using demo_name by (simp_all add: context_open_def stack_context_def demo_environment_def readComposeFile_def
      determineProject_def lookupProjectName_def demo_core_def)

lemma demo_rancher_open:
  "\<exists>c w'. rancher_open (stack_xe demo_hv demo_environment) ((stack_context demo_hv demo_environment)\<lparr>rcx_core := demo_core\<rparr>) w =
     (Ok c, w') \<and> rcx_core c = demo_core"
proof -
  have c: "rcx_Environment (stack_context demo_hv demo_environment) = None" "rcx_Url (stack_context demo_hv demo_environment) \<noteq> []"
    "rcx_isOpen (stack_context demo_hv demo_environment) = False"
    "rcx_RancherComposeBytes (stack_context demo_hv demo_environment) = Some []"
    by (simp_all add: stack_context_def demo_hv_def demo_environment_def)
  have n: "fixUpProjectName (cx_ProjectName demo_core) = Ok ''web''" "demo_core\<lparr>cx_ProjectName := ''web''\<rparr> = demo_core"
    "cx_ProjectName demo_core = ''web''" using demo_name by (simp_all add: demo_core_def)
  have u: "unmarshalBytes (stack_xe demo_hv demo_environment) b = Ok Map.empty" for b
    by (simp add: unmarshalBytes_def stack_xe_def demo_hv_def demo_xe_def Interpolate_def)
  have r: "readRancherConfig (stack_xe demo_hv demo_environment) (c\<lparr>rcx_core := demo_core\<rparr>) =
      Ok (c\<lparr>rcx_core := demo_core, rcx_RancherComposeFile := rcx_RancherComposeFile c, rcx_RancherConfig := Map.empty\<rparr>)"
    if "rcx_RancherComposeBytes c = Some []" for c
    using that by (simp add: readRancherConfig_def rancher_compose_file_def u Let_def)
  have client: "xe_NewRancherClient (stack_xe demo_hv demo_environment) opts = act_return demo_client" for opts
    by (simp add: stack_xe_def demo_hv_def demo_xe_def)
  have ok: "can_create_stack demo_client" by (simp add: can_create_stack_def demo_client_def rancher_Contains_def)
  have v: "\<exists>x w'. checkVersion (stack_xe demo_hv demo_environment) w = (Ok x, w')" for w
    by (simp add: checkVersion_def getSetting_def api_def stack_xe_def demo_hv_def demo_xe_def demo_stacks_def act_bind_def
        act_try_def)
  have l: "\<exists>c' w'. loadEnv (stack_xe demo_hv demo_environment) c w = (Ok c', w') \<and> rcx_core c' = rcx_core c"
    if "rcx_Environment c = None" for c w
    using that by (simp add: loadEnv_def Let_def stack_xe_def demo_hv_def demo_xe_def demo_stacks_def api_def act_bind_def
        split: option.split)
  let ?c = "(stack_context demo_hv demo_environment)\<lparr>rcx_core := demo_core,
    rcx_RancherComposeFile := rcx_RancherComposeFile (stack_context demo_hv demo_environment), rcx_RancherConfig := Map.empty\<rparr>"
  obtain x w1 where v: "checkVersion (stack_xe demo_hv demo_environment) w = (Ok x, w1)" using v by blast
  obtain c' w2 where l: "loadEnv (stack_xe demo_hv demo_environment) ?c w1 = (Ok c', w2)" "rcx_core c' = demo_core"
    using l [of ?c w1] c(1) by auto
  have r': "readRancherConfig (stack_xe demo_hv demo_environment)
      ((stack_context demo_hv demo_environment)\<lparr>rcx_core := demo_core\<lparr>cx_ProjectName := ''web''\<rparr>\<rparr>) = Ok ?c"
    unfolding n(2) by (rule r [OF c(4)])
  have "rancher_open (stack_xe demo_hv demo_environment) ((stack_context demo_hv demo_environment)\<lparr>rcx_core := demo_core\<rparr>) w =
      (Ok (c'\<lparr>rcx_isOpen := True\<rparr>), w2)"
    using c n(1,3) r' client ok v l(1)
    by (simp add: rancher_open_def act_bind_def)
  with l(2) show ?thesis by simp
qed

lemma demo_construct:
  "\<exists>p c info rw. constructProject demo_hv demo_environment (hw_rancher demo_hw) = Some (Ok (p, c, info), rw) \<and>
     pr_Configs p = [(''web'', ServiceConfig_zero)] \<and> (\<forall>n. \<not> is_sidekick info n) \<and> set (pr_listeners p) \<inter> pr_closed p = {}"
proof -
  let ?pe = "stack_pe demo_hv demo_environment" and ?xe = "stack_xe demo_hv demo_environment"
  let ?c = "stack_context demo_hv demo_environment"
  obtain p1 where p1: "Parse ?pe (NewProject (rcx_core ?c) 0) = Some (Ok p1)" "pr_context p1 = demo_core"
    "pr_Configs p1 = [(''web'', ServiceConfig_zero)]" "pr_listeners p1 = [0]" "pr_closed p1 = {}" "\<not> pr_hasListeners p1"
    using demo_parse [of "NewProject (rcx_core ?c) 0" demo_core] demo_context_open(1)
    by (auto simp: NewProject_def demo_core_def)
  obtain c w1 where c: "rancher_open ?xe (?c\<lparr>rcx_core := demo_core\<rparr>) (hw_rancher demo_hw) = (Ok c, w1)" "rcx_core c = demo_core"
    using demo_rancher_open by blast
  define p2 where "p2 = p1\<lparr>pr_context := demo_core, pr_Name := cx_ProjectName demo_core\<rparr>"
  have n: "rancher_NewProject ?xe ?pe ?c (hw_rancher demo_hw) = Some (Ok (p2, c, NewSidekickInfo (pr_Configs p1)), w1)"
    using p1(1,2) c by (simp add: rancher_NewProject_def act_bind_def p2_def)
  obtain p3 where p3: "Parse ?pe (AddListener 1 p2) = Some (Ok p3)" "pr_Configs p3 = [(''web'', ServiceConfig_zero)]"
    "pr_listeners p3 = [1]" "pr_closed p3 = {0}"
    using demo_parse [of "AddListener 1 p2" demo_core] demo_context_open(2) p1
    by (auto simp: AddListener_def p2_def demo_core_def)
  have "\<not> is_sidekick (NewSidekickInfo (pr_Configs p1)) n" for n
    unfolding p1(3) by (simp add: NewSidekickInfo_def add_primary_def sidekick_parts_def SliceorMap_MapParts_def
        ServiceConfig_zero_def is_sidekick_def)
  with n p3 show ?thesis by (auto simp: constructProject_def proc_bind_def)
qed

text \<open>The creation of the service succeeds, and the handler with it.\<close>

lemma demo_project_Create:
  assumes "pr_Configs p = [(''web'', ServiceConfig_zero)]" "\<forall>n. \<not> is_sidekick info n" "set (pr_listeners p) \<inter> pr_closed p = {}"
  shows "project_Create (services_env demo_hv demo_environment p c info) (stack_pe demo_hv demo_environment) p info (Ok ())"
proof -
  let ?rx = "services_env demo_hv demo_environment p c info" and ?pe = "stack_pe demo_hv demo_environment"
  let ?call = "\<lambda>(n :: string) (m :: svc_op). NoErr"
  let ?create = "\<lambda>n. CreateService ?pe (factory_Create (pr_Configs p) info) n p"
  have run: "RancherService_Create ?rx r w = Some (Ok (), snd (findExisting ?rx (r_name r) w))"
    if "CHR ''/'' \<notin> set (r_name r)" for r w
    using that by (simp add: RancherService_Create_def proc_bind_def findExisting_def resolveServiceAndEnvironmentId_def
        split2_no_sep Let_def api_def act_bind_def services_env_def demo_hv_def demo_xe_def demo_stacks_def)
  have "creates_as ?rx ?pe p info ?call"
    unfolding creates_as_def
  proof (intro allI)
    fix n
    show "case service_of ?pe p n of Ok r \<Rightarrow> (if is_sidekick info n then NoErr = NoErr
        else (\<exists>w res w'. RancherService_Create ?rx r w = Some (res, w') \<and> res \<noteq> Panic \<and> NoErr = werr_of res))
      | _ \<Rightarrow> NoErr = NoErr"
    proof (cases "service_of ?pe p n")
      case (Ok r)
      then have "r_name r = ''web''"
        using assms(1) by (auto simp: service_of_def CreateService_def NewService_def Let_def split: option.splits if_splits)
      then have "RancherService_Create ?rx r (hw_rancher demo_hw) =
          Some (Ok (), snd (findExisting ?rx (r_name r) (hw_rancher demo_hw)))" by (intro run) simp
      then show ?thesis unfolding Ok go.case by (metis go.distinct(3) werr_of.simps(1))
    qed simp_all
  qed
  moreover have w: "well_behaved Svc_Create ?call ?create [''web'']"
    by (rule project_well_behaved [OF assms(2)]) (simp_all add: assms(1))
  obtain err evs where f: "forEach Svc_Create ?call ?create [] [''web''] [] err evs"
    by (rule well_behaved_outcome [OF w, of "[]" "[]"]) simp
  then have "err = NoErr" using well_behaved_truthful [OF w f] by simp
  have events: "\<exists>p'. go_fold service_event evs q = Ok p' \<and> set (pr_listeners p') \<inter> pr_closed p' = {}"
    if "set (pr_listeners q) \<inter> pr_closed q = {}" for evs q
    using that
  proof (induction evs arbitrary: q)
    case (Cons e evs)
    obtain ev n where e: "e = (ev, n)" by fastforce
    have "\<exists>q'. service_event e q = Ok q' \<and> set (pr_listeners q') \<inter> pr_closed q' = {}"
      unfolding e service_event_def using Cons.prems by (simp add: Notify_open)
    with Cons.IH show ?case by fastforce
  qed auto
  obtain q where q: "Notify (fst (project_events Svc_Create)) [] None p = Ok q" "set (pr_listeners q) \<inter> pr_closed q = {}"
    using assms(3) by (simp add: Notify_open)
  obtain q' where q': "go_fold service_event evs q = Ok q'" "set (pr_listeners q') \<inter> pr_closed q' = {}"
    using events [OF q(2)] by blast
  obtain p' where "Notify (snd (project_events Svc_Create)) [] None q' = Ok p'" using q'(2) by (simp add: Notify_open)
  then have "go_bind (Notify (fst (project_events Svc_Create)) [] None p) (\<lambda>p. go_bind (go_fold service_event evs p)
      (\<lambda>p. Notify (snd (project_events Svc_Create)) [] None p)) = Ok p'" using q(1) q'(1) by simp
  then have "perform Svc_Create ?call ?create [] [] p NoErr p'"
    unfolding perform_def using f \<open>err = NoErr\<close> assms(1)
    by (intro exI [of _ "[''web'']"] exI [of _ evs]) simp
  ultimately have "creates_as ?rx ?pe p info ?call \<and> perform Svc_Create ?call ?create [] [] p NoErr p'" by blast
  then show ?thesis
    unfolding project_Create_def by (intro exI [of _ ?call] exI [of _ "[]"] exI [of _ NoErr] exI [of _ p']) simp
qed

definition demo_handler_event :: Event_Router.Event where
  "demo_handler_event = Event_of ''environment.create;handler=rancher-compose-executor'' ''7'' ''reply'' ''1e5''"

lemma demo_by_id: "on_server (hv_ById demo_hv i) w = (Ok demo_environment, w)"
  by (simp add: on_server_def demo_hv_def)

lemma demo_publish: "publishReply demo_hv reply w = (Ok (), w\<lparr>hw_published := hw_published w @ [reply]\<rparr>)"
  by (simp add: publishReply_def on_server_def demo_hv_def)

lemma demo_handler_run: "\<exists>w'. CreateEnvironment demo_hv demo_handler_event demo_hw (Ok ()) w'"
proof -
  from demo_construct obtain p c info rw where
    p: "constructProject demo_hv demo_environment (hw_rancher demo_hw) = Some (Ok (p, c, info), rw)"
      "pr_Configs p = [(''web'', ServiceConfig_zero)]" "\<forall>n. \<not> is_sidekick info n" "set (pr_listeners p) \<inter> pr_closed p = {}"
    by blast
  have d: "env_DockerCompose demo_environment \<noteq> []" by (simp add: demo_environment_def)
  have t: "publishTransitioningReply demo_hv ''Creating stack'' demo_handler_event (demo_hw\<lparr>hw_rancher := rw\<rparr>) =
      (Ok (), demo_hw\<lparr>hw_rancher := rw,
         hw_published := hw_published demo_hw @ [transitioning_reply ''Creating stack'' demo_handler_event]\<rparr>)"
    by (simp add: publishTransitioningReply_def act_ignore_def act_bind_def act_try_def demo_publish)
  have "\<exists>w'. createEnvironment demo_hv demo_handler_event demo_hw (Ok ()) w'"
    using createEnvironment.created [OF demo_by_id d p(1) t demo_project_Create [OF p(2-4)]]
    by (fastforce simp: emptyReply_def demo_publish)
  then show ?thesis by (blast intro: CreateEnvironment.intros)
qed

text \<open>The claims on this run; for the router, a run of the executor whose API does not answer.\<close>

theorem handler_replies_witness:
  "\<exists>w' pre. CreateEnvironment demo_hv demo_handler_event demo_hw (Ok ()) w' \<and>
     hw_published w' = pre @ [newReply demo_handler_event] \<and> pre \<in> {[], [transitioning_reply ''Creating stack'' demo_handler_event]}"
proof -
  obtain w' where w': "CreateEnvironment demo_hv demo_handler_event demo_hw (Ok ()) w'" using demo_handler_run by blast
  from handler_replies [OF w'] obtain pre where
    "hw_published w' = pre @ [newReply demo_handler_event]" "pre \<in> {[], [transitioning_reply ''Creating stack'' demo_handler_event]}"
    by (auto simp: demo_hw_def)
  with w' show ?thesis by blast
qed


definition demo_down_hv :: "Stack list handler_env" where
  "demo_down_hv = demo_hv\<lparr>hv_ById := (\<lambda>i x. (Err ''gone'', x))\<rparr>"

definition demo_executor :: worker_env where
  "demo_executor = executor_env demo_down_hv (\<lambda>raw. Ok (Some demo_handler_event))"

definition demo_executor_state :: router_state where
  "demo_executor_state = work_handle 0 demo_handler_event \<lparr>un_key = ''1e5''\<rparr> (Some (Err ''gone''))
     (work_decode demo_executor 0 ''m'' (receive ''m'' (router_init 1)))"

lemmas demo_executor_simps = demo_executor_state_def demo_executor_def executor_env_def demo_handler_event_def router_init_def
  receive_def work_decode_def work_handle_def set_job_def Event_of_def Lock_def newLockRequest_def newUnlocker_def
  locker_turn_def trim_space_def is_space_def Let_def upt_rec

lemma demo_gone: "\<exists>w'. CreateEnvironment demo_down_hv demo_handler_event demo_hw (Err ''gone'') w'"
proof -
  have "on_server (hv_ById demo_down_hv i) w = (Err ''gone'', w)" for i w by (simp add: on_server_def demo_down_hv_def)
  moreover have "publishTransitioningReply demo_down_hv msg event w =
      (Ok (), w\<lparr>hw_published := hw_published w @ [transitioning_reply msg event]\<rparr>)" for msg event w
    by (simp add: publishTransitioningReply_def act_ignore_def act_bind_def act_try_def publishReply_def on_server_def
        demo_down_hv_def demo_hv_def)
  ultimately show ?thesis
    by (intro exI) (rule CreateEnvironment.failed [OF createEnvironment.lookup_failed])
qed

lemma demo_executor_outcome: "wk_outcome demo_executor demo_handler_event (Some (Err ''gone''))"
proof -
  have "start_handlers router_name main_eventHandlers (evt_Name demo_handler_event) = Some Handle_CreateEnvironment" by code_simp
  then show ?thesis using demo_gone by (auto simp: demo_executor_def executor_env_def executor_outcome_def)
qed

lemma demo_executor_reachable: "router_reachable demo_executor 1 demo_executor_state"
proof -
  note step = router_reachable.step
  let ?s1 = "receive ''m'' (router_init 1)" and ?s2 = "work_decode demo_executor 0 ''m'' (receive ''m'' (router_init 1))"
  have r1: "router_reachable demo_executor 1 ?s1"
    by (rule step [OF router_reachable.init router_step.message]) (simp add: router_init_def)
  have w0: "worker_step demo_executor 0 ?s1 ?s2"
    by (rule worker_step.decode) (simp add: demo_executor_simps)
  have r2: "router_reachable demo_executor 1 ?s2"
    by (rule step [OF r1 router_step.worker [OF _ w0]]) (simp add: demo_executor_simps)
  have w1: "worker_step demo_executor 0 ?s2 demo_executor_state"
    unfolding demo_executor_state_def
    by (rule worker_step.handle [OF _ demo_executor_outcome]) (simp_all add: demo_executor_simps)
  show ?thesis by (rule step [OF r2 router_step.worker [OF _ w1]]) (simp add: demo_executor_simps)
qed

lemma demo_executor_jobs:
  "rt_jobs demo_executor_state 0 = Some (Replying demo_handler_event \<lparr>un_key = ''1e5''\<rparr> ''gone'')"
  "\<not> rt_crashed demo_executor_state" "rt_published demo_executor_state = []"
  by (simp_all add: demo_executor_simps)

theorem executor_error_replies_witness:
  "\<exists>event err w w'. error_reply demo_handler_event ''gone'' = error_reply event err \<and>
     evt_Name event = ''environment.create;handler=rancher-compose-executor'' \<and> CreateEnvironment demo_down_hv event w (Err err) w'"
proof -
  let ?s = "work_reply 0 demo_handler_event \<lparr>un_key = ''1e5''\<rparr> ''gone'' demo_executor_state"
  have w: "worker_step demo_executor 0 demo_executor_state ?s" by (rule worker_step.reply) (simp add: demo_executor_jobs)
  have r: "router_reachable (executor_env demo_down_hv (\<lambda>raw. Ok (Some demo_handler_event))) 1 ?s"
    using router_reachable.step [OF demo_executor_reachable router_step.worker [OF _ w]] demo_executor_jobs(2)
    by (simp add: demo_executor_def)
  have "error_reply demo_handler_event ''gone'' \<in> set (rt_published ?s)"
    using demo_executor_jobs(3) by (simp add: work_reply_def set_job_def)
  from executor_error_replies [OF r this] show ?thesis .
qed

end
