(* ===== verification/Spec2Isabelle.thy ===== *)
theory Spec2Isabelle
  imports Shlex Docker_Service Rancher_Http Yaml_Encode Yaml_Grammar Handlers
begin

text \<open>
  A model of the rancher-compose executor, the process that turns \<open>environment.create\<close> events of a Rancher server
  into the services of a docker compose stack, and of the Go packages below it that carry its logic.  Paths are
  below \<open>src/\<close>; \<open>G\<close> stands for \<open>Godeps/_workspace/src/github.com\<close>.

  \<^bold>\<open>The program.\<close>  \<open>main.go\<close> starts an event router (\<open>G/rancher/go-machine-service/events\<close>) with the handler
  \<open>CreateEnvironment\<close> (\<open>handlers/\<close>).  The router reads events from a web socket, hands each to a worker, and locks the
  event's resource while it is handled (\<open>G/rancher/go-machine-service/locks\<close>).  The handler looks the stack up,
  builds a libcompose project (\<open>G/docker/libcompose/project\<close>) from its compose file, and creates the project's
  services, which are Rancher services (\<open>G/rancher/rancher-compose/rancher\<close>), through the API client
  (\<open>G/rancher/go-rancher/client\<close>).  The outcome is posted as replies to the event.

  \<^bold>\<open>The theories.\<close>
  \<^item> \<open>Go_Prelude\<close>: results of Go calls (a value, an error's text, a panic), Go maps as association lists, and what is
    used of \<open>strings\<close> and \<open>strconv\<close>.  \<open>Go_World\<close>: calls that change a world, and such calls with loops that may not
    end (\<open>None\<close>); the rules to carry a relation between worlds through them.  \<open>Go_Path\<close>: Go's \<open>path\<close>.
  \<^item> \<open>Locks\<close>: the locker goroutine of \<open>locks.go\<close> and its clients; the locale of the clients' view is interpreted
    on it.  Mutual exclusion and the refinement of the map of owners.
  \<^item> \<open>Shlex\<close>: the tokenizer of \<open>G/flynn/go-shlex\<close>, which splits commands; quoting is undone.
  \<^item> \<open>Project_Types\<close>: events, \<open>ServiceConfig\<close>, the types with a YAML form of their own, relationships
    (\<open>types.go\<close>, \<open>types_yaml.go\<close>, \<open>utils.go\<close>) and the namespace modes of \<open>docker/runconfig/hostconfig.go\<close>.
  \<^item> \<open>Interpolation\<close>: \<open>interpolation.go\<close> and the two environment lookups, which interpret the locale of their
    contract; the scanner equals a reference by recursion on the text.
  \<^item> \<open>Yaml_Resolve\<close>, \<open>Yaml_Decode\<close>, \<open>Yaml_Encode\<close>: \<open>gopkg.in/yaml.v2\<close> between the events of a document and Go values: what scalars stand
    for (\<open>resolve.go\<close>), nodes, anchors, merges and the decoder (\<open>decode.go\<close>), the encoder and the choice of scalar styles (\<open>encode.go\<close>,
    \<open>emitterc.go\<close>).  The locale of the decoder's calls is interpreted on \<open>unmarshal\<close>; decoded services are well formed, and
    values come back from \<open>Marshal\<close> and \<open>Unmarshal\<close>.
    \<open>Yaml_Parser\<close>: the state machine of \<open>parserc.go\<close> from the tokens of the scanner to events: it ends, and with the decoder never panics.
    \<open>Yaml_Grammar\<close>: the productions the code cites, and that the machine parses what they allow.
  \<^item> \<open>Compose_Merge\<close>: \<open>merge.go\<close> and \<open>lookup/file.go\<close>, from the bytes of a compose file to its services: environment files, build
    directories, \<open>extends\<close>.
  \<^item> \<open>Traverse\<close>, \<open>Service_Wrapper\<close>: the launch of a project operation in dependency order (\<open>project.go\<close>), and the goroutines
    it launches (\<open>service-wrapper.go\<close>) as a step relation: no deadlock, results independent of the interleaving,
    bounded runs, actions after the dependencies.
  \<^item> \<open>Project_Core\<close>: \<open>context.go\<close> and the rest of \<open>project.go\<close>: opening a context, parsing, listeners, and the operations
    over the launch; what error an operation returns.
  \<^item> \<open>Client\<close>: the hand-written base of the API client (\<open>client/common.go\<close>) over an HTTP server.
  \<^item> \<open>Event_Router\<close>: \<open>events/listener.go\<close>: registration, subscription, the table of handlers, and the worker pool
    as a step relation over the keyed lock.
  \<^item> \<open>Docker_Nat\<close>, \<open>Docker_Convert\<close>: port specifications (\<open>G/docker/docker/pkg/nat\<close>, \<open>pkg/parsers\<close>) over 64-bit words, and
    the conversion of a service to a docker configuration (\<open>G/docker/libcompose/docker/convert.go\<close>,
    \<open>G/docker/docker/runconfig\<close>): specifications are read back, nothing wraps, nothing panics.
  \<^item> \<open>Service_Hash\<close>: the hash of a configuration (\<open>hash.go\<close>): what it distinguishes, and that it is stable.
  \<^item> \<open>Go_Parallel\<close>: tasks as trees of their atomic steps, and \<open>InParallel\<close> of \<open>libcompose/utils\<close>, which interleaves them.
    \<open>Docker_Container\<close>, \<open>Docker_Service\<close>: the docker backend (\<open>libcompose/docker\<close>) over a daemon: containers as
    tasks, services as relations to what some schedule leads to; the locales of the calls a task may make are interpreted for each operation.
  \<^item> \<open>Go_Version\<close>: versions and constraints of \<open>G/hashicorp/go-version\<close>.
  \<^item> \<open>Rancher_Api\<close>: the resources and calls of the server as the services use them, with the log of the calls made.
    \<open>Rancher_Service\<close>: sidekicks and every operation of \<open>RancherService\<close> (\<open>service.go\<close> and its neighbours).
    \<open>Rancher_Laws\<close>: which calls an operation makes, the waiting loops, the invariants of sidekicks and metadata, and
    the outcome of a stack's operations.  \<open>Rancher_Pull\<close>: the pulling of images.
    \<open>Rancher_Http\<close>: the server as the typed calls of the generated client reach it over HTTP, and what the operations
    send: the locale of the calls is interpreted for every connection.
    \<open>Rancher_Context\<close>: \<open>context.go\<close> and \<open>project.go\<close> of \<open>rancher-compose\<close>: configuration, connection, version check,
    finding or creating the stack.
  \<^item> \<open>Handlers\<close>: the create handler and its replies, the executor as the router with the handlers of \<open>main.go\<close>;
    the theorems that span the components (what a reply means, what is created when the handler succeeds).

  \<^bold>\<open>Conventions.\<close>  An error is the value \<open>Err\<close> with its text, a nil dereference or an index out of range is \<open>Panic\<close>.
  Strings are lists of bytes; where the code changes case or matches a class of characters the model is exact on ASCII text.
  Go iterates maps in any order: either the order is a parameter and the theorems hold for each, or the result
  does not depend on it.  Goroutines are step relations, or relations to every result that some order gives.
  Integers are unbounded where the code only carries them; parsed numbers are checked against the bounds of their types, and port
  arithmetic is on words.

  \<^bold>\<open>Fuel.\<close>  \<open>startService\<close> counts the nesting of its calls: one more than the number of wrappers is enough
  for every graph.  The parser's fuel counts the nesting of \<open>extends\<close>: more than the rank of the service is
  enough when the entries descend, and a service that extends itself exhausts any.  The waiting loops have no
  fuel: not returning is the value \<open>None\<close>, and it is characterised by what the server answers.

  \<^bold>\<open>Parameters.\<close>  The docker daemon, the YAML scanner (bytes to tokens) and the emitter's writer, \<open>strconv.ParseFloat\<close>, the JSON codec, the operating system (files, environment, working directory), the HTTP
  server and the answers of the Rancher API, and the uploader of build archives.  Every property with hypotheses on them has a
  witness with concrete functions.

  \<^bold>\<open>Not modelled.\<close>  Logging (\<open>handlers/log.go\<close>, \<open>listener.go\<close>, logrus), the streaming of container logs and the dialling of web
  sockets, tables (\<open>info.go\<close>); the packing of build archives and
  the S3 uploader; of the generated API client, the resources and calls that the program does not use; the
  forwarding of logs, build contexts and TLS set-up of the docker backend, the flags of \<open>docker run\<close>, and the scanner and writer of YAML, its structs and types
  with unmarshallers of their own, and the other vendored libraries (AWS, docker engine and registry, mux), of which only types are linked in.
\<close>

end
